(* ===== verification/Prelude.thy ===== *)
theory Prelude
  imports Main "HOL-Library.Word" "HOL-Library.AList" "HOL-Library.List_Lexorder"
    "HOL-Library.Char_ord"
begin

text \<open>
  Names and lemmas shared by every component: the machine integers of the client, the
  standard containers it uses (\<open>std::map\<close> as an association list kept in key order,
  \<open>std::unordered_map\<close> as an association list in some order), the conversion between the
  characters of a \<open>std::string\<close> and the octets on the wire, and the collections of simplification rules
  that the component proofs share.
\<close>

unbundle bit_operations_syntax

section \<open>Machine integers\<close>

type_synonym byte = "8 word"
type_synonym u16 = "16 word"
type_synonym u32 = "32 word"
type_synonym u64 = "64 word"

text \<open>Signed 64-bit values are kept as words and read with \<^const>\<open>sint\<close>.\<close>

type_synonym i64 = "64 word"

lemma unat_word_of_nat_eq:
  "n < 2 ^ LENGTH('a) \<Longrightarrow> unat (word_of_nat n :: 'a::len word) = n"
  by (simp add: unsigned_of_nat take_bit_nat_eq_self)

lemma ucast_ucast_16 [simp]: "ucast (ucast (i :: u16) :: u64) = i"
  by (rule bit_word_eqI) (simp add: bit_simps)

lemma ucast_ucast_32 [simp]: "ucast (ucast (i :: u32) :: u64) = i"
  by (rule bit_word_eqI) (simp add: bit_simps)

lemma unat_ucast_16_64 [simp]: "unat (ucast (i :: u16) :: u64) = unat i"
  by (simp add: unsigned_ucast_eq take_bit_nat_eq_self_iff) (rule less_trans [OF unsigned_less], simp)

lemma unat_add_of_nat: "unat a + k < 2 ^ 64 \<Longrightarrow> unat ((a :: u64) + of_nat k) = unat a + k"
  by (simp add: unat_word_ariths(1) unat_of_nat)

section \<open>Collections of rules\<close>

named_theorems reader_simps \<open>what a read of the memory reader does to the unread input\<close>
named_theorems codec_simps \<open>encoders and decoders on the octets they produce or accept\<close>
named_theorems path_simps \<open>path resolution and matching\<close>
named_theorems session_simps \<open>unfolding of the session operations\<close>
named_theorems client_simps \<open>unfolding of the client operations\<close>

section \<open>Ordered maps\<close>

text \<open>
  \<open>std::map\<close> iterates in the order of its keys. The model keeps the entries in that order;
  \<open>sm_put\<close> is assignment through \<open>operator[]\<close> and \<open>sm_del\<close> is \<open>erase\<close>.
\<close>

fun sm_put :: "'k::linorder \<Rightarrow> 'v \<Rightarrow> ('k \<times> 'v) list \<Rightarrow> ('k \<times> 'v) list" where
  "sm_put k v [] = [(k, v)]"
| "sm_put k v ((k', v') # xs) =
     (if k < k' then (k, v) # (k', v') # xs
      else if k = k' then (k, v) # xs
      else (k', v') # sm_put k v xs)"

definition sm_del :: "'k \<Rightarrow> ('k \<times> 'v) list \<Rightarrow> ('k \<times> 'v) list" where
  "sm_del k xs = filter (\<lambda>(k', _). k' \<noteq> k) xs"

definition sm_ok :: "('k::linorder \<times> 'v) list \<Rightarrow> bool" where
  "sm_ok xs \<longleftrightarrow> sorted_wrt (<) (map fst xs)"

lemma sm_ok_Nil [simp]: "sm_ok []"
  by (simp add: sm_ok_def)

lemma map_of_sm_put [simp]: "map_of (sm_put k v xs) = (map_of xs)(k \<mapsto> v)"
  by (induction k v xs rule: sm_put.induct) (auto simp: fun_eq_iff)

lemma map_of_sm_del [simp]: "map_of (sm_del k xs) = (map_of xs)(k := None)"
  by (induction xs) (auto simp: sm_del_def fun_eq_iff)

lemma set_fst_sm_put [simp]: "fst ` set (sm_put k v xs) = insert k (fst ` set xs)"
  by (induction k v xs rule: sm_put.induct) auto

lemma sm_ok_put [simp]: "sm_ok xs \<Longrightarrow> sm_ok (sm_put k v xs)"
  unfolding sm_ok_def
proof (induction k v xs rule: sm_put.induct)
  case (1 k v)
  then show ?case by simp
next
  case (2 k v k' v' xs)
  have "a = k \<or> k' < a" if "(a, b) \<in> set (sm_put k v xs)" for a b
  proof -
    from that have "a \<in> insert k (fst ` set xs)"
      using set_fst_sm_put [of k v xs] by (metis fst_conv image_eqI)
    with "2.prems" show ?thesis by auto
  qed
  with 2 show ?case by (fastforce simp: sorted_wrt_map)
qed

lemma sm_ok_del [simp]: "sm_ok xs \<Longrightarrow> sm_ok (sm_del k xs)"
  unfolding sm_ok_def sm_del_def by (induction xs) auto

lemma sm_ok_distinct: "sm_ok xs \<Longrightarrow> distinct (map fst xs)"
  unfolding sm_ok_def by (induction xs) auto

lemma sm_put_append:
  assumes "sm_ok xs" and "\<forall>x \<in> fst ` set xs. x < k"
  shows "sm_put k v xs = xs @ [(k, v)]"
  using assms unfolding sm_ok_def by (induction xs) (auto simp: sm_ok_def)

lemma sm_put_overwrite: "sm_put k v (sm_put k w xs) = sm_put k v xs"
  by (induction k w xs rule: sm_put.induct) auto

section \<open>Characters and octets\<close>

definition byte_of :: "char \<Rightarrow> byte" where
  "byte_of c = word_of_nat (of_char c)"

definition char_from :: "byte \<Rightarrow> char" where
  "char_from b = char_of (unat b)"

lemma char_from_byte_of [simp]: "char_from (byte_of c) = c"
proof -
  have "(of_char c :: nat) < 256"
    using of_char_mod_256 [of c, where 'a = nat] by (metis mod_less_divisor zero_less_numeral)
  then show ?thesis
    by (simp add: char_from_def byte_of_def unat_of_nat)
qed

lemma byte_of_char_from [simp]: "byte_of (char_from b) = b"
proof -
  have "unat b < 2 ^ LENGTH(8)" by (rule unsigned_less)
  then show ?thesis by (simp add: char_from_def byte_of_def)
qed

lemma map_char_from_byte_of [simp]: "map char_from (map byte_of s) = s"
  by (simp add: comp_def)

text \<open>What \<open>strlen\<close> sees of a string: the characters before the first NUL.\<close>

definition c_str :: "string \<Rightarrow> string" where
  "c_str s = takeWhile (\<lambda>c. c \<noteq> CHR 0x00) s"

lemma length_c_str: "length (c_str s) \<le> length s"
  by (simp add: c_str_def length_takeWhile_le)

lemma c_str_id: "CHR 0x00 \<notin> set s \<Longrightarrow> c_str s = s"
  unfolding c_str_def by (subst takeWhile_eq_all_conv) auto

section \<open>Text\<close>

text \<open>Unsigned numbers as \<open>std::to_string\<close> and streams write them.\<close>

definition digit_char :: "nat \<Rightarrow> char" where
  "digit_char d = char_of (of_char CHR ''0'' + d)"

fun decimal :: "nat \<Rightarrow> string" where
  "decimal n = (if n < 10 then [digit_char n] else decimal (n div 10) @ [digit_char (n mod 10)])"

declare decimal.simps [simp del]

text \<open>\<open>std::tolower\<close> in the C locale.\<close>

definition to_lower :: "char \<Rightarrow> char" where
  "to_lower c = (if CHR ''A'' \<le> c \<and> c \<le> CHR ''Z'' then char_of (of_char c + (32 :: nat)) else c)"

end
