(* ===== verification/Float_Bits.thy ===== *)
theory Float_Bits
  imports Prelude
begin

text \<open>
  The conversions between \<open>double\<close>, \<open>float\<close> and \<open>int64_t\<close> that the PSON encoder and decoder
  rely on (\<open>pson_encoder::encode\<close>, case \<open>number_float\<close>, and \<open>pson_decoder::decode\<close>, case
  \<open>floating_t\<close>), on the IEEE 754 bit patterns. A \<open>double\<close> is a 64-bit word: sign, 11 bits of
  exponent, 52 of fraction; a \<open>float\<close> is a 32-bit word: sign, 8 bits, 23 bits.
\<close>

section \<open>Fields\<close>

definition dbl_sign :: "u64 \<Rightarrow> bool" where
  "dbl_sign d \<longleftrightarrow> 2 ^ 63 \<le> unat d"

definition dbl_exp :: "u64 \<Rightarrow> nat" where
  "dbl_exp d = unat d div 2 ^ 52 mod 2 ^ 11"

definition dbl_frac :: "u64 \<Rightarrow> nat" where
  "dbl_frac d = unat d mod 2 ^ 52"

definition mk_dbl :: "bool \<Rightarrow> nat \<Rightarrow> nat \<Rightarrow> u64" where
  "mk_dbl s e f = word_of_nat ((if s then 2 ^ 63 else 0) + e * 2 ^ 52 + f)"

definition flt_sign :: "u32 \<Rightarrow> bool" where
  "flt_sign d \<longleftrightarrow> 2 ^ 31 \<le> unat d"

definition flt_exp :: "u32 \<Rightarrow> nat" where
  "flt_exp d = unat d div 2 ^ 23 mod 2 ^ 8"

definition flt_frac :: "u32 \<Rightarrow> nat" where
  "flt_frac d = unat d mod 2 ^ 23"

definition mk_flt :: "bool \<Rightarrow> nat \<Rightarrow> nat \<Rightarrow> u32" where
  "mk_flt s e f = word_of_nat ((if s then 2 ^ 31 else 0) + e * 2 ^ 23 + f)"

lemma mk_dbl_fields: "mk_dbl (dbl_sign d) (dbl_exp d) (dbl_frac d) = d"
proof -
  have p11: "(2::nat) ^ 11 = 2048" by simp
  define q where "q = unat d div 2 ^ 52"
  have "unat d < 2 ^ LENGTH(64)" by (rule unsigned_less)
  then have q: "q < 4096" by (simp add: q_def)
  have d: "unat d = q * 2 ^ 52 + unat d mod 2 ^ 52" by (simp add: q_def)
  have sgn: "2 ^ 63 \<le> unat d \<longleftrightarrow> 2048 \<le> q" by (auto simp: q_def)
  have "q = (if 2048 \<le> q then 2048 else 0) + q mod 2048"
    using q by (auto simp: mod_if)
  then have "q * 2 ^ 52 = (if 2048 \<le> q then 2 ^ 63 else 0) + q mod 2048 * 2 ^ 52"
    by (cases "2048 \<le> q") auto
  with d sgn have "(if 2 ^ 63 \<le> unat d then 2 ^ 63 else 0)
      + q mod 2048 * 2 ^ 52 + unat d mod 2 ^ 52 = unat d"
    by auto
  then show ?thesis
    unfolding mk_dbl_def dbl_sign_def dbl_exp_def dbl_frac_def q_def [symmetric]
    by (simp only: p11) simp
qed

lemma mk_flt_unat:
  assumes "e < 256" and "f < 2 ^ 23"
  shows "unat (mk_flt s e f) = (if s then 2 ^ 31 else 0) + e * 2 ^ 23 + f"
proof -
  have "(if s then 2 ^ 31 else 0) + e * 2 ^ 23 + f < 2 ^ LENGTH(32)"
    using assms by (cases s) auto
  then show ?thesis unfolding mk_flt_def by (rule unat_word_of_nat_eq)
qed

lemma mk_flt_fields [simp]:
  assumes "e < 256" and "f < 2 ^ 23"
  shows "flt_sign (mk_flt s e f) = s" and "flt_exp (mk_flt s e f) = e"
    and "flt_frac (mk_flt s e f) = f"
proof -
  have split: "(if s then 2 ^ 31 else 0) + e * 2 ^ 23 + f
      = ((if s then 256 else 0) + e) * 2 ^ 23 + f"
    by simp
  show "flt_sign (mk_flt s e f) = s"
    using assms by (auto simp: flt_sign_def mk_flt_unat)
  show "flt_exp (mk_flt s e f) = e"
    unfolding flt_exp_def mk_flt_unat [OF assms] split using assms
    by (simp only: div_mult_self3 div_less) simp
  show "flt_frac (mk_flt s e f) = f"
    unfolding flt_frac_def mk_flt_unat [OF assms] split using assms
    by (simp only: mod_mult_self3 mod_less)
qed

section \<open>double and int64_t\<close>

text \<open>
  A finite \<open>double\<close> is \<open>mantissa * 2 ^ shift\<close>. \<open>dbl_whole\<close> is its value truncated towards zero,
  \<open>dbl_has_fraction\<close> says that the truncation lost something.
\<close>

definition dbl_mant :: "u64 \<Rightarrow> nat" where
  "dbl_mant d = (if dbl_exp d = 0 then dbl_frac d else 2 ^ 52 + dbl_frac d)"

definition dbl_shift :: "u64 \<Rightarrow> int" where
  "dbl_shift d = int (if dbl_exp d = 0 then 1 else dbl_exp d) - 1075"

definition dbl_whole :: "u64 \<Rightarrow> int" where
  "dbl_whole d =
     (let m = dbl_mant d; k = dbl_shift d;
          a = (if 0 \<le> k then m * 2 ^ nat k else m div 2 ^ nat (- k))
      in if dbl_sign d then - int a else int a)"

definition dbl_has_fraction :: "u64 \<Rightarrow> bool" where
  "dbl_has_fraction d \<longleftrightarrow>
     (let k = dbl_shift d in k < 0 \<and> dbl_mant d mod 2 ^ nat (- k) \<noteq> 0)"

text \<open>
  \<open>static_cast<int64_t>(double)\<close>. Out of range (and for infinities and NaN) the C++ standard
  leaves the result open; the model takes what x86-64 computes, the smallest integer.
\<close>

definition dbl_to_i64 :: "u64 \<Rightarrow> i64" where
  "dbl_to_i64 d =
     (if dbl_exp d \<noteq> 2047 \<and> - (2 ^ 63) \<le> dbl_whole d \<and> dbl_whole d < 2 ^ 63
      then word_of_int (dbl_whole d)
      else word_of_int (- (2 ^ 63)))"

text \<open>
  \<open>static_cast<uint64_t>(double)\<close>. From \<open>2 ^ 63\<close> on the compiled code subtracts \<open>2 ^ 63\<close> first and adds it
  to the result, so that every value that fits is converted; what does not fit is open here as well, and
  the model again takes what x86-64 computes.
\<close>

definition dbl_to_u64 :: "u64 \<Rightarrow> u64" where
  "dbl_to_u64 d =
     (if dbl_exp d = 2047 then (if dbl_frac d = 0 \<and> \<not> dbl_sign d then 0 else dbl_to_i64 d)
      else if 2 ^ 64 \<le> dbl_whole d then 0
      else if 2 ^ 63 \<le> dbl_whole d then word_of_int (dbl_whole d)
      else dbl_to_i64 d)"

lemma dbl_to_u64_exact: "dbl_exp d \<noteq> 2047 \<Longrightarrow> 0 \<le> dbl_whole d \<Longrightarrow> dbl_whole d < 2 ^ 64 \<Longrightarrow> uint (dbl_to_u64 d) = dbl_whole d"
  by (simp add: dbl_to_u64_def dbl_to_i64_def uint_word_of_int take_bit_eq_mod)

text \<open>
  \<open>int_value == double_value\<close> for an \<open>int_value\<close> obtained by that cast: the integer is then a
  truncated \<open>double\<close> (or the smallest integer), so its conversion back to \<open>double\<close> is exact.
\<close>

definition i64_eq_dbl :: "i64 \<Rightarrow> u64 \<Rightarrow> bool" where
  "i64_eq_dbl i d \<longleftrightarrow>
     dbl_exp d \<noteq> 2047 \<and> \<not> dbl_has_fraction d \<and> sint i = dbl_whole d"

section \<open>double and float\<close>

text \<open>
  \<open>exact_float d\<close> stands for the test \<open>static_cast<float>(d) == d\<close>: the \<open>float\<close> when the
  \<open>double\<close> is one of the values a \<open>float\<close> can hold, and nothing when the cast rounds, overflows
  or the value is a NaN (which equals nothing). Where the value is exact every rounding mode
  gives it, so the rounding itself plays no role.
\<close>

definition exact_float :: "u64 \<Rightarrow> u32 option" where
  "exact_float d =
     (let s = dbl_sign d; e = dbl_exp d; f = dbl_frac d in
      if e = 2047 then (if f = 0 then Some (mk_flt s 255 0) else None)
      else if e = 0 then (if f = 0 then Some (mk_flt s 0 0) else None)
      else if 897 \<le> e \<and> e \<le> 1150 then
        (if f mod 2 ^ 29 = 0 then Some (mk_flt s (e - 896) (f div 2 ^ 29)) else None)
      else if 874 \<le> e \<and> e \<le> 896 then
        (let m = 2 ^ 52 + f; k = 926 - e in
         if m mod 2 ^ k = 0 then Some (mk_flt s 0 (m div 2 ^ k)) else None)
      else None)"

fun top_bit :: "nat \<Rightarrow> nat" where
  "top_bit n = (if n \<le> 1 then 0 else Suc (top_bit (n div 2)))"

declare top_bit.simps [simp del]

text \<open>The widening conversion from \<open>float\<close> to \<open>double\<close>; a signalling NaN becomes quiet.\<close>

definition flt_to_dbl :: "u32 \<Rightarrow> u64" where
  "flt_to_dbl x =
     (let s = flt_sign x; e = flt_exp x; f = flt_frac x in
      if e = 255 then
        (if f = 0 then mk_dbl s 2047 0
         else mk_dbl s 2047 (if f * 2 ^ 29 < 2 ^ 51 then 2 ^ 51 + f * 2 ^ 29 else f * 2 ^ 29))
      else if e = 0 then
        (if f = 0 then mk_dbl s 0 0
         else let p = top_bit f in mk_dbl s (p + 874) (f * 2 ^ (52 - p) - 2 ^ 52))
      else mk_dbl s (e + 896) (f * 2 ^ 29))"

lemma top_bit_eq: "2 ^ p \<le> n \<Longrightarrow> n < 2 ^ Suc p \<Longrightarrow> top_bit n = p"
proof (induction n arbitrary: p rule: top_bit.induct)
  case (1 n)
  show ?case
  proof (cases p)
    case 0
    with "1.prems" show ?thesis by (simp add: top_bit.simps [of n])
  next
    case (Suc q)
    with "1.prems" have n: "2 * 2 ^ q \<le> n" "n < 2 * 2 ^ Suc q" by simp_all
    moreover have "(1::nat) \<le> 2 ^ q" by simp
    ultimately have "\<not> n \<le> 1" by linarith
    moreover have "2 ^ q \<le> n div 2" and "n div 2 < 2 ^ Suc q"
      using n by (simp_all add: less_eq_div_iff_mult_less_eq mult.commute)
    ultimately
    have "\<not> n \<le> 1" and "2 ^ q \<le> n div 2" and "n div 2 < 2 ^ Suc q" by blast+
    with "1.IH" have "top_bit (n div 2) = q" by blast
    with Suc \<open>\<not> n \<le> 1\<close> show ?thesis by (simp add: top_bit.simps [of n])
  qed
qed

text \<open>A \<open>float\<close> sent because the test succeeded is read back as the same \<open>double\<close>.\<close>

lemma flt_to_dbl_exact:
  assumes "exact_float d = Some x"
  shows "flt_to_dbl x = d"
proof -
  define s e f where "s = dbl_sign d" and "e = dbl_exp d" and "f = dbl_frac d"
  have d: "d = mk_dbl s e f" by (simp add: s_def e_def f_def mk_dbl_fields)
  have f52: "f < 2 ^ 52" by (simp add: f_def dbl_frac_def)
  note x = assms [unfolded exact_float_def, folded s_def e_def f_def, unfolded Let_def]
  consider (inf) "e = 2047" | (zero) "e = 0" | (normal) "897 \<le> e" "e \<le> 1150"
    | (small) "874 \<le> e" "e \<le> 896"
    using x by (auto split: if_splits)
  then show ?thesis
  proof cases
    case inf
    with x d show ?thesis by (auto simp: flt_to_dbl_def split: if_splits)
  next
    case zero
    with x d show ?thesis by (auto simp: flt_to_dbl_def split: if_splits)
  next
    case normal
    with x have f: "f mod 2 ^ 29 = 0" and x': "x = mk_flt s (e - 896) (f div 2 ^ 29)"
      by (auto split: if_splits)
    from f52 have "f div 2 ^ 29 < 2 ^ 23" by auto
    moreover from f have "f div 2 ^ 29 * 2 ^ 29 = f" by auto
    moreover from normal have "e - 896 \<noteq> 255" and "e - 896 < 256" by auto
    ultimately show ?thesis
      using normal x' d by (simp add: flt_to_dbl_def Let_def)
  next
    case small
    define k where "k = 926 - e"
    from small have k: "30 \<le> k" "k \<le> 52" "k + (e - 874) = 52" by (auto simp: k_def)
    from small x have m: "(2 ^ 52 + f) mod 2 ^ k = 0"
      and x': "x = mk_flt s 0 ((2 ^ 52 + f) div 2 ^ k)"
      by (auto simp: k_def Let_def split: if_splits)
    define q where "q = (2 ^ 52 + f) div 2 ^ k"
    from m have q: "q * 2 ^ k = 2 ^ 52 + f" by (auto simp: q_def)
    have pow: "(2::nat) ^ (e - 874) * 2 ^ k = 2 ^ 52"
      using k(3) by (metis add.commute power_add)
    have "2 ^ (e - 874) * 2 ^ k \<le> q * 2 ^ k" using q pow by simp
    then have lo: "2 ^ (e - 874) \<le> q" by simp
    have "q * 2 ^ k < 2 ^ Suc (e - 874) * 2 ^ k" using q pow f52 by simp
    then have hi: "q < 2 ^ Suc (e - 874)" by (simp only: mult_less_cancel2)
    have tb: "top_bit q = e - 874" using lo hi by (rule top_bit_eq)
    have "(2::nat) ^ Suc (e - 874) \<le> 2 ^ 23"
      using small by (intro power_increasing) auto
    with hi have q23: "q < 2 ^ 23" by simp
    have q0: "q \<noteq> 0" using lo by (metis le_zero_eq power_not_zero zero_neq_numeral)
    have "52 - (e - 874) = k" and "e - 874 + 874 = e" using k small by simp_all
    moreover have "q * 2 ^ k - 2 ^ 52 = f" using q by simp
    moreover have "x = mk_flt s 0 q" using x' by (simp only: q_def)
    ultimately show ?thesis
      using d q23 q0 tb by (simp add: flt_to_dbl_def Let_def)
  qed
qed

end
