(* ===== verification/Json_Value.thy ===== *)
theory Json_Value
  imports Float_Bits
begin

text \<open>
  The values the client exchanges. \<open>nlohmann::json\<close> is a library the sources call, not part of
  them; the model keeps its documented kinds of value (the cases of \<open>value_t\<close> that the encoder switches
  over) and the few documented accessors the sources use. An object is a \<open>std::map\<close>, so its
  entries are in key order. On top of them the theory models \<open>get_value\<close> of
  \<^verbatim>\<open>core/iotmp_resource.hpp\<close>, the lookup with a default that every handler uses.
\<close>

section \<open>Values\<close>

datatype json =
    JNull
  | JBool bool
  | JInt i64
  | JUInt u64
  | JFloat u64
  | JStr string
  | JBin "byte list"
  | JArr "json list"
  | JObj "(string \<times> json) list"
  | JDiscarded

fun j_is_null :: "json \<Rightarrow> bool" where
  "j_is_null JNull = True"
| "j_is_null _ = False"

fun j_is_string :: "json \<Rightarrow> bool" where
  "j_is_string (JStr _) = True"
| "j_is_string _ = False"

fun j_is_binary :: "json \<Rightarrow> bool" where
  "j_is_binary (JBin _) = True"
| "j_is_binary _ = False"

fun j_is_object :: "json \<Rightarrow> bool" where
  "j_is_object (JObj _) = True"
| "j_is_object _ = False"

fun j_is_number :: "json \<Rightarrow> bool" where
  "j_is_number (JInt _) = True"
| "j_is_number (JUInt _) = True"
| "j_is_number (JFloat _) = True"
| "j_is_number _ = False"

text \<open>\<open>empty()\<close>: null is empty, containers may be, every other value is not.\<close>

fun j_empty :: "json \<Rightarrow> bool" where
  "j_empty JNull = True"
| "j_empty (JArr xs) = (xs = [])"
| "j_empty (JObj kvs) = (kvs = [])"
| "j_empty _ = False"

text \<open>\<open>find(key)\<close>: only an object has keys.\<close>

fun j_find :: "string \<Rightarrow> json \<Rightarrow> json option" where
  "j_find k (JObj kvs) = map_of kvs k"
| "j_find k _ = None"

text \<open>
  \<open>value[key] = x\<close>: null becomes an object first; \<open>None\<close> is the \<open>type_error\<close> the library
  throws for any other kind of value.
\<close>

fun j_put :: "string \<Rightarrow> json \<Rightarrow> json \<Rightarrow> json option" where
  "j_put k x JNull = Some (JObj [(k, x)])"
| "j_put k x (JObj kvs) = Some (JObj (sm_put k x kvs))"
| "j_put k x _ = None"

text \<open>\<open>get<T>()\<close> of a number for an unsigned \<open>T\<close>: a cast from the stored representation.\<close>

fun j_u64 :: "json \<Rightarrow> u64" where
  "j_u64 (JInt i) = i"
| "j_u64 (JUInt u) = u"
| "j_u64 (JFloat d) = dbl_to_u64 d"
| "j_u64 _ = 0"

lemma j_find_put: "j_put k x v = Some v' \<Longrightarrow> j_find k v' = Some x"
  by (cases "(k, x, v)" rule: j_put.cases) auto

lemma j_find_put_other: "j_put k x v = Some v' \<Longrightarrow> k' \<noteq> k \<Longrightarrow> j_find k' v' = j_find k' v"
  by (cases "(k, x, v)" rule: j_put.cases) auto

text \<open>An object built from a list of assignments, in the order of the source.\<close>

definition j_obj :: "(string \<times> json) list \<Rightarrow> json" where
  "j_obj kvs = JObj (fold (\<lambda>(k, v). sm_put k v) kvs [])"

section \<open>get\_value\<close>

text \<open>
  The loop of \<open>get_value\<close> cuts the path at each dot and looks the segment up in the current
  value; a segment that is not found ends the lookup (the caller then takes its default).
\<close>

function walk_path :: "json \<Rightarrow> string \<Rightarrow> json option" where
  "walk_path current path =
     (let segment = takeWhile (\<lambda>c. c \<noteq> CHR ''.'') path in
      case dropWhile (\<lambda>c. c \<noteq> CHR ''.'') path of
        [] \<Rightarrow> j_find segment current
      | _ # rest \<Rightarrow>
          (case j_find segment current of
             None \<Rightarrow> None
           | Some found \<Rightarrow> walk_path found rest))"
  by pat_completeness auto
termination
proof (relation "measure (\<lambda>(_, path). length path)")
  fix path :: string and c rest
  assume "dropWhile (\<lambda>c. c \<noteq> CHR ''.'') path = c # rest"
  then have "length (c # rest) \<le> length path"
    by (metis length_dropWhile_le)
  then show "\<And>current found. ((found, rest), current, path) \<in> measure (\<lambda>(_, path). length path)"
    by simp
qed simp

declare walk_path.simps [simp del]

definition find_path :: "json \<Rightarrow> string \<Rightarrow> json option" where
  "find_path json path = (if path = [] then Some json else walk_path json path)"

definition get_json :: "json \<Rightarrow> string \<Rightarrow> json \<Rightarrow> json" where
  "get_json json path d = (case find_path json path of None \<Rightarrow> d | Some v \<Rightarrow> v)"

definition get_string :: "json \<Rightarrow> string \<Rightarrow> string \<Rightarrow> string" where
  "get_string json path d =
     (case find_path json path of Some (JStr s) \<Rightarrow> s | _ \<Rightarrow> d)"

definition get_bool :: "json \<Rightarrow> string \<Rightarrow> bool \<Rightarrow> bool" where
  "get_bool json path d =
     (case find_path json path of Some (JBool b) \<Rightarrow> b | _ \<Rightarrow> d)"

definition get_num :: "json \<Rightarrow> string \<Rightarrow> 'a::len word \<Rightarrow> 'a word" where
  "get_num json path d =
     (case find_path json path of
        Some v \<Rightarrow> (if j_is_number v then ucast (j_u64 v) else d)
      | None \<Rightarrow> d)"

text \<open>A path whose first segment has no dot in it is a lookup followed by the rest of the path.\<close>

lemma walk_path_segment:
  assumes "CHR ''.'' \<notin> set seg"
  shows "walk_path v seg = j_find seg v"
    and "walk_path v (seg @ CHR ''.'' # rest) =
      (case j_find seg v of None \<Rightarrow> None | Some w \<Rightarrow> walk_path w rest)"
proof -
  let ?p = "\<lambda>c. c \<noteq> CHR ''.''"
  have all: "\<forall>c \<in> set seg. ?p c" using assms by auto
  then have seg: "takeWhile ?p seg = seg" "dropWhile ?p seg = []"
    by (simp_all add: takeWhile_eq_all_conv dropWhile_eq_Nil_conv)
  then show "walk_path v seg = j_find seg v"
    by (subst walk_path.simps) (simp only: Let_def seg list.case)
  have seg_rest: "takeWhile ?p (seg @ CHR ''.'' # rest) = seg"
    "dropWhile ?p (seg @ CHR ''.'' # rest) = CHR ''.'' # rest"
    using all by (simp_all add: takeWhile_append2 dropWhile_append2)
  then show "walk_path v (seg @ CHR ''.'' # rest) =
      (case j_find seg v of None \<Rightarrow> None | Some w \<Rightarrow> walk_path w rest)"
    by (subst walk_path.simps) (simp only: Let_def seg_rest list.case)
qed

text \<open>The path through a list of dot-free segments is the iterated lookup.\<close>

fun find_all :: "string list \<Rightarrow> json \<Rightarrow> json option" where
  "find_all [] v = Some v"
| "find_all (s # ss) v = (case j_find s v of None \<Rightarrow> None | Some w \<Rightarrow> find_all ss w)"

fun join_dots :: "string list \<Rightarrow> string" where
  "join_dots [] = []"
| "join_dots [s] = s"
| "join_dots (s # ss) = s @ CHR ''.'' # join_dots ss"

lemma walk_path_join:
  assumes "ss \<noteq> []" and "\<forall>s \<in> set ss. CHR ''.'' \<notin> set s"
  shows "walk_path v (join_dots ss) = find_all ss v"
  using assms
proof (induction ss arbitrary: v rule: join_dots.induct)
  case (2 s)
  then show ?case by (simp add: walk_path_segment split: option.splits)
next
  case (3 s t ts)
  then show ?case by (simp add: walk_path_segment split: option.split)
qed simp

end
