(* ===== verification/Iotmp_Message.thy ===== *)
theory Iotmp_Message
  imports Json_Value
begin

text \<open>
  The IOTMP message of \<^verbatim>\<open>core/iotmp_message.hpp\<close>: a type and a map from field numbers to
  values. \<open>fields_\<close> is an \<open>std::unordered_map\<close>: the model keeps its entries in the order an
  iteration meets them, and no property depends on that order.
\<close>

section \<open>Enumerations\<close>

text \<open>
  \<open>message::type\<close>. A received number is cast to the enumeration without a check, so a message may carry
  a number that names no type.
\<close>

datatype message_type =
    RESERVED | OK | ERROR | CONNECT | DISCONNECT | KEEP_ALIVE | RUN | DESCRIBE
  | START_STREAM | STOP_STREAM | STREAM_DATA | OTHER_TYPE u32

fun type_code :: "message_type \<Rightarrow> u32" where
  "type_code RESERVED = 0"
| "type_code OK = 1"
| "type_code ERROR = 2"
| "type_code CONNECT = 3"
| "type_code DISCONNECT = 4"
| "type_code KEEP_ALIVE = 5"
| "type_code RUN = 6"
| "type_code DESCRIBE = 7"
| "type_code START_STREAM = 8"
| "type_code STOP_STREAM = 9"
| "type_code STREAM_DATA = 0xa"
| "type_code (OTHER_TYPE n) = n"

definition type_of :: "u32 \<Rightarrow> message_type" where
  "type_of n =
     (if n = 0 then RESERVED else if n = 1 then OK else if n = 2 then ERROR
      else if n = 3 then CONNECT else if n = 4 then DISCONNECT else if n = 5 then KEEP_ALIVE
      else if n = 6 then RUN else if n = 7 then DESCRIBE else if n = 8 then START_STREAM
      else if n = 9 then STOP_STREAM else if n = 0xa then STREAM_DATA else OTHER_TYPE n)"

definition type_named :: "message_type \<Rightarrow> bool" where
  "type_named t \<longleftrightarrow> type_code t \<le> 0xa"

lemma type_of_code: "(case t of OTHER_TYPE n \<Rightarrow> 0xa < n | _ \<Rightarrow> True) \<Longrightarrow> type_of (type_code t) = t"
  by (cases t) (auto simp: type_of_def)

text \<open>\<open>message::field\<close>\<close>

definition STREAM_ID :: byte where "STREAM_ID = 1"
definition PARAMETERS :: byte where "PARAMETERS = 2"
definition PAYLOAD :: byte where "PAYLOAD = 3"
definition RESOURCE :: byte where "RESOURCE = 4"

lemmas field_defs = STREAM_ID_def PARAMETERS_def PAYLOAD_def RESOURCE_def

text \<open>\<open>server::run\<close>\<close>

definition READ_DEVICE_PROPERTY :: u64 where "READ_DEVICE_PROPERTY = 1"
definition SET_DEVICE_PROPERTY :: u64 where "SET_DEVICE_PROPERTY = 2"
definition CALL_DEVICE :: u64 where "CALL_DEVICE = 3"
definition CALL_ENDPOINT :: u64 where "CALL_ENDPOINT = 4"
definition WRITE_BUCKET :: u64 where "WRITE_BUCKET = 5"
definition LOCK_SYNC :: u64 where "LOCK_SYNC = 6"
definition UNLOCK_SYNC :: u64 where "UNLOCK_SYNC = 7"
definition SUBSCRIBE_EVENT :: u64 where "SUBSCRIBE_EVENT = 8"

text \<open>\<open>message::stream::parameters\<close>\<close>

definition RESOURCE_INPUT :: u64 where "RESOURCE_INPUT = 1"
definition RESOURCE_OUTPUT :: u64 where "RESOURCE_OUTPUT = 2"

section \<open>The message\<close>

type_synonym stream_id = u16

record iotmp_message =
  msg_type :: message_type
  msg_fields :: "(byte \<times> json) list"

definition new_message :: "message_type \<Rightarrow> iotmp_message" where
  "new_message t = \<lparr>msg_type = t, msg_fields = []\<rparr>"

text \<open>\<open>set_field\<close>, and assignment through \<open>operator[]\<close>, \<open>params()\<close> and \<open>payload()\<close>.\<close>

definition set_field :: "byte \<Rightarrow> json \<Rightarrow> iotmp_message \<Rightarrow> iotmp_message" where
  "set_field f v m = m\<lparr>msg_fields := AList.update f v (msg_fields m)\<rparr>"

definition set_message_type :: "message_type \<Rightarrow> iotmp_message \<Rightarrow> iotmp_message" where
  "set_message_type t m = m\<lparr>msg_type := t\<rparr>"

definition set_stream_id :: "stream_id \<Rightarrow> iotmp_message \<Rightarrow> iotmp_message" where
  "set_stream_id i m = set_field STREAM_ID (JUInt (ucast i)) m"

text \<open>\<open>set_random_stream_id\<close>, with what \<open>rand()\<close> returned.\<close>

definition set_random_stream_id :: "u32 \<Rightarrow> iotmp_message \<Rightarrow> iotmp_message" where
  "set_random_stream_id r m = set_field STREAM_ID (JUInt (ucast (ucast r :: u16))) m"

definition new_stream_message :: "stream_id \<Rightarrow> message_type \<Rightarrow> iotmp_message" where
  "new_stream_message i t = set_stream_id i (new_message t)"

definition field_of :: "byte \<Rightarrow> iotmp_message \<Rightarrow> json option" where
  "field_of f m = map_of (msg_fields m) f"

definition has_field :: "byte \<Rightarrow> iotmp_message \<Rightarrow> bool" where
  "has_field f m \<longleftrightarrow> field_of f m \<noteq> None"

text \<open>
  Reading through the non-const \<open>operator[]\<close> inserts null where the field is missing; the const accessors
  answer with null and leave the message alone.
\<close>

definition index_field :: "byte \<Rightarrow> iotmp_message \<Rightarrow> json \<times> iotmp_message" where
  "index_field f m =
     (case field_of f m of Some v \<Rightarrow> (v, m) | None \<Rightarrow> (JNull, set_field f JNull m))"

definition const_field :: "byte \<Rightarrow> iotmp_message \<Rightarrow> json" where
  "const_field f m = (case field_of f m of Some v \<Rightarrow> v | None \<Rightarrow> JNull)"

abbreviation params :: "iotmp_message \<Rightarrow> json" where
  "params \<equiv> const_field PARAMETERS"

abbreviation payload :: "iotmp_message \<Rightarrow> json" where
  "payload \<equiv> const_field PAYLOAD"

definition has_params :: "iotmp_message \<Rightarrow> bool" where
  "has_params m = has_field PARAMETERS m"

definition has_payload :: "iotmp_message \<Rightarrow> bool" where
  "has_payload m = has_field PAYLOAD m"

definition remove_field :: "byte \<Rightarrow> iotmp_message \<Rightarrow> bool \<times> iotmp_message" where
  "remove_field f m = (has_field f m, m\<lparr>msg_fields := AList.delete f (msg_fields m)\<rparr>)"

definition get_stream_id :: "iotmp_message \<Rightarrow> stream_id" where
  "get_stream_id m =
     (case field_of STREAM_ID m of
        Some v \<Rightarrow> (if j_is_number v then ucast (j_u64 v) else 0)
      | None \<Rightarrow> 0)"

fun message_type_name :: "message_type \<Rightarrow> string" where
  "message_type_name RESERVED = ''RESERVED''"
| "message_type_name OK = ''OK''"
| "message_type_name ERROR = ''ERROR''"
| "message_type_name KEEP_ALIVE = ''KEEP_ALIVE''"
| "message_type_name RUN = ''RUN_RESOURCE''"
| "message_type_name DESCRIBE = ''DESCRIBE''"
| "message_type_name START_STREAM = ''START_STREAM''"
| "message_type_name STOP_STREAM = ''STOP_STREAM''"
| "message_type_name CONNECT = ''CONNECT''"
| "message_type_name STREAM_DATA = ''STREAM_DATA''"
| "message_type_name _ = ''UNKNOWN''"

section \<open>Laws of the fields\<close>

definition msg_ok :: "iotmp_message \<Rightarrow> bool" where
  "msg_ok m \<longleftrightarrow> distinct (map fst (msg_fields m))"

lemma new_message_ok [simp]: "msg_ok (new_message t)"
  by (simp add: msg_ok_def new_message_def)

lemma set_field_ok [simp]: "msg_ok m \<Longrightarrow> msg_ok (set_field f v m)"
  by (simp add: msg_ok_def set_field_def distinct_update)

lemma set_stream_id_ok [simp]: "msg_ok m \<Longrightarrow> msg_ok (set_stream_id i m)"
  by (simp add: set_stream_id_def)

lemma remove_field_ok [simp]: "msg_ok m \<Longrightarrow> msg_ok (snd (remove_field f m))"
  by (simp add: msg_ok_def remove_field_def distinct_delete)

lemma index_field_ok [simp]: "msg_ok m \<Longrightarrow> msg_ok (snd (index_field f m))"
  by (auto simp: index_field_def split: option.split)

lemma field_of_new [simp]: "field_of f (new_message t) = None"
  by (simp add: field_of_def new_message_def)

lemma field_of_set [simp]: "field_of f (set_field g v m) = (if f = g then Some v else field_of f m)"
  by (simp add: field_of_def set_field_def update_conv')

lemma field_of_set_stream_id [simp]:
  "field_of f (set_stream_id i m) = (if f = STREAM_ID then Some (JUInt (ucast i)) else field_of f m)"
  by (simp add: set_stream_id_def)

lemma const_field_set [simp]:
  "const_field f (set_field g v m) = (if f = g then v else const_field f m)"
  by (simp add: const_field_def)

lemma const_field_set_stream_id [simp]:
  "f \<noteq> STREAM_ID \<Longrightarrow> const_field f (set_stream_id i m) = const_field f m"
  by (simp add: const_field_def)

lemma field_of_remove [simp]:
  "field_of f (snd (remove_field g m)) = (if f = g then None else field_of f m)"
  by (simp add: field_of_def remove_field_def delete_conv')

lemma get_set_stream_id [simp]: "get_stream_id (set_stream_id i m) = i"
  by (simp add: get_stream_id_def)

lemma get_stream_id_set_field [simp]: "f \<noteq> STREAM_ID \<Longrightarrow> get_stream_id (set_field f v m) = get_stream_id m"
  by (simp add: get_stream_id_def)

lemma msg_type_simps [simp]:
  "msg_type (new_message t) = t" "msg_type (set_field f v m) = msg_type m"
  "msg_type (set_stream_id i m) = msg_type m" "msg_type (new_stream_message i t) = t"
  "msg_type (set_message_type t m) = t"
  by (simp_all add: new_message_def set_field_def set_stream_id_def new_stream_message_def
      set_message_type_def)

lemma get_stream_id_new_stream [simp]: "get_stream_id (new_stream_message i t) = i"
  by (simp add: new_stream_message_def)

end
