(* ===== verification/Pson.thy ===== *)
theory Pson
  imports Json_Value Io_Adapters
begin

text \<open>
  PSON v2, the binary encoding of values: \<^verbatim>\<open>core/pson_types.hpp\<close>, \<^verbatim>\<open>core/pson_encoder.hpp\<close>
  and \<^verbatim>\<open>core/pson_decoder.hpp\<close>. The encoder takes the \<open>write\<close> operation of its \<open>Writer\<close> as an
  argument and threads the writer; each operation returns the success flag and the
  writer. The decoder threads the reader; \<open>decode\<close> also returns what the referenced value
  holds when it stops, since a failing decode leaves it partly filled.
\<close>

section \<open>Wire types\<close>

datatype pson_wire_type =
    unsigned_t | signed_t | floating_t | discrete_t | string_t | bytes_t | map_t | array_t

fun wire_code :: "pson_wire_type \<Rightarrow> byte" where
  "wire_code unsigned_t = 0"
| "wire_code signed_t = 1"
| "wire_code floating_t = 2"
| "wire_code discrete_t = 3"
| "wire_code string_t = 4"
| "wire_code bytes_t = 5"
| "wire_code map_t = 6"
| "wire_code array_t = 7"

definition wire_of :: "byte \<Rightarrow> pson_wire_type" where
  "wire_of b =
     (if b = 0 then unsigned_t else if b = 1 then signed_t else if b = 2 then floating_t
      else if b = 3 then discrete_t else if b = 4 then string_t else if b = 5 then bytes_t
      else if b = 6 then map_t else array_t)"

section \<open>Octets of numbers\<close>

text \<open>The memory of a multi-octet number on a little-endian host, and back.\<close>

fun le_bytes :: "nat \<Rightarrow> 'a::len word \<Rightarrow> byte list" where
  "le_bytes 0 w = []"
| "le_bytes (Suc n) w = ucast w # le_bytes n (drop_bit 8 w)"

fun from_le :: "byte list \<Rightarrow> 'a::len word" where
  "from_le [] = 0"
| "from_le (b # bs) = ucast b OR push_bit 8 (from_le bs)"

lemma length_le_bytes [simp]: "length (le_bytes n w) = n"
  by (induction n w rule: le_bytes.induct) auto

lemma from_le_bytes: "from_le (le_bytes n w) = take_bit (8 * n) w"
proof (induction n w rule: le_bytes.induct)
  case (1 w)
  then show ?case by simp
next
  case (2 n w)
  have "(ucast (ucast w :: byte) :: 'a word) = take_bit 8 w"
    by (rule bit_word_eqI) (auto simp: bit_simps)
  moreover have "take_bit 8 w OR push_bit 8 (take_bit (8 * n) (drop_bit 8 w)) = take_bit (8 * Suc n) w"
    by (rule bit_word_eqI) (auto simp: bit_simps)
  ultimately show ?case using 2 by simp
qed

lemma from_le_bytes_4 [simp]: "from_le (le_bytes 4 (w :: u32)) = w"
  by (simp add: from_le_bytes take_bit_word_eq_self)

lemma from_le_bytes_8 [simp]: "from_le (le_bytes 8 (w :: u64)) = w"
  by (simp add: from_le_bytes take_bit_word_eq_self)

section \<open>The encoder\<close>

text \<open>Short-circuit conjunction of two writes.\<close>

definition wr_and :: "bool \<times> 'w \<Rightarrow> ('w \<Rightarrow> bool \<times> 'w) \<Rightarrow> bool \<times> 'w" where
  "wr_and p k = (case p of (ok, w) \<Rightarrow> if ok then k w else (False, w))"

lemma wr_and_True [simp]: "wr_and (True, w) k = k w"
  and wr_and_False [simp]: "wr_and (False, w) k = (False, w)"
  by (simp_all add: wr_and_def)

definition pb_encode_tag_fixed ::
    "('w \<Rightarrow> byte list \<Rightarrow> bool \<times> 'w) \<Rightarrow> 'w \<Rightarrow> pson_wire_type \<Rightarrow> byte \<Rightarrow> bool \<times> 'w" where
  "pb_encode_tag_fixed wr w ty v = wr w [push_bit 5 (wire_code ty) OR v]"

function pb_write_varint :: "('w \<Rightarrow> byte list \<Rightarrow> bool \<times> 'w) \<Rightarrow> 'w \<Rightarrow> u64 \<Rightarrow> bool \<times> 'w" where
  "pb_write_varint wr w v =
     (let b = ucast (v AND 0x7F) :: byte;
          v' = drop_bit 7 v;
          b' = (if v' > 0 then b OR 0x80 else b)
      in case wr w [b'] of
           (False, w') \<Rightarrow> (False, w')
         | (True, w') \<Rightarrow> if v' > 0 then pb_write_varint wr w' v' else (True, w'))"
  by pat_completeness auto

lemma drop_bit_7_less: "0 < drop_bit 7 v \<Longrightarrow> unat (drop_bit 7 v) < unat (v :: u64)"
proof -
  assume pos: "0 < drop_bit 7 v"
  have u: "unat (drop_bit 7 v) = unat v div 128"
    by (subst unat_drop_bit_eq) (simp add: drop_bit_eq_div)
  from pos have "0 < unat (drop_bit 7 v)" by (simp add: word_less_nat_alt)
  with u show ?thesis by simp
qed

termination pb_write_varint
  by (relation "measure (\<lambda>(_, _, v). unat v)") (auto dest: drop_bit_7_less)

declare pb_write_varint.simps [simp del]

definition pb_encode_tag ::
    "('w \<Rightarrow> byte list \<Rightarrow> bool \<times> 'w) \<Rightarrow> 'w \<Rightarrow> pson_wire_type \<Rightarrow> u64 \<Rightarrow> bool \<times> 'w" where
  "pb_encode_tag wr w ty v =
     (if v < 0x1f then pb_encode_tag_fixed wr w ty (ucast v)
      else wr_and (pb_encode_tag_fixed wr w ty 0x1f) (\<lambda>w'. pb_write_varint wr w' v))"

text \<open>\<open>pb_encode_string\<close> receives a C string, so \<open>strlen\<close> decides how much of it is sent.\<close>

definition pb_encode_string ::
    "('w \<Rightarrow> byte list \<Rightarrow> bool \<times> 'w) \<Rightarrow> 'w \<Rightarrow> string \<Rightarrow> bool \<times> 'w" where
  "pb_encode_string wr w s =
     (let str = c_str s in
      wr_and (pb_encode_tag wr w string_t (word_of_nat (length str)))
        (\<lambda>w'. wr w' (map byte_of str)))"

definition pb_encode_bytes ::
    "('w \<Rightarrow> byte list \<Rightarrow> bool \<times> 'w) \<Rightarrow> 'w \<Rightarrow> byte list \<Rightarrow> bool \<times> 'w" where
  "pb_encode_bytes wr w bs =
     wr_and (pb_encode_tag wr w bytes_t (word_of_nat (length bs))) (\<lambda>w'. wr w' bs)"

definition pb_encode_float ::
    "('w \<Rightarrow> byte list \<Rightarrow> bool \<times> 'w) \<Rightarrow> 'w \<Rightarrow> u32 \<Rightarrow> bool \<times> 'w" where
  "pb_encode_float wr w x = wr_and (pb_encode_tag_fixed wr w floating_t 0) (\<lambda>w'. wr w' (le_bytes 4 x))"

definition pb_encode_double ::
    "('w \<Rightarrow> byte list \<Rightarrow> bool \<times> 'w) \<Rightarrow> 'w \<Rightarrow> u64 \<Rightarrow> bool \<times> 'w" where
  "pb_encode_double wr w x = wr_and (pb_encode_tag_fixed wr w floating_t 1) (\<lambda>w'. wr w' (le_bytes 8 x))"

text \<open>A signed value: its magnitude under \<open>signed_t\<close> when negative, else under \<open>unsigned_t\<close>.\<close>

definition encode_i64 ::
    "('w \<Rightarrow> byte list \<Rightarrow> bool \<times> 'w) \<Rightarrow> 'w \<Rightarrow> i64 \<Rightarrow> bool \<times> 'w" where
  "encode_i64 wr w i =
     (if sint i < 0 then pb_encode_tag wr w signed_t (- i) else pb_encode_tag wr w unsigned_t i)"

fun encode :: "('w \<Rightarrow> byte list \<Rightarrow> bool \<times> 'w) \<Rightarrow> 'w \<Rightarrow> json \<Rightarrow> bool \<times> 'w"
  and encode_array :: "('w \<Rightarrow> byte list \<Rightarrow> bool \<times> 'w) \<Rightarrow> 'w \<Rightarrow> json list \<Rightarrow> bool \<times> 'w"
  and encode_object :: "('w \<Rightarrow> byte list \<Rightarrow> bool \<times> 'w) \<Rightarrow> 'w \<Rightarrow> (string \<times> json) list \<Rightarrow> bool \<times> 'w"
where
  "encode wr w (JBool b) = pb_encode_tag_fixed wr w discrete_t (if b then 1 else 0)"
| "encode wr w JNull = pb_encode_tag_fixed wr w discrete_t 2"
| "encode wr w (JInt i) = encode_i64 wr w i"
| "encode wr w (JUInt u) = pb_encode_tag wr w unsigned_t u"
| "encode wr w (JFloat d) =
     (if i64_eq_dbl (dbl_to_i64 d) d then encode_i64 wr w (dbl_to_i64 d)
      else case exact_float d of
             Some x \<Rightarrow> pb_encode_float wr w x
           | None \<Rightarrow> pb_encode_double wr w d)"
| "encode wr w (JStr s) = pb_encode_string wr w s"
| "encode wr w (JArr xs) =
     wr_and (pb_encode_tag wr w array_t (word_of_nat (length xs))) (\<lambda>w'. encode_array wr w' xs)"
| "encode wr w (JObj kvs) =
     wr_and (pb_encode_tag wr w map_t (word_of_nat (length kvs))) (\<lambda>w'. encode_object wr w' kvs)"
| "encode wr w (JBin bs) = pb_encode_bytes wr w bs"
| "encode wr w JDiscarded = (False, w)"
| "encode_array wr w [] = (True, w)"
| "encode_array wr w (x # xs) = wr_and (encode wr w x) (\<lambda>w'. encode_array wr w' xs)"
| "encode_object wr w [] = (True, w)"
| "encode_object wr w ((k, v) # kvs) =
     wr_and (pb_encode_string wr w k)
       (\<lambda>w'. wr_and (encode wr w' v) (\<lambda>w''. encode_object wr w'' kvs))"

section \<open>The decoder\<close>

text \<open>
  The loop of \<open>pb_decode_varint32\<close> and \<open>pb_decode_varint64\<close>, over words of either width: an octet is
  read first, then the position is checked, and bits shifted beyond the width are lost.
\<close>

function varint_loop :: "('r \<Rightarrow> nat \<Rightarrow> (byte list \<times> 'r) option) \<Rightarrow> 'r \<Rightarrow> 'a::len word \<Rightarrow> nat
    \<Rightarrow> 'a word option \<times> 'r" where
  "varint_loop rd r acc pos =
     (case rd r 1 of
        None \<Rightarrow> (None, r)
      | Some (bs, r') \<Rightarrow>
          (if LENGTH('a) \<le> pos then (None, r')
           else let b = hd bs; acc' = acc OR push_bit pos (ucast (b AND 0x7F)) in
                if 0x80 \<le> b then varint_loop rd r' acc' (pos + 7) else (Some acc', r')))"
  by pat_completeness auto
termination
  by (relation "measure (\<lambda>(_, _, acc, pos). size acc + 7 - pos)") (auto simp: word_size)

declare varint_loop.simps [simp del]

definition pb_decode_varint32 ::
    "('r \<Rightarrow> nat \<Rightarrow> (byte list \<times> 'r) option) \<Rightarrow> 'r \<Rightarrow> u32 option \<times> 'r" where
  "pb_decode_varint32 rd r = varint_loop rd r 0 0"

definition pb_decode_varint64 ::
    "('r \<Rightarrow> nat \<Rightarrow> (byte list \<times> 'r) option) \<Rightarrow> 'r \<Rightarrow> u64 option \<times> 'r" where
  "pb_decode_varint64 rd r = varint_loop rd r 0 0"

definition pb_decode_tag ::
    "('r \<Rightarrow> nat \<Rightarrow> (byte list \<times> 'r) option) \<Rightarrow> 'r \<Rightarrow> (pson_wire_type \<times> u64) option \<times> 'r" where
  "pb_decode_tag rd r =
     (case rd r 1 of
        None \<Rightarrow> (None, r)
      | Some (bs, r') \<Rightarrow>
          let b = hd bs; ty = wire_of (drop_bit 5 b); v = ucast (b AND 0x1f) :: u64 in
          if v = 0x1f
          then (case pb_decode_varint64 rd r' of (v', r'') \<Rightarrow> (map_option (Pair ty) v', r''))
          else (Some (ty, v), r'))"

definition UINT32_MAX :: u64 where
  "UINT32_MAX = 0xFFFFFFFF"

text \<open>
  \<open>decode\<close> and its helpers on the memory reader. Each returns the success flag, the value under
  construction and the reader. A failing \<open>decode\<close> leaves the value as it was, or the container it was filling;
  \<open>decode_pair\<close> creates the key (with null) before it decodes into it.
\<close>

function (sequential) decode :: "memory_reader \<Rightarrow> json \<Rightarrow> bool \<times> json \<times> memory_reader"
  and decode_array :: "memory_reader \<Rightarrow> json list \<Rightarrow> nat \<Rightarrow> bool \<times> json list \<times> memory_reader"
  and decode_object :: "memory_reader \<Rightarrow> (string \<times> json) list \<Rightarrow> nat
    \<Rightarrow> bool \<times> (string \<times> json) list \<times> memory_reader"
  and decode_pair :: "memory_reader \<Rightarrow> (string \<times> json) list
    \<Rightarrow> bool \<times> (string \<times> json) list \<times> memory_reader"
where
  "decode r v =
     (case pb_decode_tag mr_read r of
        (None, r1) \<Rightarrow> (False, v, r1)
      | (Some (ty, p), r1) \<Rightarrow>
          (case ty of
             unsigned_t \<Rightarrow> (True, JUInt p, r1)
           | signed_t \<Rightarrow> (True, JInt (- p), r1)
           | floating_t \<Rightarrow>
               (if p = 0 then
                  (case mr_read r1 4 of
                     None \<Rightarrow> (False, v, r1)
                   | Some (bs, r2) \<Rightarrow> (True, JFloat (flt_to_dbl (from_le bs)), r2))
                else if p = 1 then
                  (case mr_read r1 8 of
                     None \<Rightarrow> (False, v, r1)
                   | Some (bs, r2) \<Rightarrow> (True, JFloat (from_le bs), r2))
                else (False, v, r1))
           | discrete_t \<Rightarrow>
               (if p = 0 then (True, JBool False, r1)
                else if p = 1 then (True, JBool True, r1)
                else if p = 2 then (True, JNull, r1)
                else (False, v, r1))
           | string_t \<Rightarrow>
               (if UINT32_MAX < p then (False, v, r1)
                else case mr_read r1 (unat p) of
                       None \<Rightarrow> (False, v, r1)
                     | Some (bs, r2) \<Rightarrow> (True, JStr (map char_from bs), r2))
           | bytes_t \<Rightarrow>
               (if UINT32_MAX < p then (False, v, r1)
                else case mr_read r1 (unat p) of
                       None \<Rightarrow> (False, v, r1)
                     | Some (bs, r2) \<Rightarrow> (True, JBin bs, r2))
           | map_t \<Rightarrow>
               (case decode_object r1 [] (unat p) of (ok, kvs, r2) \<Rightarrow> (ok, JObj kvs, r2))
           | array_t \<Rightarrow>
               (case decode_array r1 [] (unat p) of (ok, xs, r2) \<Rightarrow> (ok, JArr xs, r2))))"
| "decode_array r xs n =
     (if n = 0 then (True, xs, r)
      else case decode r JNull of
             (False, v, r1) \<Rightarrow> (False, xs, r1)
           | (True, v, r1) \<Rightarrow> decode_array r1 (xs @ [v]) (n - 1))"
| "decode_object r kvs n =
     (if n = 0 then (True, kvs, r)
      else case decode_pair r kvs of
             (False, kvs1, r1) \<Rightarrow> (False, kvs1, r1)
           | (True, kvs1, r1) \<Rightarrow> decode_object r1 kvs1 (n - 1))"
| "decode_pair r kvs =
     (case pb_decode_tag mr_read r of
        (None, r1) \<Rightarrow> (False, kvs, r1)
      | (Some (ty, key_size), r1) \<Rightarrow>
          (if ty \<noteq> string_t then (False, kvs, r1)
           else if UINT32_MAX < key_size then (False, kvs, r1)
           else case mr_read r1 (unat key_size) of
                  None \<Rightarrow> (False, kvs, r1)
                | Some (bs, r2) \<Rightarrow>
                    (let key = map char_from bs;
                         v0 = (case map_of kvs key of None \<Rightarrow> JNull | Some v \<Rightarrow> v)
                     in case decode r2 v0 of
                          (ok, v, r3) \<Rightarrow> (ok, sm_put key v kvs, r3))))"
  by pat_completeness auto

lemma varint_loop_le:
  fixes f :: "'r \<Rightarrow> nat" and acc :: "'b::len word"
  assumes "\<And>r n bs r'. rd r n = Some (bs, r') \<Longrightarrow> f r' \<le> f r"
    and "varint_loop rd r acc pos = (res, r')"
  shows "f r' \<le> f r"
  using assms
proof (induction rd r acc pos arbitrary: res r' rule: varint_loop.induct)
  case (1 rd r acc pos)
  show ?case
  proof (cases "rd r 1")
    case None
    with "1.prems"(2) show ?thesis by (subst (asm) varint_loop.simps) simp
  next
    case (Some p)
    then obtain bs r1 where r1: "rd r 1 = Some (bs, r1)" by (cases p) auto
    then have le: "f r1 \<le> f r" by (rule "1.prems"(1))
    show ?thesis
    proof (cases "\<not> LENGTH('b) \<le> pos \<and> 0x80 \<le> hd bs")
      case True
      with r1 "1.prems"(2)
      have "varint_loop rd r1 (acc OR push_bit pos (ucast (hd bs AND 0x7F))) (pos + 7) = (res, r')"
        by (subst (asm) varint_loop.simps) (simp add: Let_def)
      with True r1 "1.IH" "1.prems"(1) have "f r' \<le> f r1" by simp
      with le show ?thesis by simp
    next
      case False
      with r1 "1.prems"(2) le show ?thesis
        by (subst (asm) varint_loop.simps) (auto simp: Let_def split: if_splits)
    qed
  qed
qed

lemma mr_varint_left:
  "varint_loop mr_read r acc pos = (res, r') \<Longrightarrow> mr_left r' \<le> mr_left r"
  by (rule varint_loop_le [where f = mr_left]) (auto dest: mr_read_left)

lemma pb_decode_tag_left:
  assumes "pb_decode_tag mr_read r = (res, r')"
  shows "mr_left r' \<le> mr_left r" and "res \<noteq> None \<Longrightarrow> mr_left r' < mr_left r"
proof -
  have "mr_left r' \<le> mr_left r \<and> (res \<noteq> None \<longrightarrow> mr_left r' < mr_left r)"
  proof (cases "mr_read r 1")
    case None
    with assms show ?thesis by (simp add: pb_decode_tag_def)
  next
    case (Some p)
    then obtain bs r1 where r1: "mr_read r 1 = Some (bs, r1)" by (cases p) auto
    from mr_read_left [OF r1] have "mr_left r1 < mr_left r" by simp
    with assms r1 show ?thesis
      by (auto simp: pb_decode_tag_def pb_decode_varint64_def Let_def
          split: if_splits prod.splits dest!: mr_varint_left)
  qed
  then show "mr_left r' \<le> mr_left r" and "res \<noteq> None \<Longrightarrow> mr_left r' < mr_left r" by auto
qed

lemma decode_left:
  "decode_decode_array_decode_object_decode_pair_dom (Inl (Inl (r, v))) \<Longrightarrow>
     mr_left (snd (snd (decode r v))) \<le> mr_left r"
  "decode_decode_array_decode_object_decode_pair_dom (Inl (Inr (r, xs, n))) \<Longrightarrow>
     mr_left (snd (snd (decode_array r xs n))) \<le> mr_left r"
  "decode_decode_array_decode_object_decode_pair_dom (Inr (Inl (r, kvs, n))) \<Longrightarrow>
     mr_left (snd (snd (decode_object r kvs n))) \<le> mr_left r"
  "decode_decode_array_decode_object_decode_pair_dom (Inr (Inr (r, kvs))) \<Longrightarrow>
     mr_left (snd (snd (decode_pair r kvs))) \<le> mr_left r"
proof (induction r v and r xs n and r kvs n and r kvs
    rule: decode_decode_array_decode_object_decode_pair.pinduct)
  case (1 r v)
  obtain t r1 where t: "pb_decode_tag mr_read r = (t, r1)" by fastforce
  note le1 = pb_decode_tag_left(1) [OF t]
  show ?case
  proof (cases t)
    case None
    with 1 t le1 show ?thesis by (simp add: decode.psimps)
  next
    case (Some p)
    then obtain ty n where p: "t = Some (ty, n)" by (cases p) auto
    have reads: "mr_left r2 \<le> mr_left r" if "mr_read r1 k = Some (bs, r2)" for k bs r2
      using mr_read_left [OF that] le1 by simp
    note psimp = decode.psimps [OF "1.hyps"(1)] t p
    show ?thesis
    proof (cases ty)
      case map_t
      with "1.IH"(1) [OF t [symmetric] p _ map_t] le1 show ?thesis
        by (auto simp: psimp split: prod.split)
    next
      case array_t
      with "1.IH"(2) [OF t [symmetric] p _ array_t] le1 show ?thesis
        by (auto simp: psimp split: prod.split)
    qed (use le1 reads in \<open>auto simp: psimp split: option.split\<close>)
  qed
next
  case (2 r xs n)
  obtain b v r1 where d: "decode r JNull = (b, v, r1)" by (metis prod_cases3)
  show ?case
  proof (cases "n \<noteq> 0 \<and> b")
    case True
    with "2.IH"(1) d have "mr_left r1 \<le> mr_left r" by simp
    moreover from True "2.IH"(2) [OF _ d [symmetric]]
    have "mr_left (snd (snd (decode_array r1 (xs @ [v]) (n - 1)))) \<le> mr_left r1" by simp
    ultimately show ?thesis using True d 2 by (simp add: decode_array.psimps)
  next
    case False
    with 2 d show ?thesis by (auto simp: decode_array.psimps)
  qed
next
  case (3 r kvs n)
  obtain b kvs1 r1 where d: "decode_pair r kvs = (b, kvs1, r1)" by (metis prod_cases3)
  show ?case
  proof (cases "n \<noteq> 0 \<and> b")
    case True
    with "3.IH"(1) d have "mr_left r1 \<le> mr_left r" by simp
    moreover from True "3.IH"(2) [OF _ d [symmetric]]
    have "mr_left (snd (snd (decode_object r1 kvs1 (n - 1)))) \<le> mr_left r1" by simp
    ultimately show ?thesis using True d 3 by (simp add: decode_object.psimps)
  next
    case False
    with 3 d show ?thesis by (auto simp: decode_object.psimps)
  qed
next
  case (4 r kvs)
  obtain t r1 where t: "pb_decode_tag mr_read r = (t, r1)" by fastforce
  note le1 = pb_decode_tag_left(1) [OF t]
  show ?case
  proof (cases "\<exists>n bs r2. t = Some (string_t, n) \<and> \<not> UINT32_MAX < n \<and> mr_read r1 (unat n) = Some (bs, r2)")
    case True
    then obtain n bs r2 where p: "t = Some (string_t, n)" and n: "\<not> UINT32_MAX < n"
      and r2: "mr_read r1 (unat n) = Some (bs, r2)" by blast
    from mr_read_left [OF r2] le1 have le2: "mr_left r2 \<le> mr_left r" by simp
    have "\<not> string_t \<noteq> string_t" by simp
    note "4.IH" [OF t [symmetric] p refl this n r2 refl refl refl]
    with le2 t p n r2 show ?thesis
      by (simp add: decode_pair.psimps [OF "4.hyps"(1)] Let_def case_prod_beta)
  next
    case False
    with t le1 show ?thesis
      by (auto simp: decode_pair.psimps [OF "4.hyps"(1)] Let_def split: prod.split option.split)
  qed
qed

text \<open>
  The decoder terminates on every input: what is left to read decreases before each nested value, and
  between two elements of a container it does not grow while the count goes down.
\<close>

termination decode
proof (relation "measures [
    (\<lambda>x. case x of Inl (Inl (r, _)) \<Rightarrow> mr_left r | Inl (Inr (r, _, _)) \<Rightarrow> mr_left r
       | Inr (Inl (r, _, _)) \<Rightarrow> mr_left r | Inr (Inr (r, _)) \<Rightarrow> mr_left r),
    (\<lambda>x. case x of Inl (Inl _) \<Rightarrow> 0 | Inl (Inr (_, _, n)) \<Rightarrow> Suc n
       | Inr (Inl (_, _, n)) \<Rightarrow> Suc n | Inr (Inr _) \<Rightarrow> 0)]", goal_cases)
  case 1
  show ?case by simp
next
  case (2 r v x y x2 xa ya)
  then show ?case using pb_decode_tag_left(2) [of r x y] by auto
next
  case (3 r v x y x2 xa ya)
  then show ?case using pb_decode_tag_left(2) [of r x y] by auto
next
  case (4 r xs n)
  then show ?case by simp
next
  case (5 r xs n x y xa ya)
  from decode_left(1) [OF 5(5)] 5(2,4) have "mr_left ya \<le> mr_left r" by (metis snd_conv)
  with 5(1) show ?case by auto
next
  case (6 r kvs n)
  then show ?case by simp
next
  case (7 r kvs n x y xa ya)
  from decode_left(4) [OF 7(5)] 7(2,4) have "mr_left ya \<le> mr_left r" by (metis snd_conv)
  with 7(1) show ?case by auto
next
  case (8 r kvs x y x2 xa ya x2a xb yb xc xd)
  from 8 have "mr_left y < mr_left r" using pb_decode_tag_left(2) [of r x y] by auto
  moreover from 8 have "mr_left yb \<le> mr_left y" using mr_read_left [of y "unat ya" xb yb] by auto
  ultimately show ?case by simp
qed

declare decode.simps [simp del] decode_array.simps [simp del] decode_object.simps [simp del]
  decode_pair.simps [simp del]

end
