(* ===== verification/Pson_Roundtrip.thy ===== *)
theory Pson_Roundtrip
  imports Pson
begin

text \<open>
  What the PSON encoder writes and what the decoder makes of it. \<open>pson_out\<close> is the wire
  format as a function of the value alone; every writer that does not fail receives exactly
  those octets (locale \<open>writes\<close>, interpreted on the string, vector and null writers), and the
  decoder turns them into \<open>pson_norm\<close> of the value: integers take their canonical kind, an
  integral \<open>double\<close> becomes an integer, and strings end at their first NUL.
\<close>

section \<open>The wire format\<close>

text \<open>A result is the success flag and the octets written before the encoder stopped.\<close>

definition seq_out :: "bool \<times> byte list \<Rightarrow> bool \<times> byte list \<Rightarrow> bool \<times> byte list" where
  "seq_out a b = (if fst a then (fst b, snd a @ snd b) else a)"

function varint_bytes :: "u64 \<Rightarrow> byte list" where
  "varint_bytes v =
     (if drop_bit 7 v = 0 then [ucast (v AND 0x7F)]
      else (ucast (v AND 0x7F) OR 0x80) # varint_bytes (drop_bit 7 v))"
  by pat_completeness auto
termination
  by (relation "measure unat") (auto intro!: drop_bit_7_less simp: word_gt_0)

declare varint_bytes.simps [simp del]

definition tag_bytes :: "pson_wire_type \<Rightarrow> u64 \<Rightarrow> byte list" where
  "tag_bytes ty v =
     (if v < 0x1f then [push_bit 5 (wire_code ty) OR ucast v]
      else (push_bit 5 (wire_code ty) OR 0x1f) # varint_bytes v)"

definition int_bytes :: "i64 \<Rightarrow> byte list" where
  "int_bytes i = (if sint i < 0 then tag_bytes signed_t (- i) else tag_bytes unsigned_t i)"

definition float_bytes :: "u64 \<Rightarrow> byte list" where
  "float_bytes d =
     (if i64_eq_dbl (dbl_to_i64 d) d then int_bytes (dbl_to_i64 d)
      else case exact_float d of
             Some x \<Rightarrow> (push_bit 5 (wire_code floating_t) OR 0) # le_bytes 4 x
           | None \<Rightarrow> (push_bit 5 (wire_code floating_t) OR 1) # le_bytes 8 d)"

definition string_bytes :: "string \<Rightarrow> byte list" where
  "string_bytes s = tag_bytes string_t (word_of_nat (length (c_str s))) @ map byte_of (c_str s)"

fun pson_out :: "json \<Rightarrow> bool \<times> byte list"
  and pson_outs :: "json list \<Rightarrow> bool \<times> byte list"
  and pson_out_pairs :: "(string \<times> json) list \<Rightarrow> bool \<times> byte list"
where
  "pson_out JNull = (True, [push_bit 5 (wire_code discrete_t) OR 2])"
| "pson_out (JBool b) = (True, [push_bit 5 (wire_code discrete_t) OR (if b then 1 else 0)])"
| "pson_out (JInt i) = (True, int_bytes i)"
| "pson_out (JUInt u) = (True, tag_bytes unsigned_t u)"
| "pson_out (JFloat d) = (True, float_bytes d)"
| "pson_out (JStr s) = (True, string_bytes s)"
| "pson_out (JBin bs) = (True, tag_bytes bytes_t (word_of_nat (length bs)) @ bs)"
| "pson_out (JArr xs) = seq_out (True, tag_bytes array_t (word_of_nat (length xs))) (pson_outs xs)"
| "pson_out (JObj kvs) =
     seq_out (True, tag_bytes map_t (word_of_nat (length kvs))) (pson_out_pairs kvs)"
| "pson_out JDiscarded = (False, [])"
| "pson_outs [] = (True, [])"
| "pson_outs (x # xs) = seq_out (pson_out x) (pson_outs xs)"
| "pson_out_pairs [] = (True, [])"
| "pson_out_pairs ((k, v) # kvs) =
     seq_out (True, string_bytes k) (seq_out (pson_out v) (pson_out_pairs kvs))"

section \<open>Writers that do not fail\<close>

locale writes =
  fixes wr :: "'w \<Rightarrow> byte list \<Rightarrow> bool \<times> 'w"
    and wrote :: "'w \<Rightarrow> byte list \<Rightarrow> 'w \<Rightarrow> bool"
  assumes wrote_nil: "wrote w [] w"
    and wrote_append: "wrote w as w' \<Longrightarrow> wrote w' bs w'' \<Longrightarrow> wrote w (as @ bs) w''"
    and wr_wrote: "fst (wr w bs) \<and> wrote w bs (snd (wr w bs))"
begin

definition emits :: "bool \<times> 'w \<Rightarrow> 'w \<Rightarrow> bool \<times> byte list \<Rightarrow> bool" where
  "emits p w out \<longleftrightarrow> fst p = fst out \<and> wrote w (snd out) (snd p)"

lemma emits_wr: "emits (wr w bs) w (True, bs)"
  using wr_wrote by (simp add: emits_def)

lemma emits_nil: "emits (b, w) w (b, [])"
  by (simp add: emits_def wrote_nil)

lemma emits_and:
  assumes "emits p w a" and "\<And>w'. emits (k w') w' b"
  shows "emits (wr_and p k) w (seq_out a b)"
proof -
  obtain ok w' where p: "p = (ok, w')" by fastforce
  show ?thesis
  proof (cases ok)
    case True
    with assms(1) p have "fst a" and "wrote w (snd a) w'" by (auto simp: emits_def)
    moreover have "fst (k w') = fst b" and "wrote w' (snd b) (snd (k w'))"
      using assms(2) [of w'] by (auto simp: emits_def)
    ultimately show ?thesis
      using True p by (auto simp: emits_def seq_out_def intro: wrote_append)
  next
    case False
    with assms(1) p show ?thesis by (auto simp: emits_def seq_out_def)
  qed
qed

lemma emits_and_bytes:
  assumes "emits p w (True, as)" and "\<And>w'. emits (k w') w' (True, bs)"
  shows "emits (wr_and p k) w (True, as @ bs)"
  using emits_and [OF assms] by (simp add: seq_out_def)

lemma emits_varint: "emits (pb_write_varint wr w v) w (True, varint_bytes v)"
proof (induction v arbitrary: w rule: varint_bytes.induct)
  case (1 v)
  define b where "b = (ucast (v AND 0x7F) :: byte)"
  define v' where "v' = drop_bit 7 v"
  define b' where "b' = (if v' > 0 then b OR 0x80 else b)"
  obtain w' where w': "wr w [b'] = (True, w')" and wrote: "wrote w [b'] w'"
    using wr_wrote [of w "[b']"] by (metis prod.collapse)
  have unfold: "pb_write_varint wr w v = (if v' > 0 then pb_write_varint wr w' v' else (True, w'))"
    using w' by (subst pb_write_varint.simps)
      (simp only: Let_def b_def [symmetric] v'_def [symmetric] b'_def [symmetric] prod.case bool.case)
  show ?case
  proof (cases "v' = 0")
    case True
    then have "varint_bytes v = [b']"
      by (subst varint_bytes.simps) (simp add: b_def b'_def v'_def)
    with True unfold wrote show ?thesis by (simp add: emits_def)
  next
    case False
    then have "varint_bytes v = [b'] @ varint_bytes v'"
      by (subst varint_bytes.simps) (simp add: b_def b'_def v'_def word_gt_0)
    moreover have "emits (pb_write_varint wr w' v') w' (True, varint_bytes v')"
      using "1.IH" False by (simp add: v'_def)
    ultimately show ?thesis
      using False unfold wrote_append [OF wrote, of "varint_bytes v'"]
      by (simp add: emits_def word_gt_0)
  qed
qed

lemma emits_tag: "emits (pb_encode_tag wr w ty v) w (True, tag_bytes ty v)"
proof (cases "v < 0x1f")
  case True
  then show ?thesis
    by (simp add: pb_encode_tag_def pb_encode_tag_fixed_def tag_bytes_def emits_wr)
next
  case False
  have "emits (wr_and (wr w [push_bit 5 (wire_code ty) OR 0x1f]) (\<lambda>w'. pb_write_varint wr w' v))
      w (True, [push_bit 5 (wire_code ty) OR 0x1f] @ varint_bytes v)"
    by (intro emits_and_bytes emits_wr emits_varint)
  with False show ?thesis
    by (simp add: pb_encode_tag_def pb_encode_tag_fixed_def tag_bytes_def)
qed

lemma emits_string: "emits (pb_encode_string wr w s) w (True, string_bytes s)"
  unfolding pb_encode_string_def string_bytes_def Let_def
  by (intro emits_and_bytes emits_tag emits_wr)

lemma emits_i64: "emits (encode_i64 wr w i) w (True, int_bytes i)"
  by (simp add: encode_i64_def int_bytes_def emits_tag)

lemma emits_Cons: "emits (wr_and (wr w [b]) (\<lambda>w'. wr w' bs)) w (True, b # bs)"
  using emits_and_bytes [OF emits_wr emits_wr, of w "[b]" bs] by simp

lemma emits_float: "emits (encode wr w (JFloat d)) w (True, float_bytes d)"
  by (auto simp: emits_Cons float_bytes_def emits_i64 pb_encode_float_def pb_encode_double_def
      pb_encode_tag_fixed_def split: option.split)

text \<open>The encoder writes the wire format, and reports failure where the format has none.\<close>

theorem emits_encode:
  "emits (encode wr w v) w (pson_out v)"
  "emits (encode_array wr w xs) w (pson_outs xs)"
  "emits (encode_object wr w kvs) w (pson_out_pairs kvs)"
proof (induction v and xs and kvs arbitrary: w and w and w
    rule: pson_out_pson_outs_pson_out_pairs.induct)
  case (5 d)
  show ?case using emits_float by simp
next
  case (7 bs)
  show ?case
    by (simp add: pb_encode_bytes_def) (intro emits_and_bytes emits_tag emits_wr)
next
  case (8 xs)
  then show ?case by (simp, intro emits_and emits_tag)
next
  case (9 kvs)
  then show ?case by (simp, intro emits_and emits_tag)
next
  case (12 x xs)
  then show ?case by (simp, intro emits_and)
next
  case (14 k v kvs)
  then show ?case by (simp, intro emits_and emits_string)
qed (simp_all add: pb_encode_tag_fixed_def emits_wr emits_tag emits_i64 emits_string emits_nil)

end

text \<open>Counting writers and recording writers are such writers.\<close>

sublocale total_writer \<subseteq> count: writes wr "\<lambda>w bs w'. written w' = written w + length bs"
proof unfold_locales
  fix w bs
  obtain w' where "wr w bs = (True, w')" and "written w' = written w + length bs"
    by (rule wr_total)
  then show "fst (wr w bs) \<and> written (snd (wr w bs)) = written w + length bs" by simp
qed simp_all

sublocale recording_writer \<subseteq> recd: writes wr "\<lambda>w bs w'. content w' = content w @ bs"
proof unfold_locales
  fix w bs
  obtain w' where "wr w bs = (True, w')" and "content w' = content w @ bs"
    by (rule wr_content)
  then show "fst (wr w bs) \<and> content (snd (wr w bs)) = content w @ bs" by simp
qed simp_all

section \<open>Reading the octets back\<close>

lemma byte_high_bit: "0x80 \<le> (b :: byte) \<longleftrightarrow> bit b 7"
proof -
  have "unat b < 2 ^ LENGTH(8)" by (rule unsigned_less)
  then have "unat b div 128 = (if 128 \<le> unat b then 1 else 0)"
    by (auto intro: div_nat_eqI)
  then have "odd (unat b div 2 ^ 7) \<longleftrightarrow> 128 \<le> unat b" by simp
  moreover have "bit b 7 \<longleftrightarrow> bit (unat b) 7" by (simp add: bit_unsigned_iff)
  ultimately have "bit b 7 \<longleftrightarrow> 128 \<le> unat b" by (simp only: bit_iff_odd)
  then show ?thesis by (simp add: word_le_nat_alt)
qed

text \<open>The octet of seven bits \<open>b\<close> with the continuation flag, and what the reader takes from it.\<close>

lemma varint_octet:
  fixes v :: u64
  defines "b \<equiv> ucast (v AND 0x7F) :: byte"
  shows "\<not> 0x80 \<le> b" and "0x80 \<le> b OR 0x80"
    and "(b OR 0x80) AND 0x7F = b" and "b AND 0x7F = b"
proof -
  have m: "(0x7F :: byte) = mask 7" and m': "(0x7F :: u64) = mask 7" and e: "(0x80 :: byte) = push_bit 7 1"
    by (simp_all add: mask_eq_exp_minus_1)
  have e7: "bit (0x80 :: byte) 7" unfolding e by (simp add: bit_push_bit_iff)
  have b7: "\<not> bit b 7" unfolding b_def m' by (simp add: bit_ucast_iff bit_and_iff bit_mask_iff)
  show "\<not> 0x80 \<le> b" unfolding byte_high_bit by (rule b7)
  show "0x80 \<le> b OR 0x80" unfolding byte_high_bit by (simp only: bit_or_iff e7 simp_thms)
  have b_n: "bit b n \<longleftrightarrow> n < 7 \<and> bit v n" for n
    unfolding b_def m' by (auto simp: bit_ucast_iff bit_and_iff bit_mask_iff dest: bit_imp_le_length)
  have e_n: "n < 7 \<Longrightarrow> \<not> bit (0x80 :: byte) n" for n
    unfolding e bit_push_bit_iff by simp
  show "(b OR 0x80) AND 0x7F = b" and "b AND 0x7F = b"
    unfolding m by (rule bit_word_eqI; auto simp: bit_and_iff bit_or_iff bit_mask_iff b_n dest: e_n)+
qed

text \<open>Seven more bits of \<open>x\<close> join the \<open>pos\<close> bits read so far.\<close>

lemma take_bit_step:
  fixes x :: "'a::len word"
  assumes "LENGTH('a) \<le> 64"
  shows "take_bit pos x OR push_bit pos (ucast (ucast (ucast (drop_bit pos x) AND (0x7F::u64)) :: byte))
    = take_bit (pos + 7) x"
proof -
  have m: "(0x7F :: u64) = mask 7" by (simp add: mask_eq_exp_minus_1)
  show ?thesis
    unfolding m
  proof (rule bit_word_eqI)
    fix n assume n: "n < LENGTH('a)"
    show "bit (take_bit pos x OR push_bit pos (ucast (ucast (ucast (drop_bit pos x) AND (mask 7::u64)) :: byte))) n
      = bit (take_bit (pos + 7) x) n"
      using n assms by (auto simp: bit_simps)
  qed
qed

lemma drop_bit_ucast_step:
  fixes x :: "'a::len word"
  assumes "LENGTH('a) \<le> 64"
  shows "drop_bit 7 (ucast (drop_bit pos x) :: u64) = ucast (drop_bit (pos + 7) x)"
  using assms
  by (intro bit_word_eqI) (auto simp: bit_simps ac_simps; drule bit_imp_le_length; simp)

lemma ucast_u64_eq_0:
  fixes y :: "'a::len word"
  assumes "LENGTH('a) \<le> 64" and "(ucast y :: u64) = 0"
  shows "y = 0"
proof (rule bit_word_eqI)
  fix n assume "n < LENGTH('a)"
  with assms(1) have "bit y n \<longleftrightarrow> bit (ucast y :: u64) n" by (simp add: bit_ucast_iff)
  with assms(2) show "bit y n = bit (0 :: 'a word) n" by simp
qed

lemma drop_bit_beyond:
  fixes x :: "'a::len word"
  assumes "LENGTH('a) \<le> n"
  shows "drop_bit n x = 0"
  using assms by (intro bit_word_eqI) (auto simp: bit_simps dest: bit_imp_le_length)

context byte_reader
begin

lemma varint_loop_reads:
  fixes x :: "'a::len word"
  assumes len: "LENGTH('a) \<le> 64"
  shows "invar r \<Longrightarrow> pos < LENGTH('a) \<Longrightarrow>
     unread r = varint_bytes (ucast (drop_bit pos x)) @ rest \<Longrightarrow>
     \<exists>r'. varint_loop rd r (take_bit pos x) pos = (Some x, r') \<and> unread r' = rest \<and> invar r'"
proof (induction "LENGTH('a) - pos" arbitrary: pos r rule: less_induct)
  case less
  define v where "v = (ucast (drop_bit pos x) :: u64)"
  define b where "b = (ucast (v AND 0x7F) :: byte)"
  note octet = varint_octet [of v, folded b_def]
  have acc: "take_bit pos x OR push_bit pos (ucast b) = take_bit (pos + 7) x"
    using take_bit_step [OF len, of pos x] by (simp add: b_def v_def)
  have v7: "drop_bit 7 v = ucast (drop_bit (pos + 7) x)"
    using drop_bit_ucast_step [OF len, of pos x] by (simp add: v_def)
  show ?case
  proof (cases "drop_bit 7 v = 0")
    case True
    then have "unread r = b # rest"
      using less.prems(3) by (simp add: v_def [symmetric] varint_bytes.simps [of v] b_def)
    with less.prems(1) obtain r' where r': "rd r 1 = Some ([b], r')" "unread r' = rest" "invar r'"
      by (rule rd_Cons)
    from True v7 have "drop_bit (pos + 7) x = 0"
      using ucast_u64_eq_0 [OF len] by metis
    then have "take_bit (pos + 7) x = x" by (simp add: take_bit_eq_self_iff_drop_bit_eq_0)
    then show ?thesis
      using r' less.prems(2) octet acc by (subst varint_loop.simps) (simp add: Let_def)
  next
    case False
    then have "unread r = (b OR 0x80) # (varint_bytes (drop_bit 7 v) @ rest)"
      using less.prems(3) by (simp add: v_def [symmetric] varint_bytes.simps [of v] b_def)
    with less.prems(1) obtain r' where r': "rd r 1 = Some ([b OR 0x80], r')"
      "unread r' = varint_bytes (ucast (drop_bit (pos + 7) x)) @ rest" "invar r'"
      unfolding v7 by (rule rd_Cons)
    from False v7 have "pos + 7 < LENGTH('a)"
      using drop_bit_beyond [of "pos + 7" x] by (metis not_less unsigned_0)
    moreover have "LENGTH('a) - (pos + 7) < LENGTH('a) - pos" using less.prems(2) by simp
    ultimately obtain r'' where "varint_loop rd r' (take_bit (pos + 7) x) (pos + 7) = (Some x, r'')"
      "unread r'' = rest" "invar r''"
      using less.hyps [of "pos + 7" r'] r' by blast
    then show ?thesis
      using r' less.prems(2) octet acc by (subst varint_loop.simps) (simp add: Let_def)
  qed
qed

end

lemma byte_take_bit_5: "m < 0x20 \<Longrightarrow> take_bit 5 m = (m :: byte)"
proof -
  assume "m < 0x20"
  then have "take_bit 5 (unat m) = unat m"
    by (intro take_bit_nat_eq_self) (simp add: word_less_nat_alt)
  then have "unat (take_bit 5 m) = unat m" by (simp only: unsigned_take_bit_eq)
  then show ?thesis by (rule unsigned_word_eqI)
qed

lemma tag_octet:
  assumes "m < 0x20"
  shows "drop_bit 5 (push_bit 5 (wire_code ty) OR m) = wire_code ty"
    and "(push_bit 5 (wire_code ty) OR m) AND 0x1f = m"
proof -
  have m: "bit m n \<Longrightarrow> n < 5" for n
    using byte_take_bit_5 [OF assms] by (metis bit_take_bit_iff)
  have c: "take_bit 3 (wire_code ty) = wire_code ty" by (cases ty) simp_all
  then have w: "bit (wire_code ty) n \<Longrightarrow> n < 3" for n
    by (metis bit_take_bit_iff)
  show "drop_bit 5 (push_bit 5 (wire_code ty) OR m) = wire_code ty"
    by (intro bit_word_eqI) (auto simp: bit_simps add.commute dest: w m)
  have f: "(0x1f :: byte) = mask 5" by (simp add: mask_eq_exp_minus_1)
  show "(push_bit 5 (wire_code ty) OR m) AND 0x1f = m"
    unfolding f by (intro bit_word_eqI) (auto simp: bit_simps dest: m)
qed

lemma wire_of_code [simp]: "wire_of (wire_code ty) = ty"
  by (cases ty) (simp_all add: wire_of_def)

lemma small_u64_byte:
  fixes v :: u64
  assumes "v < 0x1f"
  shows "(ucast v :: byte) < 0x20" and "(ucast (ucast v :: byte) :: u64) = v" and "v \<noteq> 0x1f"
proof -
  from assms have v: "unat v < 31" by (simp add: word_less_nat_alt)
  then have u: "unat (ucast v :: byte) = unat v"
    by (simp add: unsigned_ucast_eq take_bit_nat_eq_self)
  with v show "(ucast v :: byte) < 0x20" by (simp add: word_less_nat_alt)
  have "unat (ucast (ucast v :: byte) :: u64) = take_bit LENGTH(64) (unat (ucast v :: byte))"
    by (rule unsigned_ucast_eq)
  also have "\<dots> = unat v" unfolding u using v by (intro take_bit_nat_eq_self) simp
  finally show "(ucast (ucast v :: byte) :: u64) = v" by (rule unsigned_word_eqI)
  from assms show "v \<noteq> 0x1f" by auto
qed

context byte_reader
begin

lemma varint64_reads:
  assumes "invar r" and "unread r = varint_bytes v @ rest"
  shows "\<exists>r'. pb_decode_varint64 rd r = (Some v, r') \<and> unread r' = rest \<and> invar r'"
  using varint_loop_reads [of r 0 v rest] assms by (simp add: pb_decode_varint64_def)

lemma tag_reads:
  assumes "invar r" and "unread r = tag_bytes ty v @ rest"
  shows "\<exists>r'. pb_decode_tag rd r = (Some (ty, v), r') \<and> unread r' = rest \<and> invar r'"
proof (cases "v < 0x1f")
  case True
  note small = small_u64_byte [OF True]
  from True assms(2) have "unread r = (push_bit 5 (wire_code ty) OR ucast v) # rest"
    by (simp add: tag_bytes_def)
  with assms(1) obtain r' where "rd r 1 = Some ([push_bit 5 (wire_code ty) OR ucast v], r')"
    and "unread r' = rest" and "invar r'"
    by (rule rd_Cons)
  then show ?thesis
    using small tag_octet [OF small(1), of ty] by (simp add: pb_decode_tag_def Let_def)
next
  case False
  then have "unread r = (push_bit 5 (wire_code ty) OR 0x1f) # (varint_bytes v @ rest)"
    using assms(2) by (simp add: tag_bytes_def)
  with assms(1) obtain r' where r': "rd r 1 = Some ([push_bit 5 (wire_code ty) OR 0x1f], r')"
    "unread r' = varint_bytes v @ rest" "invar r'"
    by (rule rd_Cons)
  obtain r'' where r'': "pb_decode_varint64 rd r' = (Some v, r'')" "unread r'' = rest" "invar r''"
    using varint64_reads [OF r'(3,2)] by auto
  have "(0x1f :: byte) < 0x20" by simp
  note octet = tag_octet [OF this, of ty]
  show ?thesis
    using r' r'' octet by (simp add: pb_decode_tag_def Let_def)
qed

end

section \<open>The round trip\<close>

definition norm_i64 :: "i64 \<Rightarrow> json" where
  "norm_i64 i = (if sint i < 0 then JInt i else JUInt i)"

fun pson_norm :: "json \<Rightarrow> json"
  and pson_norm_pairs :: "(string \<times> json) list \<Rightarrow> (string \<times> json) list \<Rightarrow> (string \<times> json) list"
where
  "pson_norm (JInt i) = norm_i64 i"
| "pson_norm (JFloat d) =
     (if i64_eq_dbl (dbl_to_i64 d) d then norm_i64 (dbl_to_i64 d) else JFloat d)"
| "pson_norm (JStr s) = JStr (c_str s)"
| "pson_norm (JArr xs) = JArr (map pson_norm xs)"
| "pson_norm (JObj kvs) = JObj (pson_norm_pairs [] kvs)"
| "pson_norm v = v"
| "pson_norm_pairs acc [] = acc"
| "pson_norm_pairs acc ((k, v) # kvs) = pson_norm_pairs (sm_put (c_str k) (pson_norm v) acc) kvs"

definition max_u32 :: nat where
  "max_u32 = 2 ^ 32 - 1"

fun pson_fits :: "json \<Rightarrow> bool"
  and pson_fits_pairs :: "(string \<times> json) list \<Rightarrow> bool"
where
  "pson_fits (JStr s) = (length (c_str s) \<le> max_u32)"
| "pson_fits (JBin bs) = (length bs \<le> max_u32)"
| "pson_fits (JArr xs) = (length xs < 2 ^ 64 \<and> (\<forall>x \<in> set xs. pson_fits x))"
| "pson_fits (JObj kvs) = (length kvs < 2 ^ 64 \<and> pson_fits_pairs kvs)"
| "pson_fits JDiscarded = False"
| "pson_fits v = True"
| "pson_fits_pairs [] = True"
| "pson_fits_pairs ((k, v) # kvs) =
     (length (c_str k) \<le> max_u32 \<and> pson_fits v \<and> pson_fits_pairs kvs)"

lemma pson_fits_out:
  "pson_fits v \<Longrightarrow> fst (pson_out v)"
  "\<forall>x \<in> set xs. pson_fits x \<Longrightarrow> fst (pson_outs xs)"
  "pson_fits_pairs kvs \<Longrightarrow> fst (pson_out_pairs kvs)"
  by (induction v and xs and kvs rule: pson_out_pson_outs_pson_out_pairs.induct)
     (auto simp: seq_out_def)

definition reads_to :: "bool \<times> 'a \<times> memory_reader \<Rightarrow> 'a \<Rightarrow> byte list \<Rightarrow> bool" where
  "reads_to p v rest \<longleftrightarrow> (\<exists>r'. p = (True, v, r') \<and> mr_unread r' = rest \<and> mr_ok r')"

lemma reads_toI: "p = (True, v, r') \<Longrightarrow> mr_unread r' = rest \<Longrightarrow> mr_ok r' \<Longrightarrow> reads_to p v rest"
  by (auto simp: reads_to_def)

lemma length_word_fits:
  assumes "n \<le> max_u32"
  shows "unat (word_of_nat n :: u64) = n" and "\<not> UINT32_MAX < word_of_nat n"
proof -
  have "n < 2 ^ LENGTH(64)" using assms by (simp add: max_u32_def)
  then show n: "unat (word_of_nat n :: u64) = n" by (rule unat_word_of_nat_eq)
  have "unat UINT32_MAX = max_u32" by (simp add: UINT32_MAX_def max_u32_def)
  with assms n show "\<not> UINT32_MAX < word_of_nat n" by (simp add: word_less_nat_alt not_less)
qed

text \<open>What follows a tag in the reader.\<close>

lemma mr_tag_then:
  assumes "mr_ok r" and "mr_unread r = tag_bytes ty n @ rest"
  obtains r1 where "pb_decode_tag mr_read r = (Some (ty, n), r1)" and "mr_unread r1 = rest"
    and "mr_ok r1"
  using mr.tag_reads [OF assms] by auto

lemma mr_bytes_then:
  assumes "mr_ok r" and "mr_unread r = bs @ rest"
  obtains r1 where "mr_read r (length bs) = Some (bs, r1)" and "mr_unread r1 = rest" and "mr_ok r1"
  using mr.rd_append [OF assms] by auto

lemma decode_int_reads:
  assumes "mr_ok r" and "mr_unread r = int_bytes i @ rest"
  shows "reads_to (decode r v0) (norm_i64 i) rest"
proof (cases "sint i < 0")
  case True
  with assms obtain r1 where "pb_decode_tag mr_read r = (Some (signed_t, - i), r1)"
    and "mr_unread r1 = rest" and "mr_ok r1"
    by (auto simp: int_bytes_def elim: mr_tag_then)
  with True show ?thesis
    by (intro reads_toI [of _ _ r1]) (simp_all add: decode.simps norm_i64_def)
next
  case False
  with assms obtain r1 where "pb_decode_tag mr_read r = (Some (unsigned_t, i), r1)"
    and "mr_unread r1 = rest" and "mr_ok r1"
    by (auto simp: int_bytes_def elim: mr_tag_then)
  with False show ?thesis
    by (intro reads_toI [of _ _ r1]) (simp_all add: decode.simps norm_i64_def)
qed

lemma decode_float_reads:
  assumes "mr_ok r" and "mr_unread r = float_bytes d @ rest"
  shows "reads_to (decode r v0) (pson_norm (JFloat d)) rest"
proof (cases "i64_eq_dbl (dbl_to_i64 d) d")
  case True
  with assms show ?thesis by (simp add: float_bytes_def decode_int_reads)
next
  case False
  show ?thesis
  proof (cases "exact_float d")
    case None
    from assms False None
    have "mr_unread r = tag_bytes floating_t 1 @ (le_bytes 8 d @ rest)"
      by (simp add: float_bytes_def tag_bytes_def)
    with assms(1) obtain r1 where r1: "pb_decode_tag mr_read r = (Some (floating_t, 1), r1)"
      "mr_unread r1 = le_bytes 8 d @ rest" "mr_ok r1" by (rule mr_tag_then)
    from r1(3,2) obtain r2 where "mr_read r1 8 = Some (le_bytes 8 d, r2)"
      "mr_unread r2 = rest" "mr_ok r2" by (auto elim: mr_bytes_then)
    with r1 False show ?thesis
      by (intro reads_toI [of _ _ r2]) (simp_all add: decode.simps)
  next
    case (Some x)
    from assms False Some
    have "mr_unread r = tag_bytes floating_t 0 @ (le_bytes 4 x @ rest)"
      by (simp add: float_bytes_def tag_bytes_def)
    with assms(1) obtain r1 where r1: "pb_decode_tag mr_read r = (Some (floating_t, 0), r1)"
      "mr_unread r1 = le_bytes 4 x @ rest" "mr_ok r1" by (rule mr_tag_then)
    from r1(3,2) obtain r2 where "mr_read r1 4 = Some (le_bytes 4 x, r2)"
      "mr_unread r2 = rest" "mr_ok r2" by (auto elim: mr_bytes_then)
    with r1 False flt_to_dbl_exact [OF Some] show ?thesis
      by (intro reads_toI [of _ _ r2]) (simp_all add: decode.simps)
  qed
qed

lemma decode_string_reads:
  assumes "mr_ok r" and "mr_unread r = string_bytes s @ rest" and "length (c_str s) \<le> max_u32"
  shows "reads_to (decode r v0) (JStr (c_str s)) rest"
proof -
  let ?n = "word_of_nat (length (c_str s)) :: u64"
  from assms have "mr_unread r = tag_bytes string_t ?n @ (map byte_of (c_str s) @ rest)"
    by (simp add: string_bytes_def)
  with assms(1) obtain r1 where r1: "pb_decode_tag mr_read r = (Some (string_t, ?n), r1)"
    "mr_unread r1 = map byte_of (c_str s) @ rest" "mr_ok r1" by (rule mr_tag_then)
  from r1(3,2) obtain r2 where "mr_read r1 (length (c_str s)) = Some (map byte_of (c_str s), r2)"
    "mr_unread r2 = rest" "mr_ok r2" by (auto elim: mr_bytes_then)
  with r1 length_word_fits [OF assms(3)] show ?thesis
    by (intro reads_toI [of _ _ r2]) (simp_all add: decode.simps comp_def)
qed

lemma decode_binary_reads:
  assumes "mr_ok r" and "mr_unread r = tag_bytes bytes_t (word_of_nat (length bs)) @ bs @ rest"
    and "length bs \<le> max_u32"
  shows "reads_to (decode r v0) (JBin bs) rest"
proof -
  let ?n = "word_of_nat (length bs) :: u64"
  from assms(1,2) obtain r1 where r1: "pb_decode_tag mr_read r = (Some (bytes_t, ?n), r1)"
    "mr_unread r1 = bs @ rest" "mr_ok r1" by (rule mr_tag_then)
  from r1(3,2) obtain r2 where "mr_read r1 (length bs) = Some (bs, r2)"
    "mr_unread r2 = rest" "mr_ok r2" by (auto elim: mr_bytes_then)
  with r1 length_word_fits [OF assms(3)] show ?thesis
    by (intro reads_toI [of _ _ r2]) (simp_all add: decode.simps)
qed

text \<open>A constant of one octet: the discrete values.\<close>

lemma decode_discrete_reads:
  assumes "mr_ok r" and "mr_unread r = tag_bytes discrete_t p @ rest"
    and "(p, v) \<in> {(0, JBool False), (1, JBool True), (2, JNull)}"
  shows "reads_to (decode r v0) v rest"
proof -
  from assms(1,2) obtain r1 where r1: "pb_decode_tag mr_read r = (Some (discrete_t, p), r1)"
    "mr_unread r1 = rest" "mr_ok r1" by (rule mr_tag_then)
  have "decode r v0 = (True, v, r1)"
    using assms(3) r1(1) by (subst decode.simps) auto
  with r1(2,3) show ?thesis by (intro reads_toI)
qed

lemma decode_unsigned_reads:
  assumes "mr_ok r" and "mr_unread r = tag_bytes unsigned_t u @ rest"
  shows "reads_to (decode r v0) (JUInt u) rest"
proof -
  from assms obtain r1 where "pb_decode_tag mr_read r = (Some (unsigned_t, u), r1)"
    "mr_unread r1 = rest" "mr_ok r1" by (rule mr_tag_then)
  then show ?thesis by (intro reads_toI [of _ _ r1]) (simp_all add: decode.simps)
qed

lemma unat_word_of_nat_64: "n < 2 ^ 64 \<Longrightarrow> unat (word_of_nat n :: u64) = n"
  by (rule unat_word_of_nat_eq) simp

lemma decode_container_reads:
  assumes "mr_ok r" and "mr_unread r = tag_bytes ty (word_of_nat n) @ rest" and "n < 2 ^ 64"
  obtains r1 where "pb_decode_tag mr_read r = (Some (ty, word_of_nat n), r1)"
    and "unat (word_of_nat n :: u64) = n" and "mr_unread r1 = rest" and "mr_ok r1"
proof -
  from assms(1,2) obtain r1 where "pb_decode_tag mr_read r = (Some (ty, word_of_nat n), r1)"
    "mr_unread r1 = rest" "mr_ok r1" by (rule mr_tag_then)
  with that unat_word_of_nat_64 [OF assms(3)] show thesis by blast
qed

text \<open>A key and its value extend the map read so far.\<close>

lemma decode_pair_reads:
  assumes "mr_ok r" and "mr_unread r = string_bytes k @ bs @ rest" and "length (c_str k) \<le> max_u32"
    and val: "\<And>r1 v0. mr_ok r1 \<Longrightarrow> mr_unread r1 = bs @ rest \<Longrightarrow> reads_to (decode r1 v0) v rest"
  shows "reads_to (decode_pair r acc) (sm_put (c_str k) v acc) rest"
proof -
  let ?n = "word_of_nat (length (c_str k)) :: u64"
  let ?v0 = "case map_of acc (c_str k) of None \<Rightarrow> JNull | Some v \<Rightarrow> v"
  from assms have "mr_unread r = tag_bytes string_t ?n @ (map byte_of (c_str k) @ bs @ rest)"
    by (simp add: string_bytes_def)
  with assms(1) obtain r1 where r1: "pb_decode_tag mr_read r = (Some (string_t, ?n), r1)"
    "mr_unread r1 = map byte_of (c_str k) @ bs @ rest" "mr_ok r1" by (rule mr_tag_then)
  from r1(3,2) obtain r2 where r2: "mr_read r1 (length (c_str k)) = Some (map byte_of (c_str k), r2)"
    "mr_unread r2 = bs @ rest" "mr_ok r2" by (auto elim: mr_bytes_then)
  from val [OF r2(3,2), of ?v0] obtain r3 where "decode r2 ?v0 = (True, v, r3)"
    "mr_unread r3 = rest" "mr_ok r3" by (auto simp: reads_to_def)
  with r1 r2 length_word_fits [OF assms(3)] show ?thesis
    by (intro reads_toI [of _ _ r3]) (simp_all add: decode_pair.simps Let_def comp_def)
qed


text \<open>
  Reading back what was written: the decoder returns the normalised value and stops exactly at
  the octets that follow.
\<close>

theorem decode_reads:
  "mr_ok r \<Longrightarrow> mr_unread r = snd (pson_out v) @ rest \<Longrightarrow> pson_fits v \<Longrightarrow>
     reads_to (decode r v0) (pson_norm v) rest"
  "mr_ok r \<Longrightarrow> mr_unread r = snd (pson_outs xs) @ rest \<Longrightarrow> \<forall>x \<in> set xs. pson_fits x \<Longrightarrow>
     reads_to (decode_array r vs (length xs)) (vs @ map pson_norm xs) rest"
  "mr_ok r \<Longrightarrow> mr_unread r = snd (pson_out_pairs kvs) @ rest \<Longrightarrow> pson_fits_pairs kvs \<Longrightarrow>
     reads_to (decode_object r acc (length kvs)) (pson_norm_pairs acc kvs) rest"
proof (induction v and xs and kvs arbitrary: r v0 rest and r vs rest and r acc rest
    rule: pson_out_pson_outs_pson_out_pairs.induct)
  case 1
  then show ?case by (intro decode_discrete_reads [of _ 2]) (simp_all add: tag_bytes_def)
next
  case (2 b)
  then show ?case
    by (intro decode_discrete_reads [of _ "if b then 1 else 0"]) (cases b; simp add: tag_bytes_def)+
next
  case (3 i)
  then show ?case by (simp add: decode_int_reads)
next
  case (4 u)
  then show ?case by (simp add: decode_unsigned_reads)
next
  case (5 d)
  then show ?case by (intro decode_float_reads) simp_all
next
  case (6 s)
  then show ?case by (simp add: decode_string_reads)
next
  case (7 bs)
  then show ?case by (simp add: decode_binary_reads)
next
  case (8 xs)
  let ?n = "word_of_nat (length xs) :: u64"
  from 8 have "mr_unread r = tag_bytes array_t ?n @ (snd (pson_outs xs) @ rest)" and "length xs < 2 ^ 64"
    by (simp_all add: seq_out_def)
  with "8.prems"(1) obtain r1 where r1: "pb_decode_tag mr_read r = (Some (array_t, ?n), r1)"
    "unat ?n = length xs" "mr_unread r1 = snd (pson_outs xs) @ rest" "mr_ok r1"
    by (rule decode_container_reads)
  from "8.IH" [OF r1(4,3), of "[]"] "8.prems"(3)
  have "reads_to (decode_array r1 [] (length xs)) (map pson_norm xs) rest" by simp
  then obtain r2 where "decode_array r1 [] (length xs) = (True, map pson_norm xs, r2)" "mr_unread r2 = rest" "mr_ok r2"
    by (auto simp: reads_to_def)
  with r1(1,2) show ?case by (intro reads_toI [of _ _ r2]) (simp_all add: decode.simps)
next
  case (9 kvs)
  let ?n = "word_of_nat (length kvs) :: u64"
  from 9 have "mr_unread r = tag_bytes map_t ?n @ (snd (pson_out_pairs kvs) @ rest)" and "length kvs < 2 ^ 64"
    by (simp_all add: seq_out_def)
  with "9.prems"(1) obtain r1 where r1: "pb_decode_tag mr_read r = (Some (map_t, ?n), r1)"
    "unat ?n = length kvs" "mr_unread r1 = snd (pson_out_pairs kvs) @ rest" "mr_ok r1"
    by (rule decode_container_reads)
  from "9.IH" [OF r1(4,3), of "[]"] "9.prems"(3)
  have "reads_to (decode_object r1 [] (length kvs)) (pson_norm_pairs [] kvs) rest" by simp
  then obtain r2 where "decode_object r1 [] (length kvs) = (True, pson_norm_pairs [] kvs, r2)" "mr_unread r2 = rest" "mr_ok r2"
    by (auto simp: reads_to_def)
  with r1(1,2) show ?case by (intro reads_toI [of _ _ r2]) (simp_all add: decode.simps)
next
  case 10
  then show ?case by simp
next
  case 11
  then show ?case by (intro reads_toI [of _ _ r]) (simp_all add: decode_array.simps)
next
  case (12 x xs)
  from 12 pson_fits_out(1) have "mr_unread r = snd (pson_out x) @ (snd (pson_outs xs) @ rest)"
    by (simp add: seq_out_def)
  from "12.IH"(1) [OF "12.prems"(1) this] "12.prems"(3) obtain r1
    where r1: "decode r JNull = (True, pson_norm x, r1)"
    "mr_unread r1 = snd (pson_outs xs) @ rest" "mr_ok r1" by (auto simp: reads_to_def)
  have "reads_to (decode_array r1 (vs @ [pson_norm x]) (length xs)) (vs @ map pson_norm (x # xs)) rest"
    using "12.IH"(2) [OF r1(3,2), of "vs @ [pson_norm x]"] 12 by simp
  with r1(1) show ?case by (simp add: decode_array.simps [of _ _ "Suc _"])
next
  case 13
  then show ?case by (intro reads_toI [of _ _ r]) (simp_all add: decode_object.simps)
next
  case (14 k v kvs)
  from 14 pson_fits_out(1)
  have "mr_unread r = string_bytes k @ snd (pson_out v) @ (snd (pson_out_pairs kvs) @ rest)"
    by (simp add: seq_out_def)
  from decode_pair_reads [OF "14.prems"(1) this _ "14.IH"(1)] "14.prems"(3)
  have "reads_to (decode_pair r acc) (sm_put (c_str k) (pson_norm v) acc) (snd (pson_out_pairs kvs) @ rest)"
    by simp
  then obtain r1 where r1: "decode_pair r acc = (True, sm_put (c_str k) (pson_norm v) acc, r1)"
    "mr_unread r1 = snd (pson_out_pairs kvs) @ rest" "mr_ok r1" by (auto simp: reads_to_def)
  have "reads_to (decode_object r1 (sm_put (c_str k) (pson_norm v) acc) (length kvs))
      (pson_norm_pairs acc ((k, v) # kvs)) rest"
    using "14.IH"(2) [OF r1(3,2)] 14 by simp
  with r1(1) show ?case by (simp add: decode_object.simps [of _ _ "Suc _"])
qed

end
