(* ===== verification/Pson_Correct.thy ===== *)
theory Pson_Correct
  imports Pson_Roundtrip
begin

text \<open>
  The properties of the PSON codec as a whole: the round trip on the adapters of the source, the
  agreement of the sizing pass with the writing pass, and the safety of the decoder on
  input it did not produce.
\<close>

section \<open>The decoder on any input\<close>

text \<open>The reader after a decoding step: same memory, offset within it and not before the old one.\<close>

definition mr_later :: "memory_reader \<Rightarrow> memory_reader \<Rightarrow> bool" where
  "mr_later r r' \<longleftrightarrow> mr_buffer r' = mr_buffer r \<and> mr_size r' = mr_size r \<and> mr_pos r \<le> mr_pos r' \<and>
     (mr_ok r \<longrightarrow> mr_ok r')"

lemma mr_later_refl [simp]: "mr_later r r"
  by (simp add: mr_later_def)

lemma mr_later_trans [trans]: "mr_later r r' \<Longrightarrow> mr_later r' r'' \<Longrightarrow> mr_later r r''"
  by (auto simp: mr_later_def)

lemma mr_read_later: "mr_read r n = Some (bs, r') \<Longrightarrow> mr_later r r'"
  by (auto simp: mr_read_def mr_later_def mr_ok_def split: if_splits)

lemma varint_loop_later:
  "varint_loop mr_read r acc pos = (res, r') \<Longrightarrow> mr_later r r'"
proof (induction mr_read r acc pos arbitrary: res r' rule: varint_loop.induct)
  case (1 r acc pos)
  show ?case
  proof (cases "mr_read r 1")
    case None
    with "1.prems" show ?thesis by (subst (asm) varint_loop.simps) simp
  next
    case (Some p)
    then obtain bs r1 where r1: "mr_read r 1 = Some (bs, r1)" by (cases p) auto
    note later = mr_read_later [OF r1]
    show ?thesis
    proof (cases "\<not> LENGTH('a) \<le> pos \<and> 0x80 \<le> hd bs")
      case True
      with r1 "1.prems" have "varint_loop mr_read r1 (acc OR push_bit pos (ucast (hd bs AND 0x7F))) (pos + 7) = (res, r')"
        by (subst (asm) varint_loop.simps) (simp add: Let_def)
      with True r1 "1.hyps" have "mr_later r1 r'" by simp
      with later show ?thesis by (rule mr_later_trans)
    next
      case False
      with r1 "1.prems" later show ?thesis
        by (subst (asm) varint_loop.simps) (auto simp: Let_def split: if_splits)
    qed
  qed
qed

lemma pb_decode_tag_later: "pb_decode_tag mr_read r = (res, r') \<Longrightarrow> mr_later r r'"
  by (auto simp: pb_decode_tag_def pb_decode_varint64_def Let_def split: option.splits if_splits prod.splits
      dest!: mr_read_later varint_loop_later intro: mr_later_trans)

text \<open>How many values a value holds, itself and the keys of its objects included.\<close>

fun j_nodes :: "json \<Rightarrow> nat"
  and j_nodes_pairs :: "(string \<times> json) list \<Rightarrow> nat"
where
  "j_nodes (JArr xs) = Suc (sum_list (map j_nodes xs))"
| "j_nodes (JObj kvs) = Suc (j_nodes_pairs kvs)"
| "j_nodes v = 1"
| "j_nodes_pairs [] = 0"
| "j_nodes_pairs ((k, v) # kvs) = Suc (j_nodes v + j_nodes_pairs kvs)"

lemma j_nodes_pairs_put: "j_nodes_pairs (sm_put k v kvs) \<le> Suc (j_nodes v + j_nodes_pairs kvs)"
  by (induction k v kvs rule: sm_put.induct) auto


lemma pb_decode_tag_pos:
  assumes "pb_decode_tag mr_read r = (Some t, r')"
  shows "mr_pos r < mr_pos r'"
  using pb_decode_tag_later [OF assms] pb_decode_tag_left(2) [OF assms]
  by (auto simp: mr_later_def mr_left_def)

definition within :: "memory_reader \<Rightarrow> memory_reader \<Rightarrow> nat \<Rightarrow> bool" where
  "within r r' n \<longleftrightarrow> mr_later r r' \<and> n + mr_pos r \<le> mr_pos r'"

lemma within_trans: "within r r' m \<Longrightarrow> within r' r'' n \<Longrightarrow> within r r'' (m + n)"
  by (auto simp: within_def intro: mr_later_trans)

lemma within_mono: "within r r' m \<Longrightarrow> n \<le> m \<Longrightarrow> within r r' n"
  by (auto simp: within_def)

lemma within_tag: "pb_decode_tag mr_read r = (Some t, r') \<Longrightarrow> within r r' 1"
  using pb_decode_tag_pos [of r t r'] by (auto simp: within_def dest: pb_decode_tag_later)

lemma within_read: "mr_read r n = Some (bs, r') \<Longrightarrow> within r r' 0"
  using mr_read_later [of r n bs r'] by (auto simp: within_def mr_later_def)

lemma within_later: "within r r' n \<Longrightarrow> mr_later r r'"
  by (simp add: within_def)

lemma later_within: "mr_later r r' \<Longrightarrow> within r r' 0"
  by (simp add: within_def mr_later_def)

text \<open>
  Whatever the input, the decoder stays within its memory and builds at most one value or key for
  each octet it consumes.
\<close>

lemma decode_within:
  "decode r v = (ok, v', r') \<Longrightarrow> within r r' (if ok then j_nodes v' else 0)"
  "decode_array r xs n = (ok, xs', r') \<Longrightarrow>
     within r r' (if ok then sum_list (map j_nodes xs') - sum_list (map j_nodes xs) else 0)"
  "decode_object r kvs n = (ok, kvs', r') \<Longrightarrow>
     within r r' (if ok then j_nodes_pairs kvs' - j_nodes_pairs kvs else 0)"
  "decode_pair r kvs = (ok, kvs', r') \<Longrightarrow>
     within r r' (if ok then j_nodes_pairs kvs' - j_nodes_pairs kvs else 0)"
proof (induction r v and r xs n and r kvs n and r kvs
    arbitrary: ok v' r' and ok xs' r' and ok kvs' r' and ok kvs' r'
    rule: decode_decode_array_decode_object_decode_pair.induct)
  case (1 r v)
  obtain t r1 where t: "pb_decode_tag mr_read r = (t, r1)" by fastforce
  show ?case
  proof (cases t)
    case None
    with t 1 show ?thesis
      by (auto simp: decode.simps dest!: pb_decode_tag_later intro: later_within)
  next
    case (Some q)
    then obtain ty p where q: "t = Some (ty, p)" by (cases q) auto
    note eq = "1.prems" [unfolded decode.simps [of r v] t q prod.case option.case]
    have w: "within r r1 1" using t q within_tag by blast
    have w0: "within r r1 0" using w by (rule within_mono) simp
    have rd: "within r r2 1" "within r r2 0" if "mr_read r1 k = Some (bs, r2)" for k bs r2
      using within_trans [OF w within_read [OF that]] within_trans [OF w0 within_read [OF that]]
      by simp_all
    show ?thesis
    proof (cases ty)
      case map_t
      obtain b kvs r2 where d: "decode_object r1 [] (unat p) = (b, kvs, r2)" by (metis prod_cases3)
      from "1.IH"(1) [OF t [symmetric] q _ map_t d] have "within r1 r2 (if b then j_nodes_pairs kvs else 0)"
        by (cases b) simp_all
      with w have "within r r2 (1 + (if b then j_nodes_pairs kvs else 0))" by (rule within_trans)
      with eq map_t d show ?thesis by (auto elim: within_mono)
    next
      case array_t
      obtain b xs r2 where d: "decode_array r1 [] (unat p) = (b, xs, r2)" by (metis prod_cases3)
      from "1.IH"(2) [OF t [symmetric] q _ array_t d]
      have "within r1 r2 (if b then sum_list (map j_nodes xs) else 0)"
        by (cases b) simp_all
      with w have "within r r2 (1 + (if b then sum_list (map j_nodes xs) else 0))" by (rule within_trans)
      with eq array_t d show ?thesis by (auto elim: within_mono)
    qed (use eq w w0 rd in \<open>auto split: if_splits option.splits\<close>)
  qed
next
  case (2 r xs n)
  show ?case
  proof (cases "n = 0")
    case True
    with 2 show ?thesis by (auto simp: decode_array.simps intro: later_within)
  next
    case False
    obtain b v r1 where d: "decode r JNull = (b, v, r1)" by (metis prod_cases3)
    from "2.IH"(1) [OF False d] have w: "within r r1 (if b then j_nodes v else 0)" .
    show ?thesis
    proof (cases b)
      case True
      have e: "decode_array r1 (xs @ [v]) (n - 1) = (ok, xs', r')"
        using "2.prems" False True d by (simp add: decode_array.simps [of r xs n])
      from "2.IH"(2) [OF False d [symmetric] _ refl e] True
      have "within r1 r' (if ok then sum_list (map j_nodes xs') - sum_list (map j_nodes (xs @ [v])) else 0)"
        by simp
      with w True have "within r r' (j_nodes v + (if ok then sum_list (map j_nodes xs')
          - sum_list (map j_nodes (xs @ [v])) else 0))" by (auto dest: within_trans)
      then show ?thesis by (rule within_mono) auto
    next
      case b: False
      with "2.prems" False d w show ?thesis by (simp add: decode_array.simps [of r xs n])
    qed
  qed
next
  case (3 r kvs n)
  show ?case
  proof (cases "n = 0")
    case True
    with 3 show ?thesis by (auto simp: decode_object.simps intro: later_within)
  next
    case False
    obtain b kvs1 r1 where d: "decode_pair r kvs = (b, kvs1, r1)" by (metis prod_cases3)
    from "3.IH"(1) [OF False d]
    have w: "within r r1 (if b then j_nodes_pairs kvs1 - j_nodes_pairs kvs else 0)" .
    show ?thesis
    proof (cases b)
      case True
      have e: "decode_object r1 kvs1 (n - 1) = (ok, kvs', r')"
        using "3.prems" False True d by (simp add: decode_object.simps [of r kvs n])
      from "3.IH"(2) [OF False d [symmetric] _ refl e] True
      have "within r1 r' (if ok then j_nodes_pairs kvs' - j_nodes_pairs kvs1 else 0)"
        by simp
      with w True have "within r r' ((j_nodes_pairs kvs1 - j_nodes_pairs kvs) +
          (if ok then j_nodes_pairs kvs' - j_nodes_pairs kvs1 else 0))" by (auto dest: within_trans)
      then show ?thesis by (rule within_mono) auto
    next
      case b: False
      with "3.prems" False d w show ?thesis by (simp add: decode_object.simps [of r kvs n])
    qed
  qed
next
  case (4 r kvs)
  obtain t r1 where t: "pb_decode_tag mr_read r = (t, r1)" by fastforce
  show ?case
  proof (cases "\<exists>n bs r2. t = Some (string_t, n) \<and> \<not> UINT32_MAX < n \<and> mr_read r1 (unat n) = Some (bs, r2)")
    case True
    then obtain n bs r2 where p: "t = Some (string_t, n)" and n: "\<not> UINT32_MAX < n"
      and r2: "mr_read r1 (unat n) = Some (bs, r2)" by blast
    define key where "key = map char_from bs"
    define v0 where "v0 = (case map_of kvs key of None \<Rightarrow> JNull | Some v \<Rightarrow> v)"
    obtain b v r3 where d: "decode r2 v0 = (b, v, r3)" by (metis prod_cases3)
    have ns: "\<not> string_t \<noteq> string_t" by simp
    note IH = "4.IH" [OF t [symmetric] p refl ns n r2 refl key_def v0_def d]
    have w: "within r r2 1" using within_trans [OF within_tag within_read [OF r2]] t p by fastforce
    from within_trans [OF w IH] have w3: "within r r3 (Suc (if b then j_nodes v else 0))" by simp
    have "ok = b" and "kvs' = sm_put key v kvs" and "r' = r3"
      using "4.prems" t p n r2 d
      by (auto simp: decode_pair.simps Let_def key_def [symmetric] v0_def [symmetric])
    with w3 j_nodes_pairs_put [of key v kvs] show ?thesis by (auto elim: within_mono)
  next
    case False
    with 4 t have "mr_later r r'"
      by (auto simp: decode_pair.simps [of r kvs] Let_def dest!: pb_decode_tag_later
          split: option.splits if_splits)
    moreover from False 4 t have "\<not> ok"
      by (auto simp: decode_pair.simps [of r kvs] Let_def split: option.splits if_splits)
    ultimately show ?thesis by (simp add: later_within)
  qed
qed


section \<open>Values that come back unchanged\<close>

text \<open>
  The codec merges values the wire format does not tell apart; a canonical value is its own normal
  form. Objects carry their keys in order, as \<open>std::map\<close> does.
\<close>

fun pson_canonical :: "json \<Rightarrow> bool"
  and pson_canonical_pairs :: "(string \<times> json) list \<Rightarrow> bool"
where
  "pson_canonical (JInt i) = (sint i < 0)"
| "pson_canonical (JFloat d) = (\<not> i64_eq_dbl (dbl_to_i64 d) d)"
| "pson_canonical (JStr s) = (CHR 0x00 \<notin> set s)"
| "pson_canonical (JArr xs) = (\<forall>x \<in> set xs. pson_canonical x)"
| "pson_canonical (JObj kvs) = (sm_ok kvs \<and> pson_canonical_pairs kvs)"
| "pson_canonical v = True"
| "pson_canonical_pairs [] = True"
| "pson_canonical_pairs ((k, v) # kvs) =
     (CHR 0x00 \<notin> set k \<and> pson_canonical v \<and> pson_canonical_pairs kvs)"

lemma pson_norm_canonical:
  "pson_canonical v \<Longrightarrow> pson_norm v = v"
  "\<forall>x \<in> set xs. pson_canonical x \<Longrightarrow> map pson_norm xs = xs"
  "pson_canonical_pairs kvs \<Longrightarrow> sm_ok (acc @ kvs) \<Longrightarrow> pson_norm_pairs acc kvs = acc @ kvs"
proof (induction v and xs and kvs arbitrary: and and acc rule: pson_out_pson_outs_pson_out_pairs.induct)
  case (14 k v kvs)
  from "14.prems" have v: "pson_norm v = v" and k: "c_str k = k"
    using "14.IH"(1) by (simp_all add: c_str_id)
  have "sm_put k v acc = acc @ [(k, v)]"
    using "14.prems"(2) by (intro sm_put_append) (auto simp: sm_ok_def sorted_wrt_append)
  with v k have "pson_norm_pairs acc ((k, v) # kvs) = pson_norm_pairs (acc @ [(k, v)]) kvs" by simp
  also have "\<dots> = (acc @ [(k, v)]) @ kvs"
    using "14.prems" by (intro "14.IH"(2)) simp_all
  finally show ?case by simp
qed (auto simp: norm_i64_def c_str_id)

text \<open>Encoding into an empty string and reading it back, whatever follows.\<close>

lemma encode_string_writer:
  assumes "pson_fits v"
  obtains w where "encode sw_write (sw_new []) v = (True, w)" and "sw_string w = snd (pson_out v)"
    and "sw_written w = length (snd (pson_out v))"
proof -
  let ?p = "encode sw_write (sw_new []) v"
  have "fst ?p = fst (pson_out v) \<and> sw_string (snd ?p) = snd (pson_out v)"
    using sw.recd.emits_encode(1) [of "sw_new []" v] by (simp add: sw.recd.emits_def sw_new_def)
  moreover have "sw_written (snd ?p) = length (snd (pson_out v))"
    using sw.count.emits_encode(1) [of "sw_new []" v] by (simp add: sw.count.emits_def sw_new_def)
  ultimately show thesis
    using that [of "snd ?p"] pson_fits_out(1) [OF assms] by (metis prod.collapse)
qed

lemma decode_encoded:
  assumes "pson_fits v"
  obtains r where
    "decode (mr_new (snd (pson_out v) @ rest) (length (snd (pson_out v) @ rest))) v0 = (True, pson_norm v, r)"
    and "mr_bytes_read r = length (snd (pson_out v))"
proof -
  let ?bs = "snd (pson_out v)"
  let ?r0 = "mr_new (?bs @ rest) (length (?bs @ rest))"
  have "reads_to (decode ?r0 v0) (pson_norm v) rest"
    using assms by (intro decode_reads(1)) simp_all
  then obtain r where r: "decode ?r0 v0 = (True, pson_norm v, r)" "mr_unread r = rest" "mr_ok r"
    by (auto simp: reads_to_def)
  from decode_within(1) [OF r(1)] have "mr_size r = length (?bs @ rest)" and "mr_buffer r = ?bs @ rest"
    by (auto simp: within_def mr_later_def mr_new_def)
  then have "length (mr_unread r) = length (?bs @ rest) - mr_pos r" and "mr_pos r \<le> length (?bs @ rest)"
    using r(3) by (auto simp: mr_unread_def mr_ok_def)
  with r(2) have "mr_bytes_read r = length ?bs" by (simp add: mr_bytes_read_def)
  with r(1) that show thesis by blast
qed

section \<open>Properties\<close>

text \<open>C19: the PSON decoder is safe on arbitrary input. It returns on every reader; whether or not it
  succeeds, it has stayed inside the memory it was given and has not moved backwards, and a successful
  decode holds at most one value or key for each octet consumed, however large the counts in the input.\<close>

theorem pson_decode_safe:
  assumes "mr_ok r" and "decode r v = (ok, v', r')"
  shows "mr_buffer r' = mr_buffer r \<and> mr_size r' = mr_size r \<and> mr_pos r \<le> mr_pos r' \<and>
    mr_pos r' \<le> mr_size r \<and> (ok \<longrightarrow> j_nodes v' \<le> mr_pos r' - mr_pos r)"
  using decode_within(1) [OF assms(2)] assms(1)
  by (auto simp: within_def mr_later_def mr_ok_def)

theorem pson_decode_safe_witness:
  "mr_ok (mr_new [0xE2, 0x05, 0x62] 3) \<and>
   j_nodes (fst (snd (decode (mr_new [0xE2, 0x05, 0x62] 3) JNull))) \<le> 3"
proof -
  have ok: "mr_ok (mr_new [0xE2, 0x05, 0x62] 3)" by simp
  have d: "decode (mr_new [0xE2, 0x05, 0x62] 3) JNull =
      (True, JArr [JUInt 5, JNull], (mr_new [0xE2, 0x05, 0x62] 3)\<lparr>mr_pos := 3\<rparr>)"
    by code_simp
  from pson_decode_safe [OF ok d] ok d show ?thesis by (simp add: mr_new_def)
qed

text \<open>C2: the PSON round trip. Encoding a value into a string and decoding from it, whatever octets follow,
  succeeds, consumes exactly the octets written and yields the value with integers in their canonical kind,
  integral doubles as integers and strings cut at their first NUL.\<close>

theorem pson_roundtrip:
  assumes "pson_fits v" and "encode sw_write (sw_new []) v = (ok, w)"
  shows "ok \<and> (\<exists>r. decode (mr_new (sw_string w @ rest) (length (sw_string w @ rest))) v0 =
      (True, pson_norm v, r) \<and> mr_bytes_read r = sw_written w)"
proof -
  from assms have w: "ok" "sw_string w = snd (pson_out v)" "sw_written w = length (snd (pson_out v))"
    by (auto elim!: encode_string_writer)
  obtain r where "decode (mr_new (sw_string w @ rest) (length (sw_string w @ rest))) v0 = (True, pson_norm v, r)"
    and "mr_bytes_read r = sw_written w"
    using decode_encoded [OF assms(1), of rest v0] w by metis
  with w(1) show ?thesis by blast
qed

theorem pson_roundtrip_witness:
  "pson_norm (JArr [JInt 7, JStr [CHR ''a'', CHR 0x00, CHR ''b'']]) = JArr [JUInt 7, JStr ''a''] \<and>
   (\<exists>r. decode (mr_new [0xE2, 0x07, 0x81, 0x61, 0x40] 5) JNull =
      (True, JArr [JUInt 7, JStr ''a''], r) \<and> mr_bytes_read r = 4)"
proof -
  let ?v = "JArr [JInt 7, JStr [CHR ''a'', CHR 0x00, CHR ''b'']]"
  have fits: "pson_fits ?v" by (simp add: c_str_def max_u32_def)
  have norm: "pson_norm ?v = JArr [JUInt 7, JStr ''a'']" by code_simp
  have enc: "encode sw_write (sw_new []) ?v = (True, \<lparr>sw_string = [0xE2, 0x07, 0x81, 0x61], sw_written = 4\<rparr>)"
    by code_simp
  from pson_roundtrip [OF fits enc, of "[0x40]" JNull] norm show ?thesis
    by (simp del: pson_norm.simps add: numeral_eq_Suc)
qed

text \<open>A canonical value (ordered keys, no NUL in strings, no nonnegative value of signed kind, no
  integral double) comes back from the encoder and decoder exactly as it was.\<close>

theorem pson_roundtrip_exact:
  assumes "pson_fits v" and "pson_canonical v"
  shows "\<exists>w r. encode sw_write (sw_new []) v = (True, w) \<and>
    decode (mr_new (sw_string w) (sw_written w)) v0 = (True, v, r) \<and> mr_bytes_read r = sw_written w"
proof -
  obtain w where w: "encode sw_write (sw_new []) v = (True, w)" "sw_string w = snd (pson_out v)"
    "sw_written w = length (snd (pson_out v))"
    by (rule encode_string_writer [OF assms(1)])
  from decode_encoded [OF assms(1), of "[]" v0] w pson_norm_canonical(1) [OF assms(2)] show ?thesis
    by fastforce
qed

theorem pson_roundtrip_exact_witness:
  "\<exists>w r. encode sw_write (sw_new []) (JObj [(''a'', JInt (- 40)), (''b'', JArr [JFloat 0x3FF8000000000000])]) = (True, w) \<and>
    decode (mr_new (sw_string w) (sw_written w)) JNull =
      (True, JObj [(''a'', JInt (- 40)), (''b'', JArr [JFloat 0x3FF8000000000000])], r) \<and>
    mr_bytes_read r = sw_written w"
proof (rule pson_roundtrip_exact)
  show "pson_fits (JObj [(''a'', JInt (- 40)), (''b'', JArr [JFloat 0x3FF8000000000000])])"
    by (simp add: c_str_def max_u32_def)
  have "\<not> i64_eq_dbl (dbl_to_i64 0x3FF8000000000000) 0x3FF8000000000000"
    by (simp add: i64_eq_dbl_def dbl_has_fraction_def dbl_shift_def dbl_mant_def dbl_exp_def
        dbl_frac_def Let_def)
  then show "pson_canonical (JObj [(''a'', JInt (- 40)), (''b'', JArr [JFloat 0x3FF8000000000000])])"
    by (simp add: sm_ok_def)
qed

text \<open>The sizing pass is right. The count a \<open>null_writer\<close> reaches for a value is the number
  of octets the string writer appends for it, and both report the same success.\<close>

theorem pson_sizer_exact:
  "fst (encode nw_write nw_new v) = fst (encode sw_write (sw_new s) v) \<and>
   length (sw_string (snd (encode sw_write (sw_new s) v))) =
     length s + nw_written (snd (encode nw_write nw_new v))"
  using sw.recd.emits_encode(1) [of "sw_new s" v] nw.count.emits_encode(1) [of nw_new v]
  by (simp add: sw.recd.emits_def nw.count.emits_def sw_new_def nw_new_def)

end
