(* ===== verification/Iotmp_Codec.thy ===== *)
theory Iotmp_Codec
  imports Iotmp_Message Pson_Correct
begin

text \<open>
  The IOTMP encoder and decoder: \<^verbatim>\<open>core/iotmp_encoder.hpp\<close> and \<^verbatim>\<open>core/iotmp_decoder.hpp\<close>.
  A frame is the message type and the body size as varints, then one tagged field after the
  other. Numbers travel as varints and everything else as PSON. The encoder ignores the results of
  its writes; the decoder fills the message as it goes and keeps what it had when it fails.
\<close>

section \<open>The encoder\<close>

text \<open>\<open>wire_type\<close>\<close>

definition WT_VARINT :: byte where "WT_VARINT = 0"
definition WT_PSON_V1 :: byte where "WT_PSON_V1 = 1"
definition WT_PSON_V2 :: byte where "WT_PSON_V2 = 2"

function ie_write_varint :: "('w \<Rightarrow> byte list \<Rightarrow> bool \<times> 'w) \<Rightarrow> 'w \<Rightarrow> u64 \<Rightarrow> 'w" where
  "ie_write_varint wr w v =
     (let b = ucast (v AND 0x7F) :: byte;
          v' = drop_bit 7 v;
          w' = snd (wr w [if v' > 0 then b OR 0x80 else b])
      in if v' > 0 then ie_write_varint wr w' v' else w')"
  by pat_completeness auto

termination
  by (relation "measure (\<lambda>(_, _, v). unat v)") (auto dest: drop_bit_7_less)

declare ie_write_varint.simps [simp del]

definition ie_encode_field :: "('w \<Rightarrow> byte list \<Rightarrow> bool \<times> 'w) \<Rightarrow> 'w \<Rightarrow> byte \<Rightarrow> byte \<Rightarrow> 'w" where
  "ie_encode_field wr w wt f = snd (wr w [push_bit 3 f OR wt])"

text \<open>One round of the loop over the fields.\<close>

fun ie_encode_value :: "('w \<Rightarrow> byte list \<Rightarrow> bool \<times> 'w) \<Rightarrow> 'w \<Rightarrow> byte \<Rightarrow> json \<Rightarrow> 'w" where
  "ie_encode_value wr w f (JUInt u) = ie_write_varint wr (ie_encode_field wr w WT_VARINT f) u"
| "ie_encode_value wr w f (JInt i) =
     ie_write_varint wr (ie_encode_field wr w WT_VARINT f) (if 0 \<le> sint i then i else 0)"
| "ie_encode_value wr w f v = snd (encode wr (ie_encode_field wr w WT_PSON_V2 f) v)"

definition ie_encode :: "('w \<Rightarrow> byte list \<Rightarrow> bool \<times> 'w) \<Rightarrow> 'w \<Rightarrow> iotmp_message \<Rightarrow> 'w" where
  "ie_encode wr w m = fold (\<lambda>(f, v) w'. ie_encode_value wr w' f v) (msg_fields m) w"

text \<open>\<open>encode_message\<close>: the type is cut to an octet, the body is sized by a first pass.\<close>

definition encode_message :: "iotmp_message \<Rightarrow> byte list" where
  "encode_message m =
     (let body_size = nw_written (ie_encode nw_write nw_new m);
          w1 = ie_write_varint sw_write (sw_new []) (ucast (ucast (type_code (msg_type m)) :: byte));
          w2 = ie_write_varint sw_write w1 (word_of_nat body_size)
      in sw_string (ie_encode sw_write w2 m))"

definition encode_message_type :: "message_type \<Rightarrow> byte list" where
  "encode_message_type t =
     (let w1 = ie_write_varint sw_write (sw_new []) (ucast (ucast (type_code t) :: byte))
      in sw_string (ie_write_varint sw_write w1 0))"

section \<open>The decoder\<close>

definition id_decode_varint :: "memory_reader \<Rightarrow> u32 option \<times> memory_reader" where
  "id_decode_varint r = varint_loop mr_read r 0 0"

definition id_decode_field :: "memory_reader \<Rightarrow> (byte \<times> u32) option \<times> memory_reader" where
  "id_decode_field r =
     (case id_decode_varint r of
        (None, r') \<Rightarrow> (None, r')
      | (Some temp, r') \<Rightarrow> (Some (ucast (temp AND 0x07), drop_bit 3 temp), r'))"

lemma id_decode_varint_left:
  assumes "id_decode_varint r = (res, r')"
  shows "mr_left r' \<le> mr_left r" and "res \<noteq> None \<Longrightarrow> mr_left r' < mr_left r"
proof -
  show "mr_left r' \<le> mr_left r"
    using mr_varint_left [of r 0 0 res r'] assms by (simp add: id_decode_varint_def)
  assume res: "res \<noteq> None"
  show "mr_left r' < mr_left r"
  proof (cases "mr_read r 1")
    case None
    with assms res show ?thesis by (simp add: id_decode_varint_def varint_loop.simps)
  next
    case (Some p)
    then obtain bs r1 where r1: "mr_read r 1 = Some (bs, r1)" by (cases p) auto
    from mr_read_left [OF r1] have "mr_left r1 < mr_left r" by simp
    with assms r1 show ?thesis
      by (auto simp: id_decode_varint_def varint_loop.simps [of mr_read r] Let_def
          split: if_splits dest!: mr_varint_left)
  qed
qed

text \<open>
  The loop of \<open>decode\<close>: \<open>size - (bytes_read() - start_read) > 0\<close> on \<open>size_t\<close> is an inequality,
  so a field that overruns \<open>sz\<close> does not end it. A field number is cut to the
  \<open>uint8_t\<close> key of the map.
\<close>

function id_decode_from :: "nat \<Rightarrow> memory_reader \<Rightarrow> iotmp_message \<Rightarrow> nat
    \<Rightarrow> bool \<times> iotmp_message \<times> memory_reader" where
  "id_decode_from start r m sz =
     (if sz = mr_bytes_read r - start then (True, m, r)
      else case id_decode_field r of
        (None, r1) \<Rightarrow> (False, m, r1)
      | (Some (wt, field_number), r1) \<Rightarrow>
          (let f = ucast field_number :: byte in
           if wt = WT_VARINT then
             (case id_decode_varint r1 of
                (None, r2) \<Rightarrow> (False, m, r2)
              | (Some v, r2) \<Rightarrow> id_decode_from start r2 (set_field f (JUInt (ucast v)) m) sz)
           else if wt = WT_PSON_V2 then
             (case decode r1 (const_field f m) of
                (False, v, r2) \<Rightarrow> (False, set_field f v m, r2)
              | (True, v, r2) \<Rightarrow> id_decode_from start r2 (set_field f v m) sz)
           else (False, m, r1)))"
  by pat_completeness auto

lemma decode_left_le: "decode r v = (ok, v', r') \<Longrightarrow> mr_left r' \<le> mr_left r"
  using decode_within(1) [of r v ok v' r'] by (auto simp: within_def mr_later_def mr_left_def)

lemma id_decode_field_left:
  "id_decode_field r = (Some p, r') \<Longrightarrow> mr_left r' < mr_left r"
  by (auto simp: id_decode_field_def split: prod.splits option.splits dest: id_decode_varint_left(2))

termination id_decode_from
proof (relation "measure (\<lambda>(_, r, _, _). mr_left r)", goal_cases)
  case 1
  show ?case by simp
next
  case (2 start r m sz p r1 q wt n f a r2 v)
  then show ?case
    using id_decode_field_left [of r q r1] id_decode_varint_left(1) [of r1 "Some v" r2] by auto
next
  case (3 start r m sz p r1 q wt n f ok y v r2)
  then have "mr_left r1 < mr_left r" and "mr_left r2 \<le> mr_left r1"
    using id_decode_field_left [of r q r1] decode_left_le [of r1 "const_field f m" ok v r2] by auto
  then show ?case by simp
qed

declare id_decode_from.simps [simp del]

definition id_decode :: "memory_reader \<Rightarrow> iotmp_message \<Rightarrow> nat \<Rightarrow> bool \<times> iotmp_message \<times> memory_reader" where
  "id_decode r m sz = id_decode_from (mr_bytes_read r) r m sz"

section \<open>The wire format of a message\<close>

fun field_bytes :: "byte \<times> json \<Rightarrow> byte list" where
  "field_bytes (f, JUInt u) = (push_bit 3 f OR WT_VARINT) # varint_bytes u"
| "field_bytes (f, JInt i) = (push_bit 3 f OR WT_VARINT) # varint_bytes (if 0 \<le> sint i then i else 0)"
| "field_bytes (f, v) = (push_bit 3 f OR WT_PSON_V2) # snd (pson_out v)"

definition body_bytes :: "(byte \<times> json) list \<Rightarrow> byte list" where
  "body_bytes fs = concat (map field_bytes fs)"

context writes
begin

lemma wrote_wr: "wrote w bs (snd (wr w bs))"
  using wr_wrote by simp

lemma wrote_ie_varint: "wrote w (varint_bytes v) (ie_write_varint wr w v)"
proof (induction v arbitrary: w rule: varint_bytes.induct)
  case (1 v)
  define b where "b = (ucast (v AND 0x7F) :: byte)"
  show ?case
  proof (cases "drop_bit 7 v = 0")
    case True
    then show ?thesis
      using wrote_wr [of w "[b]"] by (simp add: varint_bytes.simps [of v] ie_write_varint.simps [of wr w v] b_def)
  next
    case False
    let ?w = "snd (wr w [b OR 0x80])"
    from False have "wrote ?w (varint_bytes (drop_bit 7 v)) (ie_write_varint wr ?w (drop_bit 7 v))"
      by (rule "1.IH")
    with wrote_wr [of w "[b OR 0x80]"]
    have "wrote w ([b OR 0x80] @ varint_bytes (drop_bit 7 v)) (ie_write_varint wr ?w (drop_bit 7 v))"
      by (rule wrote_append)
    with False show ?thesis
      by (simp add: varint_bytes.simps [of v] ie_write_varint.simps [of wr w v] b_def word_gt_0)
  qed
qed

lemma wrote_field: "wrote w (field_bytes (f, v)) (ie_encode_value wr w f v)"
proof -
  have tag: "wrote w [push_bit 3 f OR t] (ie_encode_field wr w t f)" for t
    by (simp add: ie_encode_field_def wrote_wr)
  have pson: "wrote w ([push_bit 3 f OR t] @ snd (pson_out v)) (snd (encode wr (ie_encode_field wr w t f) v))" for t
    using tag emits_encode(1) [unfolded emits_def] by (blast intro: wrote_append)
  have num: "wrote w ([push_bit 3 f OR t] @ varint_bytes u) (ie_write_varint wr (ie_encode_field wr w t f) u)" for t u
    using tag wrote_ie_varint by (rule wrote_append)
  show ?thesis
    using pson num by (cases v) (simp_all only: field_bytes.simps ie_encode_value.simps append_Cons append_Nil)
qed

lemma wrote_body: "wrote w (body_bytes (msg_fields m)) (ie_encode wr w m)"
proof -
  have "wrote w (body_bytes fs) (fold (\<lambda>(f, v) w'. ie_encode_value wr w' f v) fs w)" for fs
    by (induction fs arbitrary: w) (auto simp: body_bytes_def intro: wrote_nil wrote_append wrote_field)
  then show ?thesis by (simp add: ie_encode_def)
qed

end

lemma encode_message_bytes:
  "encode_message m = varint_bytes (ucast (ucast (type_code (msg_type m)) :: byte)) @
     varint_bytes (word_of_nat (length (body_bytes (msg_fields m)))) @ body_bytes (msg_fields m)"
  using nw.count.wrote_body [of nw_new m]
  by (simp add: encode_message_def Let_def sw.recd.wrote_ie_varint sw.recd.wrote_body sw_new_def nw_new_def)

lemma encode_message_type_bytes:
  "encode_message_type t = varint_bytes (ucast (ucast (type_code t) :: byte)) @ varint_bytes 0"
  by (simp add: encode_message_type_def Let_def sw.recd.wrote_ie_varint sw_new_def)

end
