(* ===== verification/Iotmp_Roundtrip.thy ===== *)
theory Iotmp_Roundtrip
  imports Iotmp_Codec
begin

text \<open>
  What the IOTMP decoder makes of the frames the encoder writes, and of any other input.
\<close>

section \<open>Reading one field\<close>

definition field_norm :: "json \<Rightarrow> json" where
  "field_norm v =
     (case v of
        JInt i \<Rightarrow> JUInt (if 0 \<le> sint i then i else 0)
      | _ \<Rightarrow> pson_norm v)"

definition max_field_value :: u64 where
  "max_field_value = 0xFFFFFFFF"

text \<open>The values a field carries faithfully: the decoder reads numbers as 32-bit varints.\<close>

definition field_fits :: "json \<Rightarrow> bool" where
  "field_fits v =
     (case v of
        JUInt u \<Rightarrow> u \<le> max_field_value
      | JInt i \<Rightarrow> i \<le> max_field_value \<or> sint i < 0
      | _ \<Rightarrow> pson_fits v)"

text \<open>A tag of one octet has room for a field number below 16.\<close>

lemma bit_below:
  fixes m :: "'a::len word"
  assumes "unat m < 2 ^ k" and "bit m n"
  shows "n < k"
proof -
  have "take_bit k (unat m) = unat m" using assms(1) by (rule take_bit_nat_eq_self)
  then have "unat (take_bit k m) = unat m" by (simp only: unsigned_take_bit_eq)
  then have "take_bit k m = m" by (rule unsigned_word_eqI)
  with assms(2) show ?thesis by (metis bit_take_bit_iff)
qed

lemma field_tag_octet:
  assumes "f < 16" and "wt = WT_VARINT \<or> wt = WT_PSON_V2"
  shows "\<not> 0x80 \<le> push_bit 3 f OR wt"
    and "ucast ((ucast ((push_bit 3 f OR wt) AND 0x7F) :: u32) AND 0x07) = wt"
    and "ucast (drop_bit 3 (ucast ((push_bit 3 f OR wt) AND 0x7F) :: u32)) = f"
proof -
  have f: "bit f n \<Longrightarrow> n < 4" for n
    using assms(1) by (intro bit_below [of f 4]) (simp_all add: word_less_nat_alt)
  have w: "bit wt n \<Longrightarrow> n < 3" for n
    using assms(2) by (intro bit_below [of wt 3]) (auto simp: WT_VARINT_def WT_PSON_V2_def)
  have m: "(0x7F :: byte) = mask 7" "(0x07 :: u32) = mask 3"
    by (simp_all add: mask_eq_exp_minus_1)
  show "\<not> 0x80 \<le> push_bit 3 f OR wt"
    unfolding byte_high_bit by (auto simp: bit_simps dest: f w)
  show "ucast ((ucast ((push_bit 3 f OR wt) AND 0x7F) :: u32) AND 0x07) = wt"
    unfolding m by (rule bit_word_eqI) (auto simp: bit_simps dest: f w)
  show "ucast (drop_bit 3 (ucast ((push_bit 3 f OR wt) AND 0x7F) :: u32)) = f"
    unfolding m by (rule bit_word_eqI) (auto simp: bit_simps add.commute dest: f w)
qed

lemma id_decode_varint_later: "id_decode_varint r = (res, r') \<Longrightarrow> mr_later r r'"
  unfolding id_decode_varint_def by (rule varint_loop_later)

lemma id_decode_field_later: "id_decode_field r = (res, r') \<Longrightarrow> mr_later r r'"
  by (auto simp: id_decode_field_def split: prod.splits option.splits dest: id_decode_varint_later)

lemma decode_later: "decode r v = (ok, v', r') \<Longrightarrow> mr_later r r'"
  using decode_within(1) [of r v ok v' r'] by (simp add: within_def)

lemma id_decode_field_reads:
  assumes "mr_ok r" and "mr_unread r = (push_bit 3 f OR wt) # rest" and "f < 16"
    and "wt = WT_VARINT \<or> wt = WT_PSON_V2"
  obtains n r' where "id_decode_field r = (Some (wt, n), r')" and "ucast n = f"
    and "mr_unread r' = rest" and "mr_ok r'" and "mr_later r r'"
proof -
  note tag = field_tag_octet [OF assms(3,4)]
  from assms(1,2) obtain r' where r': "mr_read r 1 = Some ([push_bit 3 f OR wt], r')"
    "mr_unread r' = rest" "mr_ok r'" by (rule mr.rd_Cons)
  have v: "id_decode_varint r = (Some (ucast ((push_bit 3 f OR wt) AND 0x7F)), r')"
    unfolding id_decode_varint_def
    using r'(1) tag(1) by (subst varint_loop.simps) (simp add: Let_def)
  then have "id_decode_field r =
      (Some (wt, drop_bit 3 (ucast ((push_bit 3 f OR wt) AND 0x7F) :: u32)), r')"
    using tag(2) by (simp add: id_decode_field_def)
  with that tag(3) r' id_decode_varint_later [OF v] show thesis by blast
qed

lemma id_decode_varint_reads:
  assumes "mr_ok r" and "mr_unread r = varint_bytes u @ rest" and "u \<le> max_field_value"
  obtains r' where "id_decode_varint r = (Some (ucast u), r')" and "mr_unread r' = rest"
    and "mr_ok r'" and "mr_later r r'" and "ucast (ucast u :: u32) = u"
proof -
  have u: "(ucast (ucast u :: u32) :: u64) = u"
  proof (rule unsigned_word_eqI)
    have "unat u < 2 ^ 32"
      using assms(3) by (simp add: max_field_value_def word_le_nat_alt)
    then show "unat (ucast (ucast u :: u32) :: u64) = unat u"
      by (simp add: unsigned_ucast_eq unsigned_take_bit_eq take_bit_nat_eq_self)
  qed
  with assms mr.varint_loop_reads [of r 0 "ucast u :: u32" rest]
  obtain r' where r': "id_decode_varint r = (Some (ucast u), r')" "mr_unread r' = rest" "mr_ok r'"
    by (auto simp: id_decode_varint_def)
  with that u id_decode_varint_later [OF r'(1)] show thesis by blast
qed

section \<open>Reading a body\<close>

definition reads_fields :: "bool \<times> iotmp_message \<times> memory_reader \<Rightarrow> iotmp_message \<Rightarrow> bool" where
  "reads_fields p m \<longleftrightarrow> (\<exists>r'. p = (True, m, r') \<and> mr_unread r' = [])"

lemma mr_unread_Nil_iff: "mr_ok r \<Longrightarrow> mr_unread r = [] \<longleftrightarrow> mr_pos r = mr_size r"
  by (auto simp: mr_unread_def mr_ok_def)

lemma id_decode_from_reads:
  assumes "mr_ok r" and "start \<le> mr_pos r" and "sz = mr_size r - start"
    and "mr_unread r = body_bytes fs"
    and "\<forall>(f, v) \<in> set fs. f < 16 \<and> field_fits v"
  shows "reads_fields (id_decode_from start r m sz) (fold (\<lambda>(f, v). set_field f (field_norm v)) fs m)"
  using assms
proof (induction fs arbitrary: r m)
  case Nil
  then have "sz = mr_bytes_read r - start"
    using mr_unread_Nil_iff [of r] by (simp add: body_bytes_def mr_bytes_read_def)
  with Nil show ?case
    by (subst id_decode_from.simps) (simp add: reads_fields_def body_bytes_def)
next
  case (Cons p fs)
  obtain f v where p: "p = (f, v)" by fastforce
  define bs where "bs = body_bytes fs"
  have unread: "mr_unread r = field_bytes (f, v) @ bs"
    using Cons.prems(4) by (simp add: p bs_def body_bytes_def)
  have "field_bytes (f, v) \<noteq> []" by (cases "(f, v)" rule: field_bytes.cases) auto
  with unread have "mr_unread r \<noteq> []" by simp
  then have go: "sz \<noteq> mr_bytes_read r - start"
    using Cons.prems(1,2,3) mr_unread_Nil_iff [of r] by (auto simp: mr_ok_def mr_bytes_read_def)
  have f: "f < 16" and v: "field_fits v" using Cons.prems(5) p by auto
  have rest: "reads_fields (id_decode_from start r2 m2 sz) (fold (\<lambda>(f, v). set_field f (field_norm v)) fs m2)"
    if "mr_ok r2" "mr_unread r2 = bs" "mr_later r r2" for r2 m2
    using that Cons.prems(2,3,5) by (intro Cons.IH) (auto simp: mr_later_def bs_def)
  show ?case
  proof (cases "\<exists>u. mr_unread r = (push_bit 3 f OR WT_VARINT) # varint_bytes u @ bs \<and>
      u \<le> max_field_value \<and> field_norm v = JUInt u")
    case True
    then obtain u where u: "mr_unread r = (push_bit 3 f OR WT_VARINT) # (varint_bytes u @ bs)"
      "u \<le> max_field_value" "field_norm v = JUInt u" by blast
    obtain n r1 where r1: "id_decode_field r = (Some (WT_VARINT, n), r1)" "ucast n = f"
      "mr_unread r1 = varint_bytes u @ bs" "mr_ok r1" "mr_later r r1"
      using id_decode_field_reads [OF Cons.prems(1) u(1) f] by blast
    from r1(4,3) u(2) obtain r2 where r2: "id_decode_varint r1 = (Some (ucast u), r2)" "mr_unread r2 = bs"
      "mr_ok r2" "mr_later r1 r2" "ucast (ucast u :: u32) = u" by (rule id_decode_varint_reads)
    have "id_decode_from start r m sz = id_decode_from start r2 (set_field f (JUInt u) m) sz"
      using go r1 r2 by (subst id_decode_from.simps) (simp add: Let_def)
    with rest [OF r2(3,2) mr_later_trans [OF r1(5) r2(4)], of "set_field f (JUInt u) m"] u(3) p
    show ?thesis by simp
  next
    case False
    then have "mr_unread r = (push_bit 3 f OR WT_PSON_V2) # (snd (pson_out v) @ bs)"
      and fits: "pson_fits v" and norm: "field_norm v = pson_norm v"
      using unread v
      by (cases v; auto simp: field_fits_def field_norm_def max_field_value_def)+
    from id_decode_field_reads [OF Cons.prems(1) this(1) f]
    obtain n r1 where r1: "id_decode_field r = (Some (WT_PSON_V2, n), r1)" "ucast n = f"
      "mr_unread r1 = snd (pson_out v) @ bs" "mr_ok r1" "mr_later r r1" by blast
    from decode_reads(1) [OF r1(4,3) fits, of "const_field f m"]
    obtain r2 where r2: "decode r1 (const_field f m) = (True, pson_norm v, r2)" "mr_unread r2 = bs" "mr_ok r2"
      by (auto simp: reads_to_def)
    have "WT_PSON_V2 \<noteq> WT_VARINT" by (simp add: WT_PSON_V2_def WT_VARINT_def)
    then have "id_decode_from start r m sz = id_decode_from start r2 (set_field f (pson_norm v) m) sz"
      using go r1 r2 by (subst id_decode_from.simps) (simp add: Let_def)
    with rest [OF r2(3,2) mr_later_trans [OF r1(5) decode_later [OF r2(1)]],
        of "set_field f (pson_norm v) m"] norm p
    show ?thesis by simp
  qed
qed

text \<open>Filling a message from distinct fields gives those fields.\<close>

lemma fold_set_fields:
  assumes "distinct (map fst (msg_fields m) @ map fst fs)"
  shows "fold (\<lambda>(f, v). set_field f (g v)) fs m =
    m\<lparr>msg_fields := msg_fields m @ map (\<lambda>(f, v). (f, g v)) fs\<rparr>"
  using assms
proof (induction fs arbitrary: m)
  case Nil
  then show ?case by simp
next
  case (Cons p fs)
  obtain f v where p: "p = (f, v)" by fastforce
  have "f \<notin> fst ` set xs \<Longrightarrow> AList.update f w xs = xs @ [(f, w)]" for w and xs :: "(byte \<times> json) list"
    by (induction xs) auto
  with Cons p show ?case by (auto simp: set_field_def)
qed

end
