(* ===== verification/Framing.thy ===== *)
theory Framing
  imports Iotmp_Roundtrip
begin

text \<open>
  Reading messages off the connection: \<open>read_varint\<close> and \<open>read_message\<close> of \<^verbatim>\<open>client.hpp\<close>. The
  socket is not part of the sources; its \<open>read\<close> is the argument \<open>rd\<close>, which delivers exactly the number of octets asked for
  or an error, as the locale \<open>byte_reader\<close> states.
\<close>

section \<open>The operations\<close>

definition MAX_MESSAGE_SIZE :: u32 where
  "MAX_MESSAGE_SIZE = 256 * 1024"

text \<open>The width is checked after the octet is added, before the continuation flag is looked at.\<close>

function read_varint_from :: "('s \<Rightarrow> nat \<Rightarrow> (byte list \<times> 's) option) \<Rightarrow> 's \<Rightarrow> u32 \<Rightarrow> nat
    \<Rightarrow> u32 option \<times> 's" where
  "read_varint_from rd s v bit_pos =
     (case rd s 1 of
        None \<Rightarrow> (None, s)
      | Some (bs, s') \<Rightarrow>
          (let b = hd bs; v' = v OR push_bit bit_pos (ucast (b AND 0x7F)); pos' = bit_pos + 7 in
           if 32 \<le> pos' then (None, s')
           else if 0x80 \<le> b then read_varint_from rd s' v' pos' else (Some v', s')))"
  by pat_completeness auto
termination
  by (relation "measure (\<lambda>(_, _, _, pos). 32 - pos)") auto

declare read_varint_from.simps [simp del]

definition read_varint :: "('s \<Rightarrow> nat \<Rightarrow> (byte list \<times> 's) option) \<Rightarrow> 's \<Rightarrow> u32 option \<times> 's" where
  "read_varint rd s = read_varint_from rd s 0 0"

definition read_message :: "('s \<Rightarrow> nat \<Rightarrow> (byte list \<times> 's) option) \<Rightarrow> 's \<Rightarrow> iotmp_message option \<times> 's" where
  "read_message rd s =
     (case rd s 1 of
        None \<Rightarrow> (None, s)
      | Some (tb, s1) \<Rightarrow>
          (case read_varint rd s1 of
             (None, s2) \<Rightarrow> (None, s2)
           | (Some sz, s2) \<Rightarrow>
               if sz > MAX_MESSAGE_SIZE then (None, s2)
               else
                 let message = new_message (type_of (ucast (hd tb))) in
                 if sz > 0 then
                   (case rd s2 (unat sz) of
                      None \<Rightarrow> (None, s2)
                    | Some (read_buffer, s3) \<Rightarrow>
                        (case id_decode (mr_new read_buffer (unat sz)) message (unat sz) of
                           (_, message', _) \<Rightarrow> (Some message', s3)))
                 else (Some message, s2)))"

section \<open>The decoder on any input\<close>

text \<open>Whatever the octets, decoding stays within the buffer and keeps the fields a map.\<close>

lemma id_decode_from_safe:
  "id_decode_from start r m sz = (ok, m', r') \<Longrightarrow>
     mr_later r r' \<and> (msg_ok m \<longrightarrow> msg_ok m') \<and> msg_type m' = msg_type m"
proof (induction start r m sz arbitrary: ok m' r' rule: id_decode_from.induct)
  case (1 start r m sz)
  show ?case
  proof (cases "sz = mr_bytes_read r - start")
    case True
    with "1.prems" show ?thesis by (simp add: id_decode_from.simps)
  next
    case False
    obtain res r1 where f: "id_decode_field r = (res, r1)" by fastforce
    note l1 = id_decode_field_later [OF f]
    show ?thesis
    proof (cases res)
      case None
      with False f "1.prems" l1 show ?thesis by (simp add: id_decode_from.simps [of start r])
    next
      case (Some p)
      then obtain wt n where p: "res = Some (wt, n)" by (cases p) auto
      consider "wt = WT_VARINT" | "wt \<noteq> WT_VARINT" "wt = WT_PSON_V2" | "wt \<noteq> WT_VARINT" "wt \<noteq> WT_PSON_V2"
        by blast
      then show ?thesis
      proof cases
        case 1
        obtain v r2 where v: "id_decode_varint r1 = (v, r2)" by fastforce
        note l2 = mr_later_trans [OF l1 id_decode_varint_later [OF v]]
        show ?thesis
        proof (cases v)
          case None
          with False f p 1 v l2 "1.prems" show ?thesis
            by (simp add: id_decode_from.simps [of start r] Let_def)
        next
          case (Some u)
          have "id_decode_from start r2 (set_field (ucast n) (JUInt (ucast u)) m) sz = (ok, m', r')"
            using False f p 1 v Some "1.prems" by (simp add: id_decode_from.simps [of start r] Let_def)
          with "1.IH"(1) [OF False f [symmetric] p refl refl 1 v [symmetric] Some this] l2
          show ?thesis by (auto intro: mr_later_trans)
        qed
      next
        case 2
        obtain b v r2 where v: "decode r1 (const_field (ucast n) m) = (b, v, r2)" by (metis prod_cases3)
        note l2 = mr_later_trans [OF l1 decode_later [OF v]]
        show ?thesis
        proof (cases b)
          case False
          with \<open>sz \<noteq> _\<close> f p 2 v l2 "1.prems" show ?thesis
            by (auto simp: id_decode_from.simps [of start r] Let_def)
        next
          case True
          have "id_decode_from start r2 (set_field (ucast n) v m) sz = (ok, m', r')"
            using False f p 2 v True "1.prems" by (simp add: id_decode_from.simps [of start r] Let_def)
          with "1.IH"(2) [OF False f [symmetric] p refl refl 2 v [symmetric] _ refl this] l2 True
          show ?thesis by (auto intro: mr_later_trans)
        qed
      next
        case 3
        with False f p "1.prems" l1 show ?thesis
          by (simp add: id_decode_from.simps [of start r] Let_def)
      qed
    qed
  qed
qed

section \<open>Frames\<close>

definition msg_norm :: "iotmp_message \<Rightarrow> iotmp_message" where
  "msg_norm m = m\<lparr>msg_fields := map (\<lambda>(f, v). (f, field_norm v)) (msg_fields m)\<rparr>"

text \<open>A message a peer can send: a type of the protocol, field numbers the one-octet tag has room
  for, values the fields carry, and a body within the limit.\<close>

definition msg_fits :: "iotmp_message \<Rightarrow> bool" where
  "msg_fits m \<longleftrightarrow> type_named (msg_type m) \<and> type_of (type_code (msg_type m)) = msg_type m \<and> msg_ok m \<and>
     (\<forall>(f, v) \<in> set (msg_fields m). f < 16 \<and> field_fits v) \<and>
     length (encode_message m) \<le> unat MAX_MESSAGE_SIZE"

lemma unat_MAX: "unat MAX_MESSAGE_SIZE = 262144"
  by (simp add: MAX_MESSAGE_SIZE_def)

context byte_reader
begin

lemma read_varint_from_reads:
  assumes x: "unat (x :: u32) < 2 ^ 28"
  shows "invar s \<Longrightarrow> pos \<in> {0, 7, 14, 21} \<Longrightarrow> unread s = varint_bytes (ucast (drop_bit pos x)) @ rest \<Longrightarrow>
     \<exists>s'. read_varint_from rd s (take_bit pos x) pos = (Some x, s') \<and> unread s' = rest \<and> invar s'"
proof (induction "32 - pos" arbitrary: pos s rule: less_induct)
  case less
  define v where "v = (ucast (drop_bit pos x) :: u64)"
  define b where "b = (ucast (v AND 0x7F) :: byte)"
  have len: "LENGTH(32) \<le> 64" by simp
  note octet = varint_octet [of v, folded b_def]
  have acc: "take_bit pos x OR push_bit pos (ucast b) = take_bit (pos + 7) x"
    using take_bit_step [OF len, of pos x] by (simp add: b_def v_def)
  have v7: "drop_bit 7 v = ucast (drop_bit (pos + 7) x)"
    using drop_bit_ucast_step [OF len, of pos x] by (simp add: v_def)
  from less.prems(2) have pos: "\<not> 32 \<le> pos + 7" by auto
  show ?case
  proof (cases "drop_bit 7 v = 0")
    case True
    then have "unread s = b # rest"
      using less.prems(3) by (simp add: v_def [symmetric] varint_bytes.simps [of v] b_def)
    with less.prems(1) obtain s' where s': "rd s 1 = Some ([b], s')" "unread s' = rest" "invar s'"
      by (rule rd_Cons)
    from True v7 have "drop_bit (pos + 7) x = 0" using ucast_u64_eq_0 [OF len] by metis
    then have "take_bit (pos + 7) x = x" by (simp add: take_bit_eq_self_iff_drop_bit_eq_0)
    then show ?thesis
      using s' pos octet acc by (subst read_varint_from.simps) (simp add: Let_def)
  next
    case False
    then have "unread s = (b OR 0x80) # (varint_bytes (drop_bit 7 v) @ rest)"
      using less.prems(3) by (simp add: v_def [symmetric] varint_bytes.simps [of v] b_def)
    with less.prems(1) obtain s' where s': "rd s 1 = Some ([b OR 0x80], s')"
      "unread s' = varint_bytes (ucast (drop_bit (pos + 7) x)) @ rest" "invar s'"
      unfolding v7 by (rule rd_Cons)
    have "pos \<noteq> 21"
    proof
      assume "pos = 21"
      with False v7 have "drop_bit 28 x \<noteq> 0" by auto
      moreover have "unat (drop_bit 28 x) = unat x div 2 ^ 28"
        by (subst unat_drop_bit_eq) (simp add: drop_bit_eq_div)
      ultimately show False using x by (metis div_less unsigned_eq_0_iff)
    qed
    with less.prems(2) have p7: "pos + 7 \<in> {0, 7, 14, 21}" and "32 - (pos + 7) < 32 - pos" by auto
    from less.hyps [OF this(2) s'(3) p7 s'(2)] obtain s'' where
      "read_varint_from rd s' (take_bit (pos + 7) x) (pos + 7) = (Some x, s'')"
      "unread s'' = rest" "invar s''" by blast
    then show ?thesis
      using s' pos octet acc by (subst read_varint_from.simps) (simp add: Let_def)
  qed
qed

lemma read_varint_reads:
  assumes "invar s" and "unread s = varint_bytes (word_of_nat n) @ rest" and "n < 2 ^ 28"
  obtains s' where "read_varint rd s = (Some (word_of_nat n), s')" and "unread s' = rest" and "invar s'"
proof -
  have n: "unat (word_of_nat n :: u32) = n" using assms(3) by (intro unat_word_of_nat_eq) simp
  have "unat (ucast (word_of_nat n :: u32) :: u64) = unat (word_of_nat n :: u64)"
    using assms(3) n by (simp add: unsigned_ucast_eq unat_word_of_nat_eq take_bit_nat_eq_self)
  then have u: "ucast (word_of_nat n :: u32) = (word_of_nat n :: u64)" by (rule unsigned_word_eqI)
  with read_varint_from_reads [of "word_of_nat n" s 0 rest] assms n that show thesis
    by (auto simp: read_varint_def)
qed

end

lemma varint_bytes_small:
  assumes "b < 0x80"
  shows "varint_bytes (ucast (b :: byte)) = [b]"
proof -
  have b: "bit b n \<Longrightarrow> n < 7" for n
    using assms by (intro bit_below [of b 7]) (simp_all add: word_less_nat_alt)
  have m: "(0x7F :: u64) = mask 7" by (simp add: mask_eq_exp_minus_1)
  have "drop_bit 7 (ucast b :: u64) = 0"
    by (rule bit_word_eqI) (auto simp: bit_simps dest: b)
  moreover have "(ucast ((ucast b :: u64) AND 0x7F) :: byte) = b"
    unfolding m by (rule bit_word_eqI) (auto simp: bit_simps dest: b)
  ultimately show ?thesis by (simp add: varint_bytes.simps)
qed

text \<open>The type of the protocol travels in its one octet.\<close>

lemma type_octet:
  assumes "type_named t" and "type_of (type_code t) = t"
  shows "varint_bytes (ucast (ucast (type_code t) :: byte)) = [ucast (type_code t)]"
    and "type_of (ucast (ucast (type_code t) :: byte)) = t"
proof -
  have "unat (type_code t) \<le> 10" using assms(1) by (simp add: type_named_def word_le_nat_alt)
  then have "unat (type_code t) < 2 ^ 8" by simp
  then have u: "unat (ucast (type_code t) :: byte) = unat (type_code t)"
    unfolding unsigned_ucast_eq by (intro take_bit_nat_eq_self) simp
  with \<open>unat (type_code t) \<le> 10\<close> have "(ucast (type_code t) :: byte) < 0x80"
    unfolding word_less_nat_alt u by simp
  then show "varint_bytes (ucast (ucast (type_code t) :: byte)) = [ucast (type_code t)]"
    by (rule varint_bytes_small)
  have "unat (ucast (ucast (type_code t) :: byte) :: u32) =
      take_bit LENGTH(32) (unat (ucast (type_code t) :: byte))" by (rule unsigned_ucast_eq)
  also have "\<dots> = unat (type_code t)"
    unfolding u by (rule take_bit_nat_eq_self) (rule unsigned_less)
  finally have "ucast (ucast (type_code t) :: byte) = type_code t" by (rule unsigned_word_eqI)
  with assms(2) show "type_of (ucast (ucast (type_code t) :: byte)) = t" by simp
qed

lemma id_decode_body:
  assumes "msg_fits m"
  shows "\<exists>r. id_decode (mr_new (body_bytes (msg_fields m)) (length (body_bytes (msg_fields m))))
      (new_message (msg_type m)) (length (body_bytes (msg_fields m))) = (True, msg_norm m, r)"
proof -
  let ?fs = "msg_fields m"
  let ?n = "length (body_bytes ?fs)"
  let ?r = "mr_new (body_bytes ?fs) ?n"
  from assms have "distinct (map fst ?fs)" by (simp add: msg_fits_def msg_ok_def)
  then have "fold (\<lambda>(f, v). set_field f (field_norm v)) ?fs (new_message (msg_type m)) = msg_norm m"
    by (subst fold_set_fields) (simp_all add: new_message_def msg_norm_def)
  moreover have "reads_fields (id_decode_from 0 ?r (new_message (msg_type m)) ?n)
      (fold (\<lambda>(f, v). set_field f (field_norm v)) ?fs (new_message (msg_type m)))"
    using assms by (intro id_decode_from_reads) (auto simp: msg_fits_def, simp add: mr_new_def)
  ultimately show ?thesis
    by (auto simp: id_decode_def reads_fields_def mr_bytes_read_def mr_new_def)
qed

context byte_reader
begin

text \<open>A frame on the wire is read back as its message, up to the order-preserving normal form.\<close>

lemma read_message_frame:
  assumes "invar s" and "unread s = encode_message m @ rest" and fits: "msg_fits m"
  obtains s' where "read_message rd s = (Some (msg_norm m), s')" and "unread s' = rest" and "invar s'"
proof -
  define tb where "tb = (ucast (type_code (msg_type m)) :: byte)"
  define body where "body = body_bytes (msg_fields m)"
  have ty: "varint_bytes (ucast tb) = [tb]" "type_of (ucast tb) = msg_type m"
    using fits type_octet [of "msg_type m"] by (simp_all add: msg_fits_def tb_def)
  have enc: "encode_message m = tb # varint_bytes (word_of_nat (length body)) @ body"
    by (simp add: encode_message_bytes tb_def [symmetric] body_def [symmetric] ty)
  have n: "length body \<le> 262144" using fits by (simp add: msg_fits_def enc unat_MAX)
  have nw: "unat (word_of_nat (length body) :: u32) = length body"
    using n by (intro unat_word_of_nat_eq) simp
  have max: "\<not> (word_of_nat (length body) :: u32) > MAX_MESSAGE_SIZE"
    using n nw unat_MAX by (simp add: word_less_nat_alt)
  from assms(1,2) obtain s1 where s1: "rd s 1 = Some ([tb], s1)"
    "unread s1 = varint_bytes (word_of_nat (length body)) @ (body @ rest)" "invar s1"
    unfolding enc by (auto elim: rd_Cons)
  have "length body < 2 ^ 28" using n by simp
  with s1(3,2) obtain s2 where s2: "read_varint rd s1 = (Some (word_of_nat (length body)), s2)"
    "unread s2 = body @ rest" "invar s2" by (rule read_varint_reads)
  show thesis
  proof (cases "body = []")
    case True
    then have "msg_fields m = []"
      by (cases "msg_fields m") (auto simp: body_def body_bytes_def elim: field_bytes.elims)
    then have "msg_norm m = new_message (msg_type m)" by (simp add: msg_norm_def new_message_def)
    with True s1 s2 max ty that show thesis by (simp add: read_message_def Let_def)
  next
    case False
    then have pos: "(word_of_nat (length body) :: u32) > 0" by (simp add: word_less_nat_alt nw)
    from s2(3,2) obtain s3 where s3: "rd s2 (length body) = Some (body, s3)" "unread s3 = rest" "invar s3"
      by (rule rd_append)
    from id_decode_body [OF fits] obtain r where
      "id_decode (mr_new body (length body)) (new_message (msg_type m)) (length body) = (True, msg_norm m, r)"
      by (auto simp: body_def)
    with s1 s2 s3 max pos nw ty that show thesis by (simp add: read_message_def Let_def)
  qed
qed


lemma read_varint_from_consumes:
  "invar s \<Longrightarrow> read_varint_from rd s v pos = (Some x, s') \<Longrightarrow>
     invar s' \<and> (\<exists>pre. unread s = pre @ unread s' \<and> pos + 7 * length pre < 32)"
proof (induction "32 - pos" arbitrary: s v pos rule: less_induct)
  case less
  show ?case
  proof (cases "rd s 1")
    case None
    with less.prems show ?thesis by (simp add: read_varint_from.simps)
  next
    case (Some p)
    then obtain bs s1 where s1: "rd s 1 = Some (bs, s1)" by (cases p) auto
    note r1 = rd_Some [OF less.prems(1) s1]
    define v' where "v' = v OR push_bit pos (ucast (hd bs AND 0x7F))"
    have pos: "\<not> 32 \<le> pos + 7"
      using less.prems(2) s1 by (auto simp: read_varint_from.simps [of rd s] Let_def)
    show ?thesis
    proof (cases "0x80 \<le> hd bs")
      case True
      with less.prems(2) s1 pos have "read_varint_from rd s1 v' (pos + 7) = (Some x, s')"
        by (simp add: read_varint_from.simps [of rd s] Let_def v'_def)
      moreover from pos have "32 - (pos + 7) < 32 - pos" by linarith
      ultimately obtain pre where "invar s'" "unread s1 = pre @ unread s'"
        "pos + 7 + 7 * length pre < 32" using less.hyps r1(3) by blast
      with r1 show ?thesis by (intro conjI exI [of _ "bs @ pre"]) auto
    next
      case False
      with less.prems(2) s1 pos have "s' = s1" by (simp add: read_varint_from.simps [of rd s] Let_def)
      with r1 pos show ?thesis by auto
    qed
  qed
qed

text \<open>What a successful read takes off the connection is bounded, and it is a well-formed message.\<close>

lemma read_message_bounded:
  assumes "invar s" and "read_message rd s = (Some m, s')"
  shows "\<exists>frame. unread s = frame @ unread s' \<and> length frame \<le> 262144 + 5 \<and> msg_ok m \<and> invar s'"
proof -
  obtain tb s1 where s1: "rd s 1 = Some (tb, s1)"
    using assms(2) by (auto simp: read_message_def split: option.splits)
  note r1 = rd_Some [OF assms(1) s1]
  obtain sz s2 where s2: "read_varint rd s1 = (Some sz, s2)"
    using assms(2) s1 by (auto simp: read_message_def split: option.splits prod.splits)
  from read_varint_from_consumes [OF r1(3), of 0 0 sz s2] s2 obtain pre
    where r2: "invar s2" "unread s1 = pre @ unread s2" "7 * length pre < 32"
    by (auto simp: read_varint_def)
  have max: "\<not> sz > MAX_MESSAGE_SIZE"
    using assms(2) s1 s2 by (auto simp: read_message_def)
  then have szn: "unat sz \<le> 262144" using unat_MAX by (simp add: word_less_nat_alt)
  show ?thesis
  proof (cases "sz > 0")
    case True
    then obtain buf s3 where s3: "rd s2 (unat sz) = Some (buf, s3)"
      using assms(2) s1 s2 max by (auto simp: read_message_def Let_def split: option.splits)
    note r3 = rd_Some [OF r2(1) s3]
    obtain ok m' r' where d: "id_decode (mr_new buf (unat sz)) (new_message (type_of (ucast (hd tb)))) (unat sz) = (ok, m', r')"
      by (metis prod_cases3)
    have "m = m'" "s' = s3"
      using assms(2) s1 s2 max True s3 d by (auto simp: read_message_def Let_def)
    with id_decode_from_safe [OF d [unfolded id_decode_def]] r1 r2 r3 szn show ?thesis
      by (intro exI [of _ "tb @ pre @ buf"]) auto
  next
    case False
    then have "m = new_message (type_of (ucast (hd tb)))" "s' = s2"
      using assms(2) s1 s2 max by (auto simp: read_message_def Let_def)
    with r1 r2 show ?thesis by (intro exI [of _ "tb @ pre"]) auto
  qed
qed

end

text \<open>
  Message after message, as \<open>read_loop\<close> takes them off the connection. The list holds what \<open>running_ && connected_\<close>
  is each time the loop looks at it; the loop waits for ever after the last.
\<close>

fun read_messages :: "('s \<Rightarrow> nat \<Rightarrow> (byte list \<times> 's) option) \<Rightarrow> bool list \<Rightarrow> 's \<Rightarrow> iotmp_message list \<times> 's" where
  "read_messages rd [] s = ([], s)"
| "read_messages rd (go # gos) s =
     (if \<not> go then ([], s)
      else case read_message rd s of
        (None, s') \<Rightarrow> ([], s')
      | (Some m, s') \<Rightarrow> (case read_messages rd gos s' of (ms, s'') \<Rightarrow> (m # ms, s'')))"

context byte_reader
begin

lemma read_messages_frames:
  "invar s \<Longrightarrow> unread s = concat (map encode_message ms) @ rest \<Longrightarrow> \<forall>m \<in> set ms. msg_fits m \<Longrightarrow>
   \<exists>s'. read_messages rd (replicate (length ms) True) s = (map msg_norm ms, s') \<and> unread s' = rest \<and> invar s'"
proof (induction ms arbitrary: s)
  case Nil
  then show ?case by simp
next
  case (Cons m ms)
  from Cons.prems have "unread s = encode_message m @ (concat (map encode_message ms) @ rest)" "msg_fits m"
    by simp_all
  with Cons.prems(1) obtain s1 where s1: "read_message rd s = (Some (msg_norm m), s1)"
    "unread s1 = concat (map encode_message ms) @ rest" "invar s1" by (rule read_message_frame)
  from Cons.IH [OF s1(3,2)] Cons.prems(3) s1(1) show ?case by auto
qed

end

section \<open>Properties\<close>

text \<open>C1: framing is lossless. A sequence of messages of the protocol, each encoded by \<open>encode_message\<close> and
  sent one after the other over a connection that delivers octets in order, is read back message by
  message, in order and without eating into what follows; the fields are those sent, up to
  the normal form of their values. In particular the size in each header is the size of the body.\<close>

theorem frames_roundtrip:
  assumes "byte_reader rd unread invar" and "invar s"
    and "unread s = concat (map encode_message ms) @ rest" and "\<forall>m \<in> set ms. msg_fits m"
  shows "\<exists>s'. read_messages rd (replicate (length ms) True) s = (map msg_norm ms, s') \<and> unread s' = rest"
  using byte_reader.read_messages_frames [OF assms] by blast

theorem frames_roundtrip_witness:
  "\<exists>s'. read_messages mr_read [True, True] (mr_new [5, 0, 6, 6, 8, 0x2A, 0x22, 0x82, 0x68, 0x69, 0xFF] 11) =
     ([new_message KEEP_ALIVE,
       set_field RESOURCE (JStr ''hi'') (new_stream_message 42 RUN)], s') \<and> mr_unread s' = [0xFF]"
proof -
  let ?m = "set_field RESOURCE (JStr ''hi'') (new_stream_message 42 RUN)"
  let ?s = "mr_new [5, 0, 6, 6, 8, 0x2A, 0x22, 0x82, 0x68, 0x69, 0xFF] 11"
  have enc: "encode_message (new_message KEEP_ALIVE) = [5, 0]"
    "encode_message ?m = [6, 6, 8, 0x2A, 0x22, 0x82, 0x68, 0x69]"
    by code_simp+
  have fits: "msg_fits (new_message KEEP_ALIVE)" "msg_fits ?m"
    unfolding msg_fits_def enc unat_MAX
    by (simp_all add: new_message_def type_named_def type_of_def msg_ok_def new_stream_message_def
        set_stream_id_def set_field_def field_defs field_fits_def max_field_value_def c_str_def max_u32_def)
  have norm: "msg_norm (new_message KEEP_ALIVE) = new_message KEEP_ALIVE" "msg_norm ?m = ?m"
    by code_simp+
  have "mr_ok ?s" and "mr_unread ?s = concat (map encode_message [new_message KEEP_ALIVE, ?m]) @ [0xFF]"
    by (simp_all add: enc)
  from frames_roundtrip [OF mr.byte_reader_axioms this] fits norm show ?thesis by simp
qed

text \<open>C21: no frame makes the client take more than its limit. Whatever the peer sends, a message that
  \<open>read_message\<close> delivers has used up a prefix of the input of at most 5 octets of header and 262144 of body,
  leaves the connection right behind that prefix, and holds each field once.\<close>

theorem read_message_limit:
  assumes "byte_reader rd unread invar" and "invar s" and "read_message rd s = (Some m, s')"
  shows "\<exists>frame. unread s = frame @ unread s' \<and> length frame \<le> 262144 + 5 \<and> msg_ok m"
  using byte_reader.read_message_bounded [OF assms] by blast

theorem read_message_limit_witness:
  "\<exists>frame. [6, 2, 0x22, 0xFF, 7] = frame @ [7::byte] \<and> length frame \<le> 262144 + 5 \<and>
     msg_ok (set_field RESOURCE JNull (new_message RUN))"
proof -
  let ?s = "mr_new [6, 2, 0x22, 0xFF, 7] 5"
  have "mr_ok ?s" by simp
  moreover have "read_message mr_read ?s =
      (Some (set_field RESOURCE JNull (new_message RUN)), ?s\<lparr>mr_pos := 4\<rparr>)"
    by code_simp
  ultimately have "\<exists>frame. mr_unread ?s = frame @ mr_unread (?s\<lparr>mr_pos := 4\<rparr>) \<and>
      length frame \<le> 262144 + 5 \<and> msg_ok (set_field RESOURCE JNull (new_message RUN))"
    by (rule read_message_limit [OF mr.byte_reader_axioms])
  then show ?thesis by (simp add: mr_unread_def mr_new_def)
qed

text \<open>A negative number in a field is lost. The encoder writes zero for it, so a peer reads zero.\<close>

theorem negative_field_sent_as_zero:
  assumes "sint i < 0"
  shows "encode_message (set_field f (JInt i) (new_message t)) = encode_message (set_field f (JUInt 0) (new_message t))"
  using assms
  by (simp add: encode_message_bytes body_bytes_def set_field_def new_message_def)

theorem negative_field_sent_as_zero_witness:
  "encode_message (set_field PAYLOAD (JInt (- 7)) (new_message STREAM_DATA)) =
   encode_message (set_field PAYLOAD (JUInt 0) (new_message STREAM_DATA))"
  by (rule negative_field_sent_as_zero) simp

end
