(* ===== verification/Path_Match.thy ===== *)
theory Path_Match
  imports Json_Value
begin

text \<open>
  Matching request paths against resource patterns: \<open>client::matches\<close> and \<open>client::get_resource\<close> of
  \<^verbatim>\<open>client.hpp\<close>, and \<open>iotmp_resource::matches\<close> of \<^verbatim>\<open>core/iotmp_resource.hpp\<close>. A pattern
  is literal text with segments \<open>:key\<close>, which capture up to the next slash, and a last \<open>*key\<close>, which
  captures the rest. The indices of the code are the suffixes of the two paths that are left. Captures are
  assigned into a JSON value; \<open>None\<close> is the exception the assignment raises when that value is neither
  null nor an object.
\<close>

section \<open>The operations\<close>

abbreviation slash :: char where "slash \<equiv> CHR ''/''"

function matches :: "string \<Rightarrow> string \<Rightarrow> json \<Rightarrow> (bool \<times> json) option" where
  "matches [] req pm = Some (req = [], pm)"
| "matches (c # res) req pm =
     (let key = takeWhile (\<lambda>d. d \<noteq> slash) res; res' = dropWhile (\<lambda>d. d \<noteq> slash) res in
      if c = CHR ''*'' then
        (if key = [] then Some (False, pm)
         else case j_put key (JStr req) pm of
                None \<Rightarrow> None
              | Some pm' \<Rightarrow> Some (res' = [], pm'))
      else if c = CHR '':'' then
        (let val = takeWhile (\<lambda>d. d \<noteq> slash) req; req' = dropWhile (\<lambda>d. d \<noteq> slash) req in
         case j_put key (JStr val) pm of
           None \<Rightarrow> None
         | Some pm' \<Rightarrow> matches res' req' pm')
      else if req = [] \<or> c \<noteq> hd req then Some (False, pm)
      else matches res (tl req) pm)"
  by pat_completeness auto

lemma length_dropWhile_Suc: "length (dropWhile P xs) < Suc (length xs)"
  by (simp add: length_dropWhile_le le_imp_less_Suc)

termination matches
  by (relation "measure (\<lambda>(res, _, _). length res)") (auto simp: length_dropWhile_Suc)

declare matches.simps(2) [simp del]

text \<open>\<open>iotmp_resource::matches\<close> knows \<open>:key\<close> only.\<close>

function res_matches :: "string \<Rightarrow> string \<Rightarrow> json \<Rightarrow> (bool \<times> json) option" where
  "res_matches [] req pm = Some (req = [], pm)"
| "res_matches (c # res) req pm =
     (let key = takeWhile (\<lambda>d. d \<noteq> slash) res; res' = dropWhile (\<lambda>d. d \<noteq> slash) res in
      if c = CHR '':'' then
        (let val = takeWhile (\<lambda>d. d \<noteq> slash) req; req' = dropWhile (\<lambda>d. d \<noteq> slash) req in
         case j_put key (JStr val) pm of
           None \<Rightarrow> None
         | Some pm' \<Rightarrow> res_matches res' req' pm')
      else if req = [] \<or> c \<noteq> hd req then Some (False, pm)
      else res_matches res (tl req) pm)"
  by pat_completeness auto

termination
  by (relation "measure (\<lambda>(res, _, _). length res)") (auto simp: length_dropWhile_Suc)

declare res_matches.simps(2) [simp del]

text \<open>
  \<open>get_resource\<close>: the first entry of the map that matches. The captures go into one value,
  which is not reset between attempts.
\<close>

fun get_resource :: "(string \<times> 'r) list \<Rightarrow> string \<Rightarrow> json \<Rightarrow> (string option \<times> json) option" where
  "get_resource [] req pm = Some (None, pm)"
| "get_resource ((resource_path, _) # rs) req pm =
     (case matches resource_path req pm of
        None \<Rightarrow> None
      | Some (True, pm') \<Rightarrow> Some (Some resource_path, pm')
      | Some (False, pm') \<Rightarrow> get_resource rs req pm')"

section \<open>What a match is\<close>

text \<open>The specification: a request is an instance of the pattern, with the captured texts.\<close>

inductive path_match :: "string \<Rightarrow> string \<Rightarrow> (string \<times> string) list \<Rightarrow> bool" where
  pm_nil: "path_match [] [] []"
| pm_char: "c \<noteq> CHR ''*'' \<Longrightarrow> c \<noteq> CHR '':'' \<Longrightarrow> path_match res req caps \<Longrightarrow>
     path_match (c # res) (c # req) caps"
| pm_var: "slash \<notin> set key \<Longrightarrow> slash \<notin> set val \<Longrightarrow> res = [] \<or> hd res = slash \<Longrightarrow>
     path_match res req caps \<Longrightarrow>
     path_match (CHR '':'' # key @ res) (val @ req) ((key, val) # caps)"
| pm_wild: "slash \<notin> set key \<Longrightarrow> key \<noteq> [] \<Longrightarrow> path_match (CHR ''*'' # key) req [(key, req)]"

inductive_cases path_match_nilE: "path_match [] req caps"
inductive_cases path_match_consE: "path_match (c # res) req caps"

definition put_caps :: "(string \<times> string) list \<Rightarrow> json \<Rightarrow> json option" where
  "put_caps caps pm = fold (\<lambda>(k, v) acc. Option.bind acc (j_put k (JStr v))) caps (Some pm)"

lemma fold_bind_None: "fold (\<lambda>(k, v) acc. Option.bind acc (j_put k (JStr v))) caps None = None"
  by (induction caps) auto

lemma put_caps_simps [simp]:
  "put_caps [] pm = Some pm"
  "put_caps ((k, v) # caps) pm = Option.bind (j_put k (JStr v) pm) (put_caps caps)"
  by (cases "j_put k (JStr v) pm"; simp add: put_caps_def fold_bind_None)+

definition holds_captures :: "json \<Rightarrow> bool" where
  "holds_captures pm \<longleftrightarrow> j_is_null pm \<or> j_is_object pm"

lemma j_put_captures:
  assumes "holds_captures pm"
  obtains pm' where "j_put k v pm = Some pm'" and "holds_captures pm'"
  using assms by (cases pm) (auto simp: holds_captures_def)

lemma takeWhile_slash:
  assumes "slash \<notin> set key" and "res = [] \<or> hd res = slash"
  shows "takeWhile (\<lambda>d. d \<noteq> slash) (key @ res) = key" and "dropWhile (\<lambda>d. d \<noteq> slash) (key @ res) = res"
proof -
  have key: "\<forall>d \<in> set key. d \<noteq> slash" using assms(1) by auto
  from assms(2) have "takeWhile (\<lambda>d. d \<noteq> slash) res = []" "dropWhile (\<lambda>d. d \<noteq> slash) res = res"
    by (cases res; auto)+
  with key show "takeWhile (\<lambda>d. d \<noteq> slash) (key @ res) = key" "dropWhile (\<lambda>d. d \<noteq> slash) (key @ res) = res"
    by (simp_all add: takeWhile_append2 dropWhile_append2)
qed

lemma split_slash:
  obtains key res where "xs = key @ res" and "slash \<notin> set key" and "res = [] \<or> hd res = slash"
    and "takeWhile (\<lambda>d. d \<noteq> slash) xs = key" and "dropWhile (\<lambda>d. d \<noteq> slash) xs = res"
proof -
  let ?k = "takeWhile (\<lambda>d. d \<noteq> slash) xs" and ?r = "dropWhile (\<lambda>d. d \<noteq> slash) xs"
  have "slash \<notin> set ?k" by (auto dest: set_takeWhileD)
  moreover have "?r = [] \<or> hd ?r = slash" using hd_dropWhile [of "\<lambda>d. d \<noteq> slash" xs] by blast
  ultimately show thesis using that [of ?k ?r] by simp
qed

lemma path_match_slash:
  "path_match res req caps \<Longrightarrow> res = [] \<or> hd res = slash \<Longrightarrow> req = [] \<or> hd req = slash"
  by (cases res) (auto elim: path_match_nilE path_match_consE)

lemma matches_complete:
  "path_match res req caps \<Longrightarrow> holds_captures pm \<Longrightarrow>
     \<exists>pm'. put_caps caps pm = Some pm' \<and> matches res req pm = Some (True, pm') \<and> holds_captures pm'"
proof (induction res req caps arbitrary: pm rule: path_match.induct)
  case pm_nil
  then show ?case by simp
next
  case (pm_char c res req caps)
  then show ?case by (simp add: matches.simps(2) Let_def)
next
  case (pm_var key val res req caps)
  from pm_var.hyps have req: "req = [] \<or> hd req = slash" by (blast dest: path_match_slash)
  note tw = takeWhile_slash [OF pm_var.hyps(1,3)] takeWhile_slash [OF pm_var.hyps(2) req]
  from pm_var.prems obtain pm1 where pm1: "j_put key (JStr val) pm = Some pm1" "holds_captures pm1"
    by (rule j_put_captures)
  from pm_var.IH [OF pm1(2)] pm1(1) show ?case
    by (auto simp: matches.simps(2) Let_def tw)
next
  case (pm_wild key req)
  note tw = takeWhile_slash [OF pm_wild(1) disjI1 [OF refl], unfolded append_Nil2]
  from pm_wild.prems obtain pm1 where "j_put key (JStr req) pm = Some pm1" "holds_captures pm1"
    by (rule j_put_captures)
  with pm_wild.hyps show ?case by (simp add: matches.simps(2) Let_def tw)
qed

lemma matches_sound:
  "matches res req pm = Some (True, pm') \<Longrightarrow> holds_captures pm \<Longrightarrow>
     \<exists>caps. path_match res req caps \<and> put_caps caps pm = Some pm'"
proof (induction res req pm arbitrary: pm' rule: matches.induct)
  case (1 req pm)
  then show ?case by (auto intro!: exI [of _ "[]"] pm_nil)
next
  case (2 c res req pm)
  obtain key rest where res: "res = key @ rest" "slash \<notin> set key" "rest = [] \<or> hd rest = slash"
    and k: "takeWhile (\<lambda>d. d \<noteq> slash) res = key" "dropWhile (\<lambda>d. d \<noteq> slash) res = rest"
    by (rule split_slash)
  obtain val req' where req: "req = val @ req'" "slash \<notin> set val"
    and v: "takeWhile (\<lambda>d. d \<noteq> slash) req = val" "dropWhile (\<lambda>d. d \<noteq> slash) req = req'"
    by (rule split_slash)
  note eq = "2.prems"(1) [unfolded matches.simps(2) Let_def k v]
  consider "c = CHR ''*''" | "c = CHR '':''" | "c \<noteq> CHR ''*''" "c \<noteq> CHR '':''" by blast
  then show ?case
  proof cases
    case 1
    from eq 1 have "key \<noteq> []" "rest = []" "j_put key (JStr req) pm = Some pm'"
      by (auto split: if_splits option.splits)
    with 1 res show ?thesis by (auto intro!: exI [of _ "[(key, req)]"] pm_wild)
  next
    case c: 2
    then have star: "c \<noteq> CHR ''*''" by simp
    obtain pm1 where pm1: "j_put key (JStr val) pm = Some pm1" "holds_captures pm1"
      using "2.prems"(2) by (rule j_put_captures)
    have "matches rest req' pm1 = Some (True, pm')" using eq c pm1(1) by simp
    with "2.IH"(1) [OF refl refl star c refl refl, unfolded k v, OF pm1(1)] pm1(2) obtain caps
      where "path_match rest req' caps" "put_caps caps pm1 = Some pm'" by blast
    with c res req pm1(1) show ?thesis by (auto intro!: exI [of _ "(key, val) # caps"] pm_var)
  next
    case 3
    then obtain ds where ds: "req = c # ds" using eq by (cases req) (auto split: if_splits)
    with eq 3 have "matches res ds pm = Some (True, pm')" by simp
    with "2.IH"(2) [OF refl refl 3] ds "2.prems"(2) obtain caps
      where "path_match res ds caps" "put_caps caps pm = Some pm'" by auto
    with 3 ds show ?thesis by (auto intro: pm_char)
  qed
qed

lemma matches_returns:
  "holds_captures pm \<Longrightarrow> \<exists>b pm'. matches res req pm = Some (b, pm') \<and> holds_captures pm'"
proof (induction res req pm rule: matches.induct)
  case (1 req pm)
  then show ?case by simp
next
  case (2 c res req pm)
  let ?key = "takeWhile (\<lambda>d. d \<noteq> slash) res"
  consider "c = CHR ''*''" | "c \<noteq> CHR ''*''" "c = CHR '':''" | "c \<noteq> CHR ''*''" "c \<noteq> CHR '':''" by blast
  then show ?case
  proof cases
    case 1
    from "2.prems" obtain pm1 where "j_put ?key (JStr req) pm = Some pm1" "holds_captures pm1"
      by (rule j_put_captures)
    with 1 "2.prems" show ?thesis by (cases "?key = []") (auto simp: matches.simps(2) Let_def)
  next
    case c: 2
    from "2.prems" obtain pm1 where pm1: "j_put ?key (JStr (takeWhile (\<lambda>d. d \<noteq> slash) req)) pm = Some pm1"
      "holds_captures pm1" by (rule j_put_captures)
    from "2.IH"(1) [OF refl refl c refl refl pm1] c pm1(1) show ?thesis
      by (simp add: matches.simps(2) Let_def)
  next
    case 3
    show ?thesis
    proof (cases "req = [] \<or> c \<noteq> hd req")
      case True
      with 3 "2.prems" show ?thesis by (auto simp: matches.simps(2) Let_def)
    next
      case False
      from "2.IH"(2) [OF refl refl 3 False "2.prems"] 3 False show ?thesis
        by (simp add: matches.simps(2) Let_def)
    qed
  qed
qed

text \<open>Looking a resource up never fails on a value that holds captures.\<close>

lemma get_resource_returns:
  "holds_captures pm \<Longrightarrow> \<exists>r pm'. get_resource rs req pm = Some (r, pm') \<and> holds_captures pm' \<and>
     (\<forall>p. r = Some p \<longrightarrow> p \<in> fst ` set rs)"
proof (induction rs req pm rule: get_resource.induct)
  case (1 req pm)
  then show ?case by simp
next
  case (2 p r rs req pm)
  obtain b pm' where m: "matches p req pm = Some (b, pm')" "holds_captures pm'"
    using matches_returns [OF "2.prems"] by blast
  show ?case
  proof (cases b)
    case True
    with m show ?thesis by simp
  next
    case False
    from "2.IH" [OF m(1) refl _ m(2)] False m(1) show ?thesis by auto
  qed
qed

section \<open>Properties\<close>

text \<open>C33: path matching is correct. Starting from an empty capture value, \<open>matches\<close> accepts a request exactly
  when the request is an instance of the pattern in which every \<open>:key\<close> stands for a text without slashes and
  a final \<open>*key\<close> for any text, and the captures it records are those texts.\<close>

theorem matches_correct:
  "matches res req JNull = Some (True, pm) \<longleftrightarrow>
     (\<exists>caps. path_match res req caps \<and> put_caps caps JNull = Some pm)"
proof -
  have "holds_captures JNull" by (simp add: holds_captures_def)
  with matches_complete [of res req _ JNull] matches_sound [of res req JNull pm] show ?thesis
    by (metis option.inject)
qed

lemma matches_accepts:
  assumes "holds_captures pm"
  obtains pm' where "matches res req pm = Some (\<exists>caps. path_match res req caps, pm')"
    and "holds_captures pm'"
proof -
  obtain b pm' where m: "matches res req pm = Some (b, pm')" "holds_captures pm'"
    using matches_returns [OF assms] by blast
  have "b \<longleftrightarrow> (\<exists>caps. path_match res req caps)"
  proof
    assume b
    with m(1) have "matches res req pm = Some (True, pm')" by simp
    from matches_sound [OF this assms] show "\<exists>caps. path_match res req caps" by blast
  next
    assume "\<exists>caps. path_match res req caps"
    with matches_complete [OF _ assms] m(1) show b by fastforce
  qed
  with m show thesis using that by simp
qed

lemma get_resource_find:
  "holds_captures pm \<Longrightarrow> map_option fst (get_resource rs req pm) =
     Some (map_option fst (find (\<lambda>(p, _). \<exists>caps. path_match p req caps) rs))"
proof (induction rs req pm rule: get_resource.induct)
  case (1 req pm)
  then show ?case by simp
next
  case (2 p r rs req pm)
  from "2.prems" obtain pm' where
    m: "matches p req pm = Some (\<exists>caps. path_match p req caps, pm')" "holds_captures pm'"
    by (rule matches_accepts)
  show ?case
  proof (cases "\<exists>caps. path_match p req caps")
    case True
    with m show ?thesis by simp
  next
    case False
    from "2.IH" [OF m(1) refl _ m(2)] False m(1) show ?thesis by auto
  qed
qed

text \<open>C20: Dispatch picks the first pattern, in the order of the resource map, that the request is an instance
  of, and none when there is none; it never fails on a request that carries no value in field 0.\<close>

theorem get_resource_first:
  "map_option fst (get_resource rs req JNull) =
     Some (map_option fst (find (\<lambda>(p, _). \<exists>caps. path_match p req caps) rs))"
  by (rule get_resource_find) (simp add: holds_captures_def)

text \<open>A rejected pattern leaves its captures behind: they reach the handler of the pattern that
  matches, and a key of the rejected pattern reads as if the request had supplied it.\<close>

theorem stale_captures:
  "get_resource [('':cmd/run'', ()), ('':dev/status'', ())] ''lamp/status'' JNull =
     Some (Some '':dev/status'', JObj [(''cmd'', JStr ''lamp''), (''dev'', JStr ''lamp'')])"
  by (simp add: matches.simps(2) Let_def)

end
