(* ===== verification/Resource.thy ===== *)
theory Resource
  imports Iotmp_Message
begin

text \<open>
  Resources: \<^verbatim>\<open>core/iotmp_resource.hpp\<close>, \<^verbatim>\<open>core/iotmp_server_event.hpp\<close> and
  \<^verbatim>\<open>core/thinger_result.hpp\<close>. A resource holds the callback of the application and runs it on
  wrappers of the request and the response. The callbacks are parameters: functions over the state
  \<open>'w\<close> of the application, which may change what the wrappers refer to and may throw (\<open>None\<close>). The local HTTP
  endpoints, compiled in only when \<^verbatim>\<open>httplib.h\<close> is installed, are in \<open>Local_Http\<close>, the references through
  which callbacks fill in data in \<open>Json_Proxy\<close>.
\<close>

section \<open>exec\_result\<close>

text \<open>\<open>exec_result\<close> wraps a message; its truth value is that of the type.\<close>

type_synonym exec_result = iotmp_message

definition exec_bool :: "bool \<Rightarrow> exec_result" where
  "exec_bool success = new_message (if success then OK else ERROR)"

definition exec_error :: "bool \<Rightarrow> string \<Rightarrow> exec_result" where
  "exec_error success error_message =
     (let m = new_message (if success then OK else ERROR) in
      if \<not> success \<and> error_message \<noteq> []
      then set_field PAYLOAD (JObj [(''message'', JStr error_message)]) m else m)"

definition exec_ok :: "exec_result \<Rightarrow> bool" where
  "exec_ok r \<longleftrightarrow> msg_type r = OK"

lemma exec_ok_simps [simp]:
  "exec_ok (exec_bool b) = b" "exec_ok (exec_error b s) = b"
  by (simp_all add: exec_ok_def exec_bool_def exec_error_def Let_def)

section \<open>The wrappers\<close>

text \<open>\<open>input\<close>: the data it refers to, and the captures and parameters of the request, if set.\<close>

record input =
  in_stream_id :: stream_id
  in_data :: json
  in_params :: "json option"
  in_path :: "json option"
  in_describe :: bool

definition new_input :: "stream_id \<Rightarrow> json \<Rightarrow> bool \<Rightarrow> input" where
  "new_input sid data d =
     \<lparr>in_stream_id = sid, in_data = data, in_params = None, in_path = None, in_describe = d\<rparr>"

definition input_field :: "json option \<Rightarrow> string \<Rightarrow> string \<Rightarrow> string" where
  "input_field src field d =
     (case src of
        None \<Rightarrow> d
      | Some v \<Rightarrow> (case j_find field v of Some (JStr s) \<Rightarrow> s | _ \<Rightarrow> d))"

definition input_path :: "input \<Rightarrow> string \<Rightarrow> string \<Rightarrow> string" where
  "input_path i = input_field (in_path i)"

definition input_params :: "input \<Rightarrow> string \<Rightarrow> string \<Rightarrow> string" where
  "input_params i = input_field (in_params i)"

definition input_has_params :: "input \<Rightarrow> bool" where
  "input_has_params i \<longleftrightarrow> in_params i \<noteq> None"

definition input_get_params :: "input \<Rightarrow> json" where
  "input_get_params i = (case in_params i of None \<Rightarrow> JObj [] | Some p \<Rightarrow> p)"

definition j_is_empty :: "json \<Rightarrow> bool" where
  "j_is_empty v = (case v of JNull \<Rightarrow> True | JObj kvs \<Rightarrow> kvs = [] | JArr xs \<Rightarrow> xs = [] | _ \<Rightarrow> False)"

definition input_is_empty :: "input \<Rightarrow> bool" where
  "input_is_empty i = j_is_empty (in_data i)"

text \<open>\<open>operator T\<close>: null data is first set to the default of the type, given as \<open>z\<close>.\<close>

definition input_as :: "json \<Rightarrow> input \<Rightarrow> json \<times> input" where
  "input_as z i =
     (let i' = (if j_is_null (in_data i) then i\<lparr>in_data := z\<rparr> else i) in (in_data i', i'))"

text \<open>\<open>output\<close>: the data it refers to, the return code and success flag, and the continuation.\<close>

record 'w res_output =
  out_data :: json
  out_code :: u32
  out_describe :: bool
  out_success :: bool
  out_after :: "('w \<Rightarrow> 'w) option"

definition new_output :: "json \<Rightarrow> bool \<Rightarrow> 'w res_output" where
  "new_output data d =
     \<lparr>out_data = data, out_code = 0, out_describe = d, out_success = True, out_after = None\<rparr>"

definition output_is_empty :: "'w res_output \<Rightarrow> bool" where
  "output_is_empty out = j_is_empty (out_data out)"

text \<open>Assignment through \<open>out[name]\<close>; it throws when the value is neither an object nor null.\<close>

definition output_put :: "string \<Rightarrow> json \<Rightarrow> 'w res_output \<Rightarrow> 'w res_output option" where
  "output_put name v out = map_option (\<lambda>d. out\<lparr>out_data := d\<rparr>) (j_put name v (out_data out))"

definition put_out :: "(string \<times> json) list \<Rightarrow> 'w res_output \<Rightarrow> 'w res_output option" where
  "put_out kvs out = fold (\<lambda>(k, v) acc. Option.bind acc (output_put k v)) kvs (Some out)"

text \<open>The same for \<open>in[name]\<close>, which reads as well as it is assigned to.\<close>

definition put_in :: "(string \<times> json) list \<Rightarrow> input \<Rightarrow> input option" where
  "put_in kvs i =
     map_option (\<lambda>d. i\<lparr>in_data := d\<rparr>)
       (fold (\<lambda>(k, v) acc. Option.bind acc (j_put k v)) kvs (Some (in_data i)))"

definition json_index :: "string \<Rightarrow> json \<Rightarrow> (json \<times> json) option" where
  "json_index name v =
     (case j_find name v of
        Some w \<Rightarrow> Some (w, v)
      | None \<Rightarrow> map_option (Pair JNull) (j_put name JNull v))"

definition set_return_code :: "u32 \<Rightarrow> 'w res_output \<Rightarrow> 'w res_output" where
  "set_return_code c out = out\<lparr>out_code := c\<rparr>"

definition after_response :: "('w \<Rightarrow> 'w) \<Rightarrow> 'w res_output \<Rightarrow> 'w res_output" where
  "after_response cb out = out\<lparr>out_after := Some cb\<rparr>"

text \<open>\<open>set_error\<close>: the flag (and code) are set before the assignment that may throw.\<close>

definition set_error :: "string \<Rightarrow> 'w res_output \<Rightarrow> 'w res_output option" where
  "set_error msg out =
     map_option (\<lambda>d. out\<lparr>out_success := False, out_data := d\<rparr>) (j_put ''error'' (JStr msg) (out_data out))"

definition set_error_code :: "u32 \<Rightarrow> string \<Rightarrow> 'w res_output \<Rightarrow> 'w res_output option" where
  "set_error_code code msg out =
     map_option (\<lambda>d. out\<lparr>out_success := False, out_code := code, out_data := d\<rparr>)
       (j_put ''error'' (JStr msg) (out_data out))"

section \<open>The resource\<close>

datatype io_type = io_none | io_run | input_wrapper | output_wrapper | input_output_wrapper

fun io_code :: "io_type \<Rightarrow> u64" where
  "io_code io_none = 0"
| "io_code io_run = 1"
| "io_code input_wrapper = 2"
| "io_code output_wrapper = 3"
| "io_code input_output_wrapper = 4"

type_synonym 'w run_cb = "'w \<Rightarrow> unit option \<times> 'w"
type_synonym 'w in_cb = "input \<Rightarrow> 'w \<Rightarrow> input option \<times> 'w"
type_synonym 'w out_cb = "'w res_output \<Rightarrow> 'w \<Rightarrow> 'w res_output option \<times> 'w"
type_synonym 'w in_out_cb = "input \<Rightarrow> 'w res_output \<Rightarrow> 'w \<Rightarrow> (input \<times> 'w res_output) option \<times> 'w"

text \<open>The stream handler, with the results it hands to its \<open>result_handler\<close> before it returns.\<close>

type_synonym 'w stream_cb = "stream_id \<Rightarrow> json \<Rightarrow> json \<Rightarrow> bool \<Rightarrow> 'w \<Rightarrow> exec_result list option \<times> 'w"

text \<open>An empty \<open>std::function\<close> is \<open>None\<close>; calling it throws.\<close>

record 'w resource =
  r_io_type :: io_type
  r_run :: "'w run_cb option"
  r_input :: "'w in_cb option"
  r_output :: "'w out_cb option"
  r_input_output :: "'w in_out_cb option"
  r_stream_id :: stream_id
  r_stream_echo :: bool
  r_listener :: "'w stream_cb option"

definition new_resource :: "'w resource" where
  "new_resource = \<lparr>r_io_type = io_none, r_run = None, r_input = None, r_output = None,
     r_input_output = None, r_stream_id = 0, r_stream_echo = True, r_listener = None\<rparr>"

definition stream_enabled :: "'w resource \<Rightarrow> bool" where
  "stream_enabled r \<longleftrightarrow> r_stream_id r \<noteq> 0"

definition set_resource_stream_id :: "stream_id \<Rightarrow> 'w resource \<Rightarrow> 'w resource" where
  "set_resource_stream_id i r = r\<lparr>r_stream_id := i\<rparr>"

definition set_stream_echo :: "bool \<Rightarrow> 'w resource \<Rightarrow> 'w resource" where
  "set_stream_echo b r = r\<lparr>r_stream_echo := b\<rparr>"

definition set_function :: "'w run_cb \<Rightarrow> 'w resource \<Rightarrow> 'w resource" where
  "set_function f r = r\<lparr>r_io_type := io_run, r_run := Some f\<rparr>"

definition set_input :: "'w in_cb \<Rightarrow> 'w resource \<Rightarrow> 'w resource" where
  "set_input f r = r\<lparr>r_io_type := input_wrapper, r_input := Some f\<rparr>"

definition set_output :: "'w out_cb \<Rightarrow> 'w resource \<Rightarrow> 'w resource" where
  "set_output f r = r\<lparr>r_io_type := output_wrapper, r_output := Some f\<rparr>"

definition set_input_output :: "'w in_out_cb \<Rightarrow> 'w resource \<Rightarrow> 'w resource" where
  "set_input_output f r = r\<lparr>r_io_type := input_output_wrapper, r_input_output := Some f\<rparr>"

definition set_stream_handler :: "'w stream_cb \<Rightarrow> 'w resource \<Rightarrow> 'w resource" where
  "set_stream_handler f r = r\<lparr>r_listener := Some f\<rparr>"

definition has_stream_handler :: "'w resource \<Rightarrow> bool" where
  "has_stream_handler r \<longleftrightarrow> r_listener r \<noteq> None"

definition handle_stream :: "'w resource \<Rightarrow> 'w stream_cb" where
  "handle_stream r sid path prms enabled w =
     (case r_listener r of None \<Rightarrow> (Some [], w) | Some f \<Rightarrow> f sid path prms enabled w)"

definition fill_api :: "'w resource \<Rightarrow> json \<Rightarrow> json option" where
  "fill_api r content =
     (if r_io_type r \<noteq> io_none then j_put ''fn'' (JUInt (io_code (r_io_type r))) content
      else Some content)"

text \<open>The callbacks, empty or not.\<close>

definition call_run :: "'w resource \<Rightarrow> 'w run_cb" where
  "call_run r w = (case r_run r of None \<Rightarrow> (None, w) | Some f \<Rightarrow> f w)"

definition call_input :: "'w resource \<Rightarrow> 'w in_cb" where
  "call_input r i w = (case r_input r of None \<Rightarrow> (None, w) | Some f \<Rightarrow> f i w)"

definition call_output :: "'w resource \<Rightarrow> 'w out_cb" where
  "call_output r out w = (case r_output r of None \<Rightarrow> (None, w) | Some f \<Rightarrow> f out w)"

definition call_input_output :: "'w resource \<Rightarrow> 'w in_out_cb" where
  "call_input_output r i out w =
     (case r_input_output r of None \<Rightarrow> (None, w) | Some f \<Rightarrow> f i out w)"

text \<open>The input wrapper of a request refers to its payload (created if missing), its captures in
  field 0 and its parameters; \<open>input_back\<close> is the request after the callback used the wrapper.\<close>

definition input_of :: "iotmp_message \<Rightarrow> input" where
  "input_of request =
     \<lparr>in_stream_id = get_stream_id request, in_data = const_field PAYLOAD request,
      in_params = field_of PARAMETERS request, in_path = field_of 0 request, in_describe = False\<rparr>"

definition input_back :: "input \<Rightarrow> iotmp_message \<Rightarrow> iotmp_message" where
  "input_back i request =
     (let m1 = set_field PAYLOAD (in_data i) request;
          m2 = (case in_path i of None \<Rightarrow> m1 | Some p \<Rightarrow> set_field 0 p m1)
      in case in_params i of None \<Rightarrow> m2 | Some p \<Rightarrow> set_field PARAMETERS p m2)"

text \<open>What the output wrapper leaves in the response.\<close>

definition output_back :: "'w res_output \<Rightarrow> iotmp_message \<Rightarrow> iotmp_message" where
  "output_back out response =
     (let m = set_field PAYLOAD (out_data out) response in
      if out_code out \<noteq> 0 then set_field PARAMETERS (JInt (scast (out_code out))) m else m)"

record 'w run_result =
  rr_success :: bool
  rr_request :: iotmp_message
  rr_response :: iotmp_message
  rr_after :: "('w \<Rightarrow> 'w) option"

definition run_resource :: "'w resource \<Rightarrow> iotmp_message \<Rightarrow> iotmp_message \<Rightarrow> 'w
    \<Rightarrow> 'w run_result option \<times> 'w" where
  "run_resource r request response w =
     (case r_io_type r of
        input_wrapper \<Rightarrow>
          (case call_input r (input_of request) w of
             (None, w') \<Rightarrow> (None, w')
           | (Some i, w') \<Rightarrow>
               (Some \<lparr>rr_success = True, rr_request = input_back i request,
                      rr_response = response, rr_after = None\<rparr>, w'))
      | output_wrapper \<Rightarrow>
          (case call_output r (new_output (const_field PAYLOAD response) False) w of
             (None, w') \<Rightarrow> (None, w')
           | (Some out, w') \<Rightarrow>
               (Some \<lparr>rr_success = out_success out, rr_request = request,
                      rr_response = output_back out response, rr_after = out_after out\<rparr>, w'))
      | io_run \<Rightarrow>
          (case call_run r w of
             (None, w') \<Rightarrow> (None, w')
           | (Some _, w') \<Rightarrow>
               (Some \<lparr>rr_success = True, rr_request = request, rr_response = response, rr_after = None\<rparr>, w'))
      | input_output_wrapper \<Rightarrow>
          (case call_input_output r (input_of request)
                  (new_output (const_field PAYLOAD response) (j_empty (const_field PAYLOAD request))) w of
             (None, w') \<Rightarrow> (None, w')
           | (Some (i, out), w') \<Rightarrow>
               (Some \<lparr>rr_success = out_success out, rr_request = input_back i request,
                      rr_response = output_back out response, rr_after = out_after out\<rparr>, w'))
      | io_none \<Rightarrow>
          (Some \<lparr>rr_success = True, rr_request = request, rr_response = response, rr_after = None\<rparr>, w))"

text \<open>\<open>describe\<close>: the callback runs on fresh null values with the describe flag, and what it filled in
  goes into the payload under \<open>in\<close> and \<open>out\<close>.\<close>

definition put_payload :: "string \<Rightarrow> json \<Rightarrow> iotmp_message \<Rightarrow> iotmp_message option" where
  "put_payload key v m =
     (if j_is_null v then Some m
      else map_option (\<lambda>p. set_field PAYLOAD p m) (j_put key v (const_field PAYLOAD m)))"

definition describe :: "'w resource \<Rightarrow> iotmp_message \<Rightarrow> 'w \<Rightarrow> iotmp_message option \<times> 'w" where
  "describe r message w =
     (case r_io_type r of
        output_wrapper \<Rightarrow>
          (case call_output r (new_output JNull True) w of
             (None, w') \<Rightarrow> (None, w')
           | (Some out, w') \<Rightarrow> (put_payload ''out'' (out_data out) message, w'))
      | input_output_wrapper \<Rightarrow>
          (case call_input_output r (new_input (get_stream_id message) JNull True) (new_output JNull True) w of
             (None, w') \<Rightarrow> (None, w')
           | (Some (i, out), w') \<Rightarrow>
               (Option.bind (put_payload ''in'' (in_data i) message) (put_payload ''out'' (out_data out)), w'))
      | input_wrapper \<Rightarrow>
          (case call_input r (new_input (get_stream_id message) JNull True) w of
             (None, w') \<Rightarrow> (None, w')
           | (Some i, w') \<Rightarrow> (put_payload ''in'' (in_data i) message, w'))
      | _ \<Rightarrow> (Some message, w))"

section \<open>Server events\<close>

record 'w server_event =
  ev_resource :: "'w resource"
  ev_run :: u64
  ev_params :: json

definition new_server_event :: "'w server_event" where
  "new_server_event =
     \<lparr>ev_resource = set_stream_echo False new_resource, ev_run = SUBSCRIBE_EVENT, ev_params = JNull\<rparr>"

section \<open>What running a resource keeps\<close>

lemma input_back_frame [simp]:
  "get_stream_id (input_back i m) = get_stream_id m" "msg_type (input_back i m) = msg_type m"
  "msg_ok m \<Longrightarrow> msg_ok (input_back i m)" "has_field PAYLOAD (input_back i m)"
  by (auto simp: input_back_def Let_def has_field_def field_defs split: option.split)

lemma output_back_frame [simp]:
  "get_stream_id (output_back out m) = get_stream_id m" "msg_type (output_back out m) = msg_type m"
  "msg_ok m \<Longrightarrow> msg_ok (output_back out m)" "has_field PAYLOAD (output_back out m)"
  by (auto simp: output_back_def Let_def has_field_def field_defs)

lemma put_payload_frame:
  "put_payload k v m = Some m' \<Longrightarrow> get_stream_id m' = get_stream_id m \<and> msg_type m' = msg_type m \<and>
     (msg_ok m \<longrightarrow> msg_ok m')"
  by (auto simp: put_payload_def field_defs split: if_splits)

lemma run_resource_frame:
  assumes "run_resource r request response w = (Some res, w')"
  shows "get_stream_id (rr_request res) = get_stream_id request"
    and "get_stream_id (rr_response res) = get_stream_id response"
    and "msg_type (rr_request res) = msg_type request"
    and "msg_type (rr_response res) = msg_type response"
    and "r_io_type r = io_run \<or> r_io_type r = io_none \<or> r_io_type r = input_wrapper \<Longrightarrow>
         rr_response res = response \<and> rr_success res"
  using assms by (auto simp: run_resource_def split: io_type.splits option.splits prod.splits)

lemma describe_frame:
  assumes "describe r m w = (Some m', w')"
  shows "get_stream_id m' = get_stream_id m" and "msg_type m' = msg_type m"
  using assms
  by (auto simp: describe_def bind_eq_Some_conv split: io_type.splits option.splits prod.splits
      dest!: put_payload_frame)

text \<open>A fresh description has its payload only where the callback filled something in.\<close>

lemma put_payload_fresh: "const_field PAYLOAD m = JNull \<or> j_is_object (const_field PAYLOAD m) \<Longrightarrow>
    \<exists>m'. put_payload k v m = Some m' \<and> (const_field PAYLOAD m' = JNull \<or> j_is_object (const_field PAYLOAD m'))"
  by (cases "const_field PAYLOAD m") (auto simp: put_payload_def)

end
