(* ===== verification/Write_Pump.thy ===== *)
theory Write_Pump
  imports Prelude "HOL-Library.Sublist"
begin

text \<open>
  The write loops. The client, the terminal, the proxy and the command session each keep a queue of
  buffers, a flag that says a loop is running, and a coroutine that pops a buffer, waits for its write and
  goes on until the queue is empty or the connection is gone. The locale states what those loops
  have in common; its lemmas say that buffers are written in the order they were queued, each at most once,
  and all of them when no write fails.
\<close>

section \<open>Phases and events\<close>

text \<open>The coroutine: not running, about to look at the queue, or suspended on the write of a buffer.\<close>

datatype 'd pump = Idle | Ready | Writing 'd

text \<open>What happens to a pump: a buffer is queued, the coroutine is resumed, or its write ends.\<close>

datatype 'd pump_event = Enqueue 'd | Resume | Written bool

fun in_flight :: "'d pump \<Rightarrow> 'd list" where
  "in_flight (Writing d) = [d]"
| "in_flight _ = []"

fun enqueued :: "'d pump_event list \<Rightarrow> 'd list" where
  "enqueued [] = []"
| "enqueued (Enqueue d # es) = d # enqueued es"
| "enqueued (_ # es) = enqueued es"

fun no_failure :: "'d pump_event list \<Rightarrow> bool" where
  "no_failure [] = True"
| "no_failure (Written False # es) = False"
| "no_failure (_ # es) = no_failure es"

text \<open>
  A run that keeps an invariant, and in which each step adds to a record no more than the step's own
  contribution, adds in all no more than the contributions in order.
\<close>

lemma fold_subseq:
  assumes step: "\<And>e s. good s \<Longrightarrow> good (step e s) \<and> subseq (record_of (step e s)) (record_of s @ part e)"
    and start: "good s"
  shows "good (fold step es s) \<and> subseq (record_of (fold step es s)) (record_of s @ concat (map part es))"
  using start
proof (induction es arbitrary: s)
  case Nil
  then show ?case by simp
next
  case (Cons e es)
  from step [OF Cons.prems, of e] have s: "good (step e s)" "subseq (record_of (step e s)) (record_of s @ part e)" by auto
  note IH = Cons.IH [OF s(1)]
  have "subseq (record_of (step e s) @ concat (map part es)) ((record_of s @ part e) @ concat (map part es))"
    by (rule list_emb_append_mono [OF s(2) subseq_order.refl])
  from subseq_order.trans [OF _ this] IH show ?case by simp
qed

lemma subseq_extend [simp]: "subseq xs (xs @ ys)"
  by (rule prefix_imp_subseq) simp

section \<open>The contract\<close>

locale write_pump =
  fixes queue :: "'s \<Rightarrow> 'd list"
    and phase :: "'s \<Rightarrow> 'd pump"
    and written :: "'s \<Rightarrow> 'd list"
    and in_progress :: "'s \<Rightarrow> bool"
    and ready :: "'s \<Rightarrow> bool"
    and enqueue :: "'d \<Rightarrow> 's \<Rightarrow> 's"
    and resume :: "'s \<Rightarrow> 's"
    and complete :: "bool \<Rightarrow> 's \<Rightarrow> 's"
  assumes enqueue_law: "in_progress s = (phase s \<noteq> Idle) \<Longrightarrow>
      queue (enqueue d s) = queue s @ [d] \<and> written (enqueue d s) = written s \<and>
      phase (enqueue d s) = (if in_progress s then phase s else Ready) \<and> in_progress (enqueue d s) \<and>
      ready (enqueue d s) = ready s"
    and resume_take: "queue s = d # q \<Longrightarrow> ready s \<Longrightarrow> in_progress s \<Longrightarrow>
      queue (resume s) = q \<and> phase (resume s) = Writing d \<and> written (resume s) = written s \<and>
      in_progress (resume s) \<and> ready (resume s)"
    and resume_end: "queue s = [] \<or> \<not> ready s \<Longrightarrow>
      queue (resume s) = queue s \<and> phase (resume s) = Idle \<and> written (resume s) = written s \<and>
      \<not> in_progress (resume s)"
    and complete_ok: "phase s = Writing d \<Longrightarrow> in_progress s \<Longrightarrow> \<exists>s1. complete True s = resume s1 \<and>
      queue s1 = queue s \<and> written s1 = written s @ [d] \<and> in_progress s1 \<and> ready s1 = ready s"
    and complete_fail: "phase s = Writing d \<Longrightarrow>
      queue (complete False s) = queue s \<and> phase (complete False s) = Idle \<and>
      written (complete False s) = written s \<and> \<not> in_progress (complete False s)"
begin

definition pump_inv :: "'s \<Rightarrow> bool" where
  "pump_inv s \<longleftrightarrow> in_progress s = (phase s \<noteq> Idle)"

definition content :: "'s \<Rightarrow> 'd list" where
  "content s = written s @ in_flight (phase s) @ queue s"

text \<open>Events that the phase does not allow do not happen.\<close>

definition apply_event :: "'d pump_event \<Rightarrow> 's \<Rightarrow> 's" where
  "apply_event e s =
     (case e of
        Enqueue d \<Rightarrow> enqueue d s
      | Resume \<Rightarrow> (if phase s = Ready then resume s else s)
      | Written ok \<Rightarrow> (if in_flight (phase s) \<noteq> [] then complete ok s else s))"

definition run_events :: "'d pump_event list \<Rightarrow> 's \<Rightarrow> 's" where
  "run_events es s = fold apply_event es s"

lemma resume_law:
  assumes "in_progress s"
  shows "pump_inv (resume s) \<and> written (resume s) @ in_flight (phase (resume s)) @ queue (resume s) = written s @ queue s"
proof (cases "queue s = [] \<or> \<not> ready s")
  case True
  then show ?thesis using resume_end [OF True] by (auto simp: pump_inv_def)
next
  case False
  then obtain d q where q: "queue s = d # q" "ready s" by (cases "queue s") auto
  from resume_take [OF q assms] q(1) show ?thesis by (simp add: pump_inv_def)
qed

lemma complete_ok_content:
  assumes "phase s = Writing d" and "in_progress s"
  shows "pump_inv (complete True s) \<and> content (complete True s) = content s"
proof -
  from complete_ok [OF assms] obtain s1 where s1: "complete True s = resume s1"
    "queue s1 = queue s" "written s1 = written s @ [d]" "in_progress s1" by blast
  from resume_law [OF s1(4)] s1 assms(1) show ?thesis by (simp add: content_def)
qed

lemma event_inv: "pump_inv s \<Longrightarrow> pump_inv (apply_event e s)"
proof -
  assume inv: "pump_inv s"
  have w: "pump_inv (complete ok s)" if "phase s = Writing d" for ok d
    using that inv complete_ok_content [of s d] complete_fail [of s d]
    by (cases ok) (auto simp: pump_inv_def)
  show ?thesis
  proof (cases e)
    case (Enqueue d)
    with inv enqueue_law [of s d] show ?thesis by (auto simp: apply_event_def pump_inv_def)
  next
    case Resume
    with inv resume_law [of s] show ?thesis by (auto simp: apply_event_def pump_inv_def)
  next
    case (Written ok)
    with inv w show ?thesis by (cases "phase s") (auto simp: apply_event_def)
  qed
qed

text \<open>One event: what was queued stays in order; a failed write drops the buffer in flight.\<close>

lemma event_content:
  assumes inv: "pump_inv s"
  shows "subseq (content (apply_event e s)) (content s @ enqueued [e])"
    and "no_failure [e] \<Longrightarrow> content (apply_event e s) = content s @ enqueued [e]"
proof -
  have ok: "content (apply_event e s) = content s @ enqueued [e]" if "no_failure [e]"
  proof (cases e)
    case (Enqueue d)
    with inv enqueue_law [of s d] show ?thesis
      by (cases "phase s") (auto simp: apply_event_def pump_inv_def content_def)
  next
    case Resume
    with inv resume_law [of s] show ?thesis
      by (cases "phase s") (auto simp: apply_event_def pump_inv_def content_def)
  next
    case (Written b)
    with that have "b" by (cases b) auto
    with Written inv complete_ok_content [of s] show ?thesis
      by (cases "phase s") (auto simp: apply_event_def pump_inv_def)
  qed
  then show "no_failure [e] \<Longrightarrow> content (apply_event e s) = content s @ enqueued [e]" .
  show "subseq (content (apply_event e s)) (content s @ enqueued [e])"
  proof (cases "no_failure [e]")
    case True
    with ok show ?thesis by simp
  next
    case False
    then have e: "e = Written False" by (cases e) (auto elim: no_failure.elims)
    show ?thesis
      using complete_fail [of s] by (cases "phase s") (auto simp: e apply_event_def content_def intro: list_emb_append_mono)
  qed
qed

lemma run_events_Cons: "run_events (e # es) s = run_events es (apply_event e s)"
  by (simp add: run_events_def)

lemma enqueued_Cons: "enqueued (e # es) = enqueued [e] @ enqueued es"
  by (cases e) simp_all

lemma no_failure_Cons: "no_failure (e # es) \<longleftrightarrow> no_failure [e] \<and> no_failure es"
  by (cases "e # es" rule: no_failure.cases) auto

text \<open>The written buffers are a subsequence of those queued: same order, none twice, none made up.\<close>

theorem pump_order:
  "pump_inv s \<Longrightarrow> pump_inv (run_events es s) \<and> subseq (content (run_events es s)) (content s @ enqueued es)"
proof (induction es arbitrary: s)
  case Nil
  then show ?case by (simp add: run_events_def)
next
  case (Cons e es)
  from Cons.IH [OF event_inv [OF Cons.prems]]
  have IH: "pump_inv (run_events (e # es) s)"
    "subseq (content (run_events (e # es) s)) (content (apply_event e s) @ enqueued es)"
    by (simp_all add: run_events_Cons)
  have "subseq (content (apply_event e s) @ enqueued es) ((content s @ enqueued [e]) @ enqueued es)"
    using event_content(1) [OF Cons.prems] by (intro list_emb_append_mono) simp_all
  with IH show ?case by (auto simp: enqueued_Cons [of e es] intro: subseq_order.trans)
qed

text \<open>Without a failure nothing is lost either.\<close>

theorem pump_complete:
  "pump_inv s \<Longrightarrow> no_failure es \<Longrightarrow> content (run_events es s) = content s @ enqueued es"
proof (induction es arbitrary: s)
  case Nil
  then show ?case by (simp add: run_events_def)
next
  case (Cons e es)
  then have nf: "no_failure [e]" "no_failure es" using no_failure_Cons by blast+
  from Cons.IH [OF event_inv [OF Cons.prems(1)] nf(2)] event_content(2) [OF Cons.prems(1) nf(1)]
  show ?case by (simp add: run_events_Cons enqueued_Cons [of e es])
qed

text \<open>While the connection is there, successful writes drain the queue.\<close>

lemma pump_drains_writing:
  "phase s = Writing d \<Longrightarrow> in_progress s \<Longrightarrow> ready s \<Longrightarrow>
     (let s' = run_events (replicate (Suc (length (queue s))) (Written True)) s in
      queue s' = [] \<and> phase s' = Idle \<and> written s' = content s)"
proof (induction "queue s" arbitrary: s d)
  case Nil
  from complete_ok [OF Nil(2,3)] obtain s1 where s1: "complete True s = resume s1"
    "queue s1 = queue s" "written s1 = written s @ [d]" by blast
  with Nil.hyps resume_end [of s1] Nil(2) show ?case
    by (simp add: run_events_def apply_event_def content_def Let_def)
next
  case (Cons x q)
  from complete_ok [OF Cons(3,4)] obtain s1 where s1: "complete True s = resume s1"
    "queue s1 = x # q" "written s1 = written s @ [d]" "in_progress s1" "ready s1"
    using Cons.hyps(2) Cons(5) by metis
  note t = resume_take [OF s1(2,5,4)]
  have a: "apply_event (Written True) s = resume s1" using Cons(3) s1(1) by (simp add: apply_event_def)
  from t have "let s' = run_events (replicate (Suc (length (queue (resume s1)))) (Written True)) (resume s1) in
      queue s' = [] \<and> phase s' = Idle \<and> written s' = content (resume s1)"
    by (intro Cons.hyps(1) [of _ x]) simp_all
  moreover have "content (resume s1) = content s"
    using t s1(3) Cons(3) Cons.hyps(2) by (simp add: content_def)
  ultimately show ?case
    using a t Cons.hyps(2) [symmetric] by (simp add: run_events_Cons)
qed

theorem pump_drains:
  assumes "pump_inv s" and "in_progress s" and "ready s"
  shows "\<exists>es. enqueued es = [] \<and> no_failure es \<and>
    (let s' = run_events es s in queue s' = [] \<and> phase s' = Idle \<and> written s' = content s)"
proof -
  have rep: "enqueued (replicate n (Written True)) = [] \<and> no_failure (replicate n (Written True))" for n
    by (induction n) auto
  have writing: "\<exists>es. enqueued es = [] \<and> no_failure es \<and>
      (let s' = run_events es x in queue s' = [] \<and> phase s' = Idle \<and> written s' = content x)"
    if "phase x = Writing d" "in_progress x" "ready x" for x d
    using pump_drains_writing [OF that] rep by blast
  show ?thesis
  proof (cases "phase s")
    case Idle
    with assms show ?thesis by (simp add: pump_inv_def)
  next
    case (Writing d)
    with writing assms show ?thesis by blast
  next
    case Ready
    have a: "apply_event Resume s = resume s" using Ready by (simp add: apply_event_def)
    show ?thesis
    proof (cases "queue s")
      case Nil
      with resume_end [of s] Ready a show ?thesis
        by (intro exI [of _ "[Resume]"]) (simp add: run_events_def content_def Let_def)
    next
      case (Cons d q)
      note t = resume_take [OF Cons assms(3,2)]
      then obtain es where es: "enqueued es = []" "no_failure es"
        "let s' = run_events es (resume s) in queue s' = [] \<and> phase s' = Idle \<and> written s' = content (resume s)"
        using writing [of "resume s" d] by blast
      have "content (resume s) = content s" using t Cons Ready by (simp add: content_def)
      with es a show ?thesis by (intro exI [of _ "Resume # es"]) (simp add: run_events_Cons)
    qed
  qed
qed

end

end
