(* ===== verification/Client_State.thy ===== *)
theory Client_State
  imports Framing Path_Match Resource Write_Pump
begin

text \<open>
  The state of the client of \<^verbatim>\<open>client.hpp\<close>, its configuration, the maps of resources, streams and
  events, the outgoing queue, and the messages of the server API. Pointers to resources, which the
  code keeps in \<open>streams_\<close>, are references into the maps that own the resources.
\<close>

section \<open>State\<close>

datatype client_state =
    CONNECTING | CONNECTED | AUTHENTICATING | AUTHENTICATED | AUTH_FAILED | DISCONNECTED
  | CONNECTION_ERROR | STREAMS_READY

datatype transport_type = TCP | SSL | WEBSOCKET

datatype res_ref = Resource_At string | Event_At byte

record stream_config =
  sc_resource :: "res_ref option"
  sc_interval :: u32
  sc_last :: u64

definition new_stream_config :: stream_config where
  "new_stream_config = \<lparr>sc_resource = None, sc_interval = 0, sc_last = 0\<rparr>"

text \<open>
  \<open>c_socket\<close> is \<open>None\<close> for a null \<open>socket_\<close> and otherwise whether it is open. \<open>c_wire\<close> is what
  was handed to the socket, write by write; \<open>c_states\<close> what the state callback was told; \<open>c_deferred\<close> the
  continuations waiting on the resource pool; \<open>c_world\<close> the state of the application.
\<close>

record 'w client =
  c_running :: bool
  c_connected :: bool
  c_socket :: "bool option"
  c_transport :: transport_type
  c_verify_ssl :: bool
  c_host :: string
  c_port :: u16
  c_username :: string
  c_device_id :: string
  c_device_password :: string
  c_resources :: "(string \<times> 'w resource) list"
  c_streams :: "(stream_id \<times> stream_config) list"
  c_events :: "(byte \<times> 'w server_event) list"
  c_write_queue :: "byte list list"
  c_write_in_progress :: bool
  c_pump :: "byte list pump"
  c_wire :: "byte list list"
  c_states :: "(client_state \<times> string) list"
  c_deferred :: "('w \<Rightarrow> 'w) list"
  c_world :: 'w

definition new_client :: "'w \<Rightarrow> 'w client" where
  "new_client w = \<lparr>c_running = False, c_connected = False, c_socket = None, c_transport = SSL,
     c_verify_ssl = True, c_host = [], c_port = 25206, c_username = [], c_device_id = [],
     c_device_password = [], c_resources = [], c_streams = [], c_events = [], c_write_queue = [],
     c_write_in_progress = False, c_pump = Idle, c_wire = [], c_states = [], c_deferred = [], c_world = w\<rparr>"

section \<open>Configuration\<close>

definition set_credentials :: "string \<Rightarrow> string \<Rightarrow> string \<Rightarrow> 'w client \<Rightarrow> 'w client" where
  "set_credentials user device password c =
     c\<lparr>c_username := user, c_device_id := device, c_device_password := password\<rparr>"

definition set_host :: "string \<Rightarrow> 'w client \<Rightarrow> 'w client" where
  "set_host h c = c\<lparr>c_host := h\<rparr>"

definition set_verify_ssl :: "bool \<Rightarrow> 'w client \<Rightarrow> 'w client" where
  "set_verify_ssl b c = c\<lparr>c_verify_ssl := b\<rparr>"

fun default_port :: "transport_type \<Rightarrow> u16" where
  "default_port SSL = 25206"
| "default_port TCP = 25204"
| "default_port WEBSOCKET = 443"

definition set_transport :: "transport_type \<Rightarrow> 'w client \<Rightarrow> 'w client" where
  "set_transport t c = c\<lparr>c_transport := t, c_port := default_port t\<rparr>"

definition is_connected :: "'w client \<Rightarrow> bool" where
  "is_connected c \<longleftrightarrow> c_connected c \<and> c_socket c = Some True"

definition notify_state :: "client_state \<Rightarrow> string \<Rightarrow> 'w client \<Rightarrow> 'w client" where
  "notify_state s reason c = c\<lparr>c_states := c_states c @ [(s, reason)]\<rparr>"

section \<open>Resources\<close>

text \<open>\<open>operator[]\<close> creates the resource when the path is new.\<close>

definition client_index :: "string \<Rightarrow> 'w client \<Rightarrow> 'w resource \<times> 'w client" where
  "client_index path c =
     (case map_of (c_resources c) path of
        Some r \<Rightarrow> (r, c)
      | None \<Rightarrow> (new_resource, c\<lparr>c_resources := sm_put path new_resource (c_resources c)\<rparr>))"

definition put_resource :: "string \<Rightarrow> 'w resource \<Rightarrow> 'w client \<Rightarrow> 'w client" where
  "put_resource path r c = c\<lparr>c_resources := sm_put path r (c_resources c)\<rparr>"

definition erase_resource :: "string \<Rightarrow> 'w client \<Rightarrow> bool \<times> 'w client" where
  "erase_resource path c =
     (map_of (c_resources c) path \<noteq> None, c\<lparr>c_resources := sm_del path (c_resources c)\<rparr>)"

text \<open>What a pointer kept by the client refers to; \<open>None\<close> is a dangling pointer.\<close>

fun deref :: "'w client \<Rightarrow> res_ref \<Rightarrow> 'w resource option" where
  "deref c (Resource_At p) = map_of (c_resources c) p"
| "deref c (Event_At e) = map_option ev_resource (map_of (c_events c) e)"

fun set_deref :: "res_ref \<Rightarrow> 'w resource \<Rightarrow> 'w client \<Rightarrow> 'w client" where
  "set_deref (Resource_At p) r c = c\<lparr>c_resources := sm_put p r (c_resources c)\<rparr>"
| "set_deref (Event_At e) r c =
     (case map_of (c_events c) e of
        None \<Rightarrow> c
      | Some ev \<Rightarrow> c\<lparr>c_events := sm_put e (ev\<lparr>ev_resource := r\<rparr>) (c_events c)\<rparr>)"

section \<open>Sending\<close>

text \<open>\<open>write_queue_.emplace\<close>, and the start of \<open>process_write_queue\<close> if it is not running.\<close>

definition queue_write :: "byte list \<Rightarrow> 'w client \<Rightarrow> 'w client" where
  "queue_write data c =
     (let c1 = c\<lparr>c_write_queue := c_write_queue c @ [data]\<rparr> in
      if c_write_in_progress c then c1 else c1\<lparr>c_write_in_progress := True, c_pump := Ready\<rparr>)"

definition send_message :: "iotmp_message \<Rightarrow> 'w client \<Rightarrow> 'w client" where
  "send_message m c = queue_write (encode_message m) c"

text \<open>
  \<open>process_write_queue\<close> up to its next suspension: it starts the write of the front of the queue, or
  ends. \<open>pump_written\<close> is the completion of that write with or without an error.
\<close>

definition pump_next :: "'w client \<Rightarrow> 'w client" where
  "pump_next c =
     (case c_write_queue c of
        data # queue \<Rightarrow>
          (if c_connected c \<and> c_socket c \<noteq> None
           then c\<lparr>c_write_queue := queue, c_pump := Writing data\<rparr>
           else c\<lparr>c_write_in_progress := False, c_pump := Idle\<rparr>)
      | [] \<Rightarrow> c\<lparr>c_write_in_progress := False, c_pump := Idle\<rparr>)"

definition close_socket :: "'w client \<Rightarrow> 'w client" where
  "close_socket c = c\<lparr>c_connected := False, c_socket := map_option (\<lambda>_. False) (c_socket c)\<rparr>"

definition pump_written :: "bool \<Rightarrow> 'w client \<Rightarrow> 'w client" where
  "pump_written ok c =
     (case c_pump c of
        Writing data \<Rightarrow>
          (if ok then pump_next (c\<lparr>c_wire := c_wire c @ [data]\<rparr>)
           else (close_socket c)\<lparr>c_write_in_progress := False, c_pump := Idle\<rparr>)
      | _ \<Rightarrow> c)"

fun pump_step :: "byte list pump_event \<Rightarrow> 'w client \<Rightarrow> 'w client" where
  "pump_step (Enqueue data) c = queue_write data c"
| "pump_step Resume c = (if c_pump c = Ready then pump_next c else c)"
| "pump_step (Written ok) c = pump_written ok c"

definition run_pump :: "byte list pump_event list \<Rightarrow> 'w client \<Rightarrow> 'w client" where
  "run_pump es c = fold pump_step es c"

text \<open>\<open>write_message\<close>: written directly, past the queue, with the outcome of the write.\<close>

definition write_message :: "iotmp_message \<Rightarrow> bool \<Rightarrow> 'w client \<Rightarrow> bool \<times> 'w client" where
  "write_message m ok c =
     (if ok then (True, c\<lparr>c_wire := c_wire c @ [encode_message m]\<rparr>)
      else (False, close_socket c))"

definition stop_stream :: "stream_id \<Rightarrow> 'w client \<Rightarrow> bool \<times> 'w client" where
  "stop_stream sid c =
     (if \<not> c_connected c then (False, c)
      else (True, send_message (set_stream_id sid (new_message STOP_STREAM)) c))"

definition stream_json :: "stream_id \<Rightarrow> json \<Rightarrow> 'w client \<Rightarrow> bool \<times> 'w client" where
  "stream_json sid data c =
     (if \<not> c_connected c then (False, c)
      else (True, send_message (set_field PAYLOAD data (set_stream_id sid (new_message STREAM_DATA))) c))"

definition stream_bytes :: "stream_id \<Rightarrow> byte list \<Rightarrow> 'w client \<Rightarrow> bool \<times> 'w client" where
  "stream_bytes sid data c =
     (if \<not> c_connected c then (False, c)
      else (True, send_message (set_field PAYLOAD (JBin data) (set_stream_id sid (new_message STREAM_DATA))) c))"

section \<open>The server API\<close>

text \<open>The requests the API builds; the stream id is drawn when a response is awaited.\<close>

definition api_request :: "u64 \<Rightarrow> json \<Rightarrow> iotmp_message" where
  "api_request call prms = set_field PARAMETERS prms (set_field RESOURCE (JUInt call) (new_message RUN))"

definition get_property_request :: "string \<Rightarrow> iotmp_message" where
  "get_property_request property_id = api_request READ_DEVICE_PROPERTY (JStr property_id)"

definition set_property_request :: "string \<Rightarrow> json \<Rightarrow> iotmp_message" where
  "set_property_request property_id data =
     set_field PAYLOAD data (api_request SET_DEVICE_PROPERTY (JStr property_id))"

definition write_bucket_request :: "string \<Rightarrow> json \<Rightarrow> iotmp_message" where
  "write_bucket_request bucket_id data =
     set_field PAYLOAD data (api_request WRITE_BUCKET (JStr bucket_id))"

definition call_endpoint_request :: "string \<Rightarrow> iotmp_message" where
  "call_endpoint_request endpoint_name = api_request CALL_ENDPOINT (JStr endpoint_name)"

definition call_endpoint_data_request :: "string \<Rightarrow> json \<Rightarrow> iotmp_message" where
  "call_endpoint_data_request endpoint_name data =
     set_field PAYLOAD data (api_request CALL_ENDPOINT (JStr endpoint_name))"

definition call_device_request :: "string \<Rightarrow> string \<Rightarrow> iotmp_message" where
  "call_device_request device res = api_request CALL_DEVICE (JArr [JStr device, JStr res])"

definition call_device_data_request :: "string \<Rightarrow> string \<Rightarrow> json \<Rightarrow> iotmp_message" where
  "call_device_data_request device res data =
     set_field PAYLOAD data (api_request CALL_DEVICE (JArr [JStr device, JStr res]))"

definition add_payload :: "bool \<Rightarrow> string \<Rightarrow> json \<Rightarrow> iotmp_message \<Rightarrow> iotmp_message" where
  "add_payload cond key v m =
     (if cond then
        (case j_put key v (const_field PAYLOAD m) of Some p \<Rightarrow> set_field PAYLOAD p m | None \<Rightarrow> m)
      else m)"

definition lock_sync_request :: "string \<Rightarrow> string \<Rightarrow> u16 \<Rightarrow> u16 \<Rightarrow> iotmp_message" where
  "lock_sync_request sync_id lock_id slots timeout_seconds =
     add_payload (timeout_seconds > 0) ''timeout'' (JUInt (ucast timeout_seconds))
       (add_payload (slots > 1) ''slots'' (JUInt (ucast slots))
         (add_payload (lock_id \<noteq> []) ''lock'' (JStr lock_id) (api_request LOCK_SYNC (JStr sync_id))))"

definition unlock_sync_request :: "string \<Rightarrow> string \<Rightarrow> iotmp_message" where
  "unlock_sync_request sync_id lock_id =
     add_payload True ''lock'' (JStr lock_id) (api_request UNLOCK_SYNC (JStr sync_id))"

section \<open>Event subscriptions\<close>

definition next_event_id :: "'w client \<Rightarrow> byte" where
  "next_event_id c = (if c_events c = [] then 1 else fst (last (c_events c)) + 1)"

text \<open>
  The entry at the new id (an existing one if the id wrapped) gets the call and the assignments to its
  parameters; a parameter value that is not an object makes the assignment throw (\<open>None\<close>).
\<close>

definition event_entry :: "byte \<Rightarrow> 'w client \<Rightarrow> 'w server_event" where
  "event_entry i c = (case map_of (c_events c) i of Some ev \<Rightarrow> ev | None \<Rightarrow> new_server_event)"

fun put_all :: "(string \<times> json) list \<Rightarrow> json \<Rightarrow> json option" where
  "put_all [] v = Some v"
| "put_all ((k, x) # kvs) v = Option.bind (j_put k x v) (put_all kvs)"

definition add_event :: "(string \<times> json) list \<Rightarrow> 'w client \<Rightarrow> (byte \<times> 'w client) option" where
  "add_event assignments c =
     (let i = next_event_id c; ev = event_entry i c in
      map_option (\<lambda>p. (i, c\<lparr>c_events := sm_put i (ev\<lparr>ev_run := SUBSCRIBE_EVENT, ev_params := p\<rparr>) (c_events c)\<rparr>))
        (put_all assignments (ev_params ev)))"

definition topic_publish_stream :: "string \<Rightarrow> byte \<Rightarrow> bool \<Rightarrow> 'w client \<Rightarrow> (byte \<times> 'w client) option" where
  "topic_publish_stream topic qos retained =
     add_event ([(''event'', JStr ''device_topic_publish''), (''scope'', JStr ''publish''), (''topic'', JStr topic)]
       @ (if qos \<noteq> 0 then [(''qos'', JUInt (ucast qos))] else [])
       @ (if retained then [(''retained'', JBool retained)] else []))"

definition topic_subscribe_stream :: "string \<Rightarrow> byte \<Rightarrow> 'w client \<Rightarrow> (byte \<times> 'w client) option" where
  "topic_subscribe_stream topic qos =
     add_event ([(''event'', JStr ''device_topic_publish''), (''scope'', JStr ''subscribe''), (''topic'', JStr topic)]
       @ (if qos \<noteq> 0 then [(''qos'', JUInt (ucast qos))] else []))"

text \<open>The last assignment of \<open>property_stream\<close> goes into the value at \<open>filters\<close>, created if missing.\<close>

definition property_stream :: "string \<Rightarrow> bool \<Rightarrow> 'w client \<Rightarrow> (byte \<times> 'w client) option" where
  "property_stream property fetch c =
     (let filters = (case j_find ''filters'' (ev_params (event_entry (next_event_id c) c)) of
                       Some f \<Rightarrow> f | None \<Rightarrow> JNull) in
      case j_put ''property'' (JStr property) filters of
        None \<Rightarrow> None
      | Some f \<Rightarrow>
          add_event ([(''event'', JStr ''device_property_update'')]
            @ (if fetch then [(''current'', JBool True)] else []) @ [(''filters'', f)]) c)"

definition event_subscribe :: "string \<Rightarrow> 'w client \<Rightarrow> (byte \<times> 'w client) option" where
  "event_subscribe event_name = add_event [(''event'', JStr event_name)]"

section \<open>The write queue\<close>

interpretation cw: write_pump c_write_queue c_pump c_wire c_write_in_progress
  "\<lambda>c. c_connected c \<and> c_socket c \<noteq> None" queue_write pump_next pump_written
proof unfold_locales
  fix c :: "'w client" and d
  assume "c_pump c = Writing d" and "c_write_in_progress c"
  then show "\<exists>c1. pump_written True c = pump_next c1 \<and> c_write_queue c1 = c_write_queue c \<and>
      c_wire c1 = c_wire c @ [d] \<and> c_write_in_progress c1 \<and>
      (c_connected c1 \<and> c_socket c1 \<noteq> None) = (c_connected c \<and> c_socket c \<noteq> None)"
    by (intro exI [of _ "c\<lparr>c_wire := c_wire c @ [d]\<rparr>"]) (simp add: pump_written_def)
qed (auto simp: queue_write_def Let_def pump_next_def pump_written_def close_socket_def split: list.splits)

lemma pump_step_apply: "pump_step e c = cw.apply_event e c"
  by (cases e; cases "c_pump c") (auto simp: cw.apply_event_def pump_written_def)

lemma run_pump_events:
  fixes c :: "'w client"
  shows "run_pump es c = cw.run_events es c"
proof -
  have "pump_step = (cw.apply_event :: _ \<Rightarrow> 'w client \<Rightarrow> _)" by (intro ext pump_step_apply)
  then show ?thesis by (simp add: run_pump_def cw.run_events_def)
qed

text \<open>C4: writes go out in order. Starting from an idle queue, whatever the interleaving of queueing, resuming and
  completed writes, what has been written to the socket is a subsequence of what was queued, and as long
  as no write failed it is a prefix: what is missing is in flight or still queued.\<close>

theorem writes_in_order:
  assumes "c_pump c = Idle" and "\<not> c_write_in_progress c" and "c_write_queue c = []"
  shows "subseq (c_wire (run_pump es c)) (c_wire c @ enqueued es) \<and>
    (no_failure es \<longrightarrow> c_wire (run_pump es c) @ in_flight (c_pump (run_pump es c)) @ c_write_queue (run_pump es c)
       = c_wire c @ enqueued es)"
proof -
  have inv: "cw.pump_inv c" and start: "cw.content c = c_wire c"
    using assms by (simp_all add: cw.pump_inv_def cw.content_def)
  have "subseq (c_wire (run_pump es c)) (cw.content (run_pump es c))"
    by (auto simp: cw.content_def)
  with cw.pump_order [OF inv, of es] cw.pump_complete [OF inv, of es] start show ?thesis
    by (auto simp: run_pump_events cw.content_def intro: subseq_order.trans)
qed

theorem writes_in_order_witness:
  "c_wire (run_pump [Enqueue [1], Resume, Enqueue [2], Written True, Written True]
     ((new_client ())\<lparr>c_connected := True, c_socket := Some True\<rparr>)) = [[1], [2]]"
proof -
  let ?c = "(new_client ())\<lparr>c_connected := True, c_socket := Some True\<rparr>"
  let ?es = "[Enqueue [1], Resume, Enqueue [2], Written True, Written True] :: byte list pump_event list"
  have "c_pump (run_pump ?es ?c) = Idle" and "c_write_queue (run_pump ?es ?c) = []" by code_simp+
  with writes_in_order [of ?c ?es] show ?thesis by (simp add: new_client_def)
qed

text \<open>The queue drains. While the client stays connected and its writes succeed, the running loop writes
  everything that was queued and then stops.\<close>

theorem writes_drain:
  assumes "c_write_in_progress c \<longleftrightarrow> c_pump c \<noteq> Idle" and "c_write_in_progress c"
    and "c_connected c" and "c_socket c \<noteq> None"
  shows "\<exists>es. enqueued es = [] \<and> no_failure es \<and> c_write_queue (run_pump es c) = [] \<and>
    c_pump (run_pump es c) = Idle \<and>
    c_wire (run_pump es c) = c_wire c @ in_flight (c_pump c) @ c_write_queue c"
  using cw.pump_drains [of c] assms
  by (auto simp: cw.pump_inv_def cw.content_def run_pump_events Let_def)

theorem writes_drain_witness:
  "\<exists>es. c_wire (run_pump es (queue_write [9] ((new_client ())\<lparr>c_connected := True, c_socket := Some True\<rparr>))) = [[9]]"
proof -
  let ?c = "queue_write [9] ((new_client ())\<lparr>c_connected := True, c_socket := Some True\<rparr>)"
  have "c_wire ?c @ in_flight (c_pump ?c) @ c_write_queue ?c = [[9]]" by code_simp
  moreover have "\<exists>es. enqueued es = [] \<and> no_failure es \<and> c_write_queue (run_pump es ?c) = [] \<and>
      c_pump (run_pump es ?c) = Idle \<and> c_wire (run_pump es ?c) = c_wire ?c @ in_flight (c_pump ?c) @ c_write_queue ?c"
    by (rule writes_drain) (simp_all add: queue_write_def new_client_def)
  ultimately show ?thesis by auto
qed

end
