(* ===== verification/Client_Requests.thy ===== *)
theory Client_Requests
  imports Client_State
begin

text \<open>
  Handling what the server sends: \<open>handle_message\<close>, \<open>handle_resource_request\<close> and \<open>stream_resource\<close> of
  \<^verbatim>\<open>client.hpp\<close>. A handler runs to its end in one step here; callbacks of the application, and
  work the code moves to the resource pool, happen within that step.
\<close>

section \<open>Outcomes\<close>

text \<open>
  A handling coroutine ends, or an exception of a callback or of a JSON assignment ends it (the detached
  coroutine drops it), or it follows a dangling pointer.
\<close>

datatype outcome = Finished | Threw | Undefined

section \<open>Streaming a resource\<close>

definition stream_message :: "'w run_result \<Rightarrow> iotmp_message" where
  "stream_message res =
     (if has_field PAYLOAD (rr_response res) then rr_response res else rr_request res)"

definition stream_resource :: "'w resource \<Rightarrow> stream_id \<Rightarrow> 'w client \<Rightarrow> bool option \<times> 'w client" where
  "stream_resource r sid c =
     (case run_resource r (new_message STREAM_DATA) (new_message STREAM_DATA) (c_world c) of
        (None, w) \<Rightarrow> (None, c\<lparr>c_world := w\<rparr>)
      | (Some res, w) \<Rightarrow>
          (let msg = stream_message res in
           if has_field PAYLOAD msg
           then (Some True, send_message (set_stream_id sid msg) (c\<lparr>c_world := w\<rparr>))
           else (Some False, c\<lparr>c_world := w\<rparr>)))"

section \<open>Finding the resource of a request\<close>

definition stream_ref :: "'w client \<Rightarrow> iotmp_message \<Rightarrow> res_ref option" where
  "stream_ref c request =
     (if msg_type request = STREAM_DATA \<or> msg_type request = STOP_STREAM
      then Option.bind (map_of (c_streams c) (get_stream_id request)) sc_resource
      else None)"

definition find_resource :: "'w client \<Rightarrow> iotmp_message \<Rightarrow> (res_ref option \<times> iotmp_message) option" where
  "find_resource c request =
     (case stream_ref c request of
        Some ref \<Rightarrow> Some (Some ref, request)
      | None \<Rightarrow>
          (case field_of RESOURCE request of
             Some (JStr path) \<Rightarrow>
               (case get_resource (c_resources c) path (const_field 0 request) of
                  None \<Rightarrow> None
                | Some (found, pm) \<Rightarrow> Some (map_option Resource_At found, set_field 0 pm request))
           | _ \<Rightarrow> Some (None, request)))"

text \<open>The API listing: one entry for each resource, created null and then filled.\<close>

definition list_resource :: "string \<times> 'w resource \<Rightarrow> iotmp_message option \<Rightarrow> iotmp_message option" where
  "list_resource = (\<lambda>(path, r) acc. Option.bind acc (\<lambda>m.
     Option.bind (fill_api r (case j_find path (const_field PAYLOAD m) of Some v \<Rightarrow> v | None \<Rightarrow> JNull)) (\<lambda>content.
     map_option (\<lambda>p. set_field PAYLOAD p m) (j_put path content (const_field PAYLOAD m)))))"

definition list_api :: "(string \<times> 'w resource) list \<Rightarrow> iotmp_message \<Rightarrow> iotmp_message option" where
  "list_api rs m = fold list_resource rs (Some m)"

section \<open>The five requests\<close>

definition handle_run :: "'w resource \<Rightarrow> iotmp_message \<Rightarrow> 'w client \<Rightarrow> outcome \<times> 'w client" where
  "handle_run r request c =
     (case run_resource r request (new_stream_message (get_stream_id request) OK) (c_world c) of
        (None, w) \<Rightarrow> (Threw, c\<lparr>c_world := w\<rparr>)
      | (Some res, w) \<Rightarrow>
          (let response = set_message_type (if rr_success res then OK else ERROR) (rr_response res);
               c1 = send_message response (c\<lparr>c_world := w\<rparr>)
           in (Finished,
               case rr_after res of
                 None \<Rightarrow> c1
               | Some cb \<Rightarrow> c1\<lparr>c_deferred := c_deferred c1 @ [cb]\<rparr>)))"

definition handle_describe :: "'w resource \<Rightarrow> iotmp_message \<Rightarrow> 'w client \<Rightarrow> outcome \<times> 'w client" where
  "handle_describe r request c =
     (case describe r (new_stream_message (get_stream_id request) OK) (c_world c) of
        (None, w) \<Rightarrow> (Threw, c\<lparr>c_world := w\<rparr>)
      | (Some response, w) \<Rightarrow> (Finished, send_message response (c\<lparr>c_world := w\<rparr>)))"

text \<open>The result handler of a started stream: the result goes out, and the state after a success.\<close>

fun deliver_started :: "'w resource \<Rightarrow> stream_id \<Rightarrow> exec_result list \<Rightarrow> 'w client \<Rightarrow> outcome \<times> 'w client" where
  "deliver_started r sid [] c = (Finished, c)"
| "deliver_started r sid (result # results) c =
     (let c1 = send_message (set_stream_id sid result) c in
      if exec_ok result \<and> r_stream_echo r then
        (case stream_resource r sid c1 of
           (None, c2) \<Rightarrow> (Threw, c2)
         | (Some _, c2) \<Rightarrow> deliver_started r sid results c2)
      else deliver_started r sid results c1)"

definition handle_start_stream :: "res_ref \<Rightarrow> 'w resource \<Rightarrow> iotmp_message \<Rightarrow> 'w client \<Rightarrow> outcome \<times> 'w client" where
  "handle_start_stream ref r request c =
     (let sid = get_stream_id request;
          interval = get_num (const_field PARAMETERS request) ''interval'' 0;
          cfg0 = (case map_of (c_streams c) sid of Some cfg \<Rightarrow> cfg | None \<Rightarrow> new_stream_config);
          c1 = c\<lparr>c_streams := sm_put sid (cfg0\<lparr>sc_resource := Some ref, sc_interval := interval\<rparr>) (c_streams c)\<rparr>;
          r1 = (if interval = 0 then set_resource_stream_id sid r else r);
          c2 = (if interval = 0 then set_deref ref r1 c1 else c1)
      in if has_stream_handler r1 then
           (case handle_stream r1 sid (const_field 0 request) (const_field PARAMETERS request) True (c_world c2) of
              (None, w) \<Rightarrow> (Threw, c2\<lparr>c_world := w\<rparr>)
            | (Some results, w) \<Rightarrow> deliver_started r1 sid results (c2\<lparr>c_world := w\<rparr>))
         else
           (let c3 = send_message (new_stream_message sid OK) c2 in
            if r_stream_echo r1 then
              (case stream_resource r1 sid c3 of
                 (None, c4) \<Rightarrow> (Threw, c4)
               | (Some _, c4) \<Rightarrow> (Finished, c4))
            else (Finished, c3)))"

definition handle_stop_stream :: "res_ref \<Rightarrow> 'w resource \<Rightarrow> iotmp_message \<Rightarrow> 'w client \<Rightarrow> outcome \<times> 'w client" where
  "handle_stop_stream ref r request c =
     (let sid = get_stream_id request;
          r1 = (if r_stream_id r = sid then set_resource_stream_id 0 r else r);
          c1 = (if r_stream_id r = sid then set_deref ref r1 c else c);
          c2 = c1\<lparr>c_streams := sm_del sid (c_streams c1)\<rparr>
      in if has_stream_handler r1 then
           (case handle_stream r1 sid (const_field PARAMETERS request) JNull False (c_world c2) of
              (None, w) \<Rightarrow> (Threw, c2\<lparr>c_world := w\<rparr>)
            | (Some results, w) \<Rightarrow>
                (Finished, fold (\<lambda>result. send_message (set_stream_id sid result)) results (c2\<lparr>c_world := w\<rparr>)))
         else (Finished, send_message (new_stream_message sid OK) c2))"

definition handle_stream_data :: "'w resource \<Rightarrow> iotmp_message \<Rightarrow> 'w client \<Rightarrow> outcome \<times> 'w client" where
  "handle_stream_data r request c =
     (case run_resource r request (new_stream_message (get_stream_id request) STREAM_DATA) (c_world c) of
        (None, w) \<Rightarrow> (Threw, c\<lparr>c_world := w\<rparr>)
      | (Some _, w) \<Rightarrow>
          (if r_stream_echo r \<and> (r_io_type r = input_wrapper \<or> r_io_type r = input_output_wrapper) then
             (case stream_resource r (get_stream_id request) (c\<lparr>c_world := w\<rparr>) of
                (None, c1) \<Rightarrow> (Threw, c1)
              | (Some _, c1) \<Rightarrow> (Finished, c1))
           else (Finished, c\<lparr>c_world := w\<rparr>)))"

definition handle_unresolved :: "iotmp_message \<Rightarrow> 'w client \<Rightarrow> outcome \<times> 'w client" where
  "handle_unresolved request c =
     (if msg_type request = DESCRIBE \<and> \<not> has_field RESOURCE request then
        (case list_api (c_resources c) (new_stream_message (get_stream_id request) OK) of
           None \<Rightarrow> (Threw, c)
         | Some response \<Rightarrow> (Finished, send_message response c))
      else if msg_type request \<noteq> STREAM_DATA then
        (Finished, send_message (new_stream_message (get_stream_id request) ERROR) c)
      else (Finished, c))"

definition handle_resource_request :: "iotmp_message \<Rightarrow> 'w client \<Rightarrow> outcome \<times> 'w client" where
  "handle_resource_request request c =
     (case find_resource c request of
        None \<Rightarrow> (Threw, c)
      | Some (None, request') \<Rightarrow> handle_unresolved request' c
      | Some (Some ref, request') \<Rightarrow>
          (case deref c ref of
             None \<Rightarrow> (Undefined, c)
           | Some r \<Rightarrow>
               (case msg_type request' of
                  RUN \<Rightarrow> handle_run r request' c
                | DESCRIBE \<Rightarrow> handle_describe r request' c
                | START_STREAM \<Rightarrow> handle_start_stream ref r request' c
                | STOP_STREAM \<Rightarrow> handle_stop_stream ref r request' c
                | STREAM_DATA \<Rightarrow> handle_stream_data r request' c
                | _ \<Rightarrow> (Finished, c))))"

definition handle_message :: "iotmp_message \<Rightarrow> 'w client \<Rightarrow> outcome \<times> 'w client" where
  "handle_message m c =
     (if msg_type m \<in> {RUN, DESCRIBE, START_STREAM, STOP_STREAM, STREAM_DATA}
      then handle_resource_request m c else (Finished, c))"

text \<open>The continuation of a handler, after its response.\<close>

definition run_deferred :: "'w client \<Rightarrow> 'w client" where
  "run_deferred c =
     (case c_deferred c of
        [] \<Rightarrow> c
      | cb # cbs \<Rightarrow> c\<lparr>c_deferred := cbs, c_world := cb (c_world c)\<rparr>)"

end
