(* ===== verification/Client_Frame.thy ===== *)
theory Client_Frame
  imports Client_Requests
begin

text \<open>
  Frame reasoning for the request handlers. A relation between the client before and after that survives
  sending, calls of the application and the bookkeeping of a handler survives the handler. The
  locales state what the relation must survive; the properties instantiate them with the parts of
  the state they need unchanged.
\<close>

locale client_frame =
  fixes R :: "'w client \<Rightarrow> 'w client \<Rightarrow> bool"
  assumes R_refl: "R c c"
    and R_trans: "R c c' \<Longrightarrow> R c' c'' \<Longrightarrow> R c c''"
    and R_send: "R c (send_message m c)"
    and R_world: "R c (c\<lparr>c_world := w\<rparr>)"
    and R_deferred: "R c (c\<lparr>c_deferred := d\<rparr>)"
begin

lemma R_send': "R c c' \<Longrightarrow> R c (send_message m c')"
  by (rule R_trans [OF _ R_send])

lemma R_world': "R c c' \<Longrightarrow> R c (c'\<lparr>c_world := w\<rparr>)"
  by (rule R_trans [OF _ R_world])

lemma R_deferred': "R c c' \<Longrightarrow> R c (c'\<lparr>c_deferred := d\<rparr>)"
  by (rule R_trans [OF _ R_deferred])

lemmas R_intros = R_refl R_send' R_world' R_deferred'

lemma stream_resource_R: "stream_resource r sid c = (res, c') \<Longrightarrow> R c c'"
  by (auto simp: stream_resource_def Let_def split: option.splits prod.splits if_splits intro: R_intros)

lemma deliver_started_R: "deliver_started r sid results c = (out, c') \<Longrightarrow> R c c'"
proof (induction r sid results c arbitrary: out c' rule: deliver_started.induct)
  case (1 r sid c)
  then show ?case by (simp add: R_refl)
next
  case (2 r sid result results c)
  let ?c1 = "send_message (set_stream_id sid result) c"
  show ?case
  proof (cases "exec_ok result \<and> r_stream_echo r")
    case True
    obtain res c2 where s: "stream_resource r sid ?c1 = (res, c2)" by fastforce
    have 12: "R c c2" using R_send stream_resource_R [OF s] by (rule R_trans)
    show ?thesis
    proof (cases res)
      case None
      with "2.prems" True s 12 show ?thesis by (simp add: Let_def)
    next
      case (Some b)
      with "2.prems" True s have "deliver_started r sid results c2 = (out, c')" by (simp add: Let_def)
      from R_trans [OF 12 "2.IH"(1) [OF refl True s [symmetric] Some this]] show ?thesis .
    qed
  next
    case False
    with "2.prems" have "deliver_started r sid results ?c1 = (out, c')" by (auto simp: Let_def)
    from R_trans [OF R_send "2.IH"(2) [OF refl False this]] show ?thesis .
  qed
qed

lemma fold_send_R: "R c c' \<Longrightarrow> R c (fold (\<lambda>r. send_message (set_stream_id sid r)) rs c')"
  by (induction rs arbitrary: c') (auto intro: R_send')

lemma handle_run_R: "handle_run r m c = (out, c') \<Longrightarrow> R c c'"
  by (auto simp: handle_run_def Let_def split: option.splits prod.splits intro: R_intros)

lemma handle_describe_R: "handle_describe r m c = (out, c') \<Longrightarrow> R c c'"
  by (auto simp: handle_describe_def split: option.splits prod.splits intro: R_intros)

lemma handle_stream_data_R: "handle_stream_data r m c = (out, c') \<Longrightarrow> R c c'"
  by (auto simp: handle_stream_data_def split: option.splits prod.splits if_splits
      dest!: stream_resource_R intro: R_trans [OF R_world] R_intros)

lemma handle_unresolved_R: "handle_unresolved m c = (out, c') \<Longrightarrow> R c c'"
  by (auto simp: handle_unresolved_def split: option.splits if_splits intro: R_intros)

end

text \<open>A relation that also survives changes of the streams and of the stream ids of resources survives
  every message.\<close>

locale client_frame_all = client_frame +
  assumes R_streams: "R c (c\<lparr>c_streams := x\<rparr>)"
    and R_set_deref: "R c (set_deref ref r c)"
begin

lemma R_streams': "R c c' \<Longrightarrow> R c (c'\<lparr>c_streams := x\<rparr>)"
  by (rule R_trans [OF _ R_streams])

lemma R_set_deref': "R c c' \<Longrightarrow> R c (set_deref ref r c')"
  by (rule R_trans [OF _ R_set_deref])

lemmas R_all_intros = R_intros R_streams' R_set_deref'

lemma handle_start_stream_R:
  assumes "handle_start_stream ref r m c = (out, c')"
  shows "R c c'"
  using assms unfolding handle_start_stream_def Let_def
  by (auto split: if_splits option.splits prod.splits dest!: deliver_started_R stream_resource_R
      intro: R_all_intros R_trans [OF R_all_intros(2)] elim!: R_trans [rotated])

lemma handle_stop_stream_R:
  assumes "handle_stop_stream ref r m c = (out, c')"
  shows "R c c'"
  using assms unfolding handle_stop_stream_def Let_def
  by (auto split: if_splits option.splits prod.splits intro!: fold_send_R R_all_intros)

lemma handle_message_R: "R c (snd (handle_message m c))"
proof -
  have "R c c'" if "handle_resource_request m c = (out, c')" for out c'
    using that unfolding handle_resource_request_def
    by (auto split: option.splits prod.splits message_type.splits intro: R_refl handle_unresolved_R handle_run_R
        handle_describe_R handle_stream_data_R handle_start_stream_R handle_stop_stream_R)
  then have "R c (snd (handle_resource_request m c))" by (metis prod.collapse)
  then show ?thesis by (simp add: handle_message_def R_refl)
qed

end

end
