(* ===== verification/Client_Correct.thy ===== *)
theory Client_Correct
  imports Client_Frame
begin

text \<open>
  What handling requests keeps and answers: the references in \<open>streams_\<close> stay valid, every request
  that must be answered gets exactly one answer with its stream id, and streams are
  registered and removed as the protocol says.
\<close>

section \<open>Frames\<close>

text \<open>Sending and streaming leave the maps of the client alone.\<close>

definition same_maps :: "'w client \<Rightarrow> 'w client \<Rightarrow> bool" where
  "same_maps c c' \<longleftrightarrow> c_streams c' = c_streams c \<and> c_resources c' = c_resources c \<and> c_events c' = c_events c"

lemma same_maps_refl [simp]: "same_maps c c"
  by (simp add: same_maps_def)

lemma same_maps_trans [trans]: "same_maps c c' \<Longrightarrow> same_maps c' c'' \<Longrightarrow> same_maps c c''"
  by (simp add: same_maps_def)

lemma send_message_same [simp]: "same_maps c (send_message m c)"
  by (simp add: same_maps_def send_message_def queue_write_def Let_def)

lemma send_message_queue [client_simps]:
  "c_write_queue (send_message m c) = c_write_queue c @ [encode_message m]"
  "c_world (send_message m c) = c_world c" "c_deferred (send_message m c) = c_deferred c"
  "c_streams (send_message m c) = c_streams c" "c_resources (send_message m c) = c_resources c"
  "c_events (send_message m c) = c_events c"
  by (simp_all add: send_message_def queue_write_def Let_def)

interpretation maps: client_frame same_maps
  by unfold_locales (auto simp: same_maps_def client_simps)

lemma deliver_started_defined: "deliver_started r sid results c \<noteq> (Undefined, c')"
  by (induction r sid results c rule: deliver_started.induct)
     (auto simp: Let_def split: option.splits prod.splits)

section \<open>References\<close>

definition live :: "'w client \<Rightarrow> res_ref set" where
  "live c = {ref. deref c ref \<noteq> None}"

text \<open>Every reference kept in \<open>streams_\<close> is alive.\<close>

definition streams_ok :: "'w client \<Rightarrow> bool" where
  "streams_ok c \<longleftrightarrow> (\<forall>sid cfg ref. map_of (c_streams c) sid = Some cfg \<longrightarrow> sc_resource cfg = Some ref \<longrightarrow> ref \<in> live c)"

lemma live_same: "same_maps c c' \<Longrightarrow> live c' = live c"
proof -
  assume s: "same_maps c c'"
  have "deref c' ref = deref c ref" for ref
    using s by (cases ref) (simp_all add: same_maps_def)
  then show ?thesis by (simp add: live_def)
qed

lemma streams_ok_same: "same_maps c c' \<Longrightarrow> streams_ok c \<Longrightarrow> streams_ok c'"
  using live_same [of c c'] by (auto simp: streams_ok_def same_maps_def)

lemma live_set_deref: "ref \<in> live c \<Longrightarrow> live (set_deref ref r c) = live c"
proof -
  assume ref: "ref \<in> live c"
  have "deref (set_deref ref r c) x \<noteq> None \<longleftrightarrow> deref c x \<noteq> None" for x
    using ref by (cases ref; cases x) (auto simp: live_def split: option.splits)
  then show ?thesis by (simp add: live_def)
qed

lemma set_deref_streams [simp]: "c_streams (set_deref ref r c) = c_streams c"
  by (cases ref) (auto split: option.splits)

lemma deref_set_deref: "ref \<in> live c \<Longrightarrow> deref (set_deref ref r c) ref = Some r"
  by (cases ref) (auto simp: live_def split: option.splits)

lemma get_resource_member: "get_resource rs req pm = Some (Some p, pm') \<Longrightarrow> p \<in> fst ` set rs"
  by (induction rs req pm rule: get_resource.induct) (auto split: option.splits prod.splits bool.splits)

lemma find_resource_live:
  assumes "streams_ok c" and "find_resource c m = Some (Some ref, m')"
  shows "ref \<in> live c"
proof (cases "stream_ref c m")
  case None
  with assms(2) obtain path p pm where
    "get_resource (c_resources c) path (const_field 0 m) = Some (Some p, pm)" and ref: "ref = Resource_At p"
    by (auto simp: find_resource_def split: option.splits json.splits)
  then have "p \<in> fst ` set (c_resources c)" by (blast dest: get_resource_member)
  then show ?thesis by (metis (mono_tags, lifting) deref.simps(1) live_def map_of_eq_None_iff mem_Collect_eq ref)
next
  case (Some ref')
  with assms show ?thesis
    by (auto simp: find_resource_def stream_ref_def streams_ok_def bind_eq_Some_conv split: if_splits)
qed

lemma find_resource_frame:
  assumes "find_resource c m = Some (ref, m')"
  shows "msg_type m' = msg_type m" and "get_stream_id m' = get_stream_id m"
    and "has_field RESOURCE m' = has_field RESOURCE m"
  using assms
  by (auto simp: find_resource_def field_defs has_field_def split: option.splits json.splits)

lemma start_stream_ok:
  assumes "streams_ok c" and "ref \<in> live c" and "handle_start_stream ref r m c = (out, c')"
  shows "streams_ok c' \<and> out \<noteq> Undefined \<and> live c' = live c \<and>
    (\<exists>cfg. map_of (c_streams c') (get_stream_id m) = Some cfg \<and> sc_resource cfg = Some ref \<and>
       sc_interval cfg = get_num (const_field PARAMETERS m) ''interval'' 0)"
proof -
  define sid where "sid = get_stream_id m"
  define interval :: u32 where "interval = get_num (const_field PARAMETERS m) ''interval'' 0"
  define cfg where "cfg = (case map_of (c_streams c) sid of Some cfg \<Rightarrow> cfg | None \<Rightarrow> new_stream_config)
      \<lparr>sc_resource := Some ref, sc_interval := interval\<rparr>"
  define c1 where "c1 = c\<lparr>c_streams := sm_put sid cfg (c_streams c)\<rparr>"
  define r1 where "r1 = (if interval = 0 then set_resource_stream_id sid r else r)"
  define c2 where "c2 = (if interval = 0 then set_deref ref r1 c1 else c1)"
  have d: "deref c1 x = deref c x" for x by (cases x) (simp_all add: c1_def)
  then have l1: "live c1 = live c" by (simp add: live_def)
  have l2: "live c2 = live c" using assms(2) l1 by (simp add: c2_def live_set_deref)
  have s2: "c_streams c2 = sm_put sid cfg (c_streams c)" by (simp add: c2_def c1_def)
  have ok2: "streams_ok c2"
    using assms(1,2) l2 s2 by (auto simp: streams_ok_def cfg_def)
  have same: "same_maps c2 c' \<and> out \<noteq> Undefined"
  proof -
    note h = assms(3) [unfolded handle_start_stream_def sid_def [symmetric] interval_def [symmetric] Let_def
        cfg_def [symmetric] c1_def [symmetric] r1_def [symmetric] c2_def [symmetric]]
    have "out \<noteq> Undefined"
      using h deliver_started_defined by (fastforce split: if_splits option.splits prod.splits)
    moreover have "same_maps c2 c'"
      using h by (auto split: if_splits option.splits prod.splits dest!: maps.deliver_started_R maps.stream_resource_R
          intro: same_maps_trans maps.R_world send_message_same)
    ultimately show ?thesis by simp
  qed
  have "live c' = live c" using same live_same [of c2 c'] l2 by simp
  moreover have "map_of (c_streams c') sid = Some cfg" using same s2 by (simp add: same_maps_def)
  moreover have "streams_ok c'" using same ok2 streams_ok_same by blast
  ultimately show ?thesis using same by (simp add: sid_def cfg_def interval_def)
qed

lemma stop_stream_ok:
  assumes "streams_ok c" and "ref \<in> live c" and "deref c ref = Some r"
    and "handle_stop_stream ref r m c = (out, c')"
  shows "streams_ok c' \<and> out \<noteq> Undefined \<and> live c' = live c \<and>
    map_of (c_streams c') (get_stream_id m) = None \<and>
    (get_stream_id m \<noteq> 0 \<longrightarrow> (\<exists>r'. deref c' ref = Some r' \<and> r_stream_id r' \<noteq> get_stream_id m))"
proof -
  define sid where "sid = get_stream_id m"
  define r1 where "r1 = (if r_stream_id r = sid then set_resource_stream_id 0 r else r)"
  define c1 where "c1 = (if r_stream_id r = sid then set_deref ref r1 c else c)"
  define c2 where "c2 = c1\<lparr>c_streams := sm_del sid (c_streams c1)\<rparr>"
  have d: "deref c2 x = deref c1 x" for x by (cases x) (simp_all add: c2_def)
  have l1: "live c1 = live c" using assms(2) by (simp add: c1_def live_set_deref)
  have l2: "live c2 = live c" using d l1 by (simp add: live_def)
  have s2: "c_streams c2 = sm_del sid (c_streams c)" by (simp add: c2_def c1_def)
  have ok2: "streams_ok c2" using assms(1) l2 s2 by (auto simp: streams_ok_def split: if_splits)
  have r2: "deref c2 ref = Some r1"
    using assms(2,3) by (simp add: d) (auto simp: c1_def r1_def deref_set_deref)
  have same: "same_maps c2 c' \<and> out \<noteq> Undefined"
    using assms(4) unfolding handle_stop_stream_def sid_def [symmetric] Let_def
      r1_def [symmetric] c1_def [symmetric] c2_def [symmetric]
    by (auto split: if_splits option.splits prod.splits intro: maps.R_world maps.fold_send_R [OF maps.R_world])
  have "live c' = live c" using same live_same [of c2 c'] l2 by simp
  moreover have "map_of (c_streams c') sid = None" using same s2 by (simp add: same_maps_def)
  moreover have "streams_ok c'" using same ok2 streams_ok_same by blast
  moreover have "deref c' ref = Some r1" using same r2 by (cases ref) (simp_all add: same_maps_def)
  ultimately show ?thesis using same by (auto simp: sid_def [symmetric] r1_def set_resource_stream_id_def)
qed

lemma handle_resource_request_ok:
  assumes ok: "streams_ok c" and h: "handle_resource_request m c = (out, c')"
  shows "streams_ok c' \<and> out \<noteq> Undefined \<and> live c' = live c"
proof (cases "find_resource c m")
  case None
  with h ok show ?thesis by (auto simp: handle_resource_request_def)
next
  case (Some p)
  then obtain ref m' where f: "find_resource c m = Some (ref, m')" by (cases p) auto
  have by_same: "streams_ok c' \<and> live c' = live c" if "same_maps c c'"
    using that ok streams_ok_same live_same by blast
  show ?thesis
  proof (cases ref)
    case None
    with f h have "handle_unresolved m' c = (out, c')" by (simp add: handle_resource_request_def)
    with by_same show ?thesis
      by (auto simp: handle_unresolved_def split: if_splits option.splits dest: maps.handle_unresolved_R)
  next
    case (Some rf)
    with f find_resource_live [OF ok] have l: "rf \<in> live c" by simp
    then obtain r where r: "deref c rf = Some r" by (auto simp: live_def)
    note eq = h [unfolded handle_resource_request_def f Some option.case prod.case r]
    note u = handle_run_def handle_describe_def handle_stream_data_def
    show ?thesis
    proof (cases "msg_type m'")
      case RUN
      with eq have e: "handle_run r m' c = (out, c')" by simp
      with by_same [OF maps.handle_run_R [OF e]] show ?thesis
        by (auto simp: handle_run_def Let_def split: option.splits prod.splits)
    next
      case DESCRIBE
      with eq have e: "handle_describe r m' c = (out, c')" by simp
      with by_same [OF maps.handle_describe_R [OF e]] show ?thesis
        by (auto simp: handle_describe_def split: option.splits prod.splits)
    next
      case START_STREAM
      with eq have "handle_start_stream rf r m' c = (out, c')" by simp
      with start_stream_ok [OF ok l] show ?thesis by blast
    next
      case STOP_STREAM
      with eq have "handle_stop_stream rf r m' c = (out, c')" by simp
      with stop_stream_ok [OF ok l r] show ?thesis by blast
    next
      case STREAM_DATA
      with eq have e: "handle_stream_data r m' c = (out, c')" by simp
      with by_same [OF maps.handle_stream_data_R [OF e]] show ?thesis
        by (auto simp: handle_stream_data_def split: option.splits prod.splits if_splits)
    qed (use eq ok in auto)
  qed
qed

section \<open>Answers\<close>

definition answers :: "iotmp_message \<Rightarrow> 'w client \<Rightarrow> 'w client \<Rightarrow> iotmp_message \<Rightarrow> bool" where
  "answers request c c' resp \<longleftrightarrow> c_write_queue c' = c_write_queue c @ [encode_message resp] \<and>
     get_stream_id resp = get_stream_id request \<and> msg_type resp \<in> {OK, ERROR}"

lemma set_message_type_stream [simp]: "get_stream_id (set_message_type t m) = get_stream_id m"
  by (simp add: set_message_type_def get_stream_id_def field_of_def)

lemma list_api_frame:
  assumes "list_api rs m = Some m'"
  shows "get_stream_id m' = get_stream_id m \<and> msg_type m' = msg_type m"
proof -
  have none: "fold list_resource rs None = None" for rs :: "(string \<times> 'a resource) list"
    by (induction rs) (auto simp: list_resource_def split: prod.splits)
  have "fold list_resource rs (Some m) = Some m' \<Longrightarrow> get_stream_id m' = get_stream_id m \<and> msg_type m' = msg_type m"
    for rs :: "(string \<times> 'a resource) list" and m
  proof (induction rs arbitrary: m)
    case (Cons x rs)
    obtain path r where x: "x = (path, r)" by fastforce
    show ?case
    proof (cases "list_resource x (Some m)")
      case None
      with Cons.prems none show ?thesis by simp
    next
      case (Some m1)
      then have "get_stream_id m1 = get_stream_id m \<and> msg_type m1 = msg_type m"
        by (auto simp: list_resource_def x bind_eq_Some_conv field_defs)
      with Cons Some show ?thesis by auto
    qed
  qed simp
  with assms show ?thesis by (simp add: list_api_def)
qed

lemma unresolved_answers:
  assumes "handle_unresolved m c = (Finished, c')" and "msg_type m \<noteq> STREAM_DATA"
  shows "\<exists>resp. answers m c c' resp"
proof (cases "msg_type m = DESCRIBE \<and> \<not> has_field RESOURCE m")
  case True
  with assms obtain resp where resp: "list_api (c_resources c) (new_stream_message (get_stream_id m) OK) = Some resp"
    and c': "c' = send_message resp c"
    by (auto simp: handle_unresolved_def split: option.splits)
  from list_api_frame [OF resp] c' have "answers m c c' resp" by (simp add: answers_def client_simps)
  then show ?thesis ..
next
  case False
  with assms have "c' = send_message (new_stream_message (get_stream_id m) ERROR) c"
    by (auto simp: handle_unresolved_def)
  then have "answers m c c' (new_stream_message (get_stream_id m) ERROR)"
    by (simp add: answers_def client_simps)
  then show ?thesis ..
qed

lemma run_answers:
  assumes "handle_run r m c = (Finished, c')"
  shows "\<exists>resp. answers m c c' resp"
proof -
  from assms obtain res w where
    res: "run_resource r m (new_stream_message (get_stream_id m) OK) (c_world c) = (Some res, w)"
    and c': "c' = (let c1 = send_message (set_message_type (if rr_success res then OK else ERROR) (rr_response res))
        (c\<lparr>c_world := w\<rparr>) in case rr_after res of None \<Rightarrow> c1 | Some cb \<Rightarrow> c1\<lparr>c_deferred := c_deferred c1 @ [cb]\<rparr>)"
    by (auto simp: handle_run_def Let_def split: option.splits prod.splits)
  have "answers m c c' (set_message_type (if rr_success res then OK else ERROR) (rr_response res))"
    using run_resource_frame(2) [OF res] c'
    by (auto simp: answers_def client_simps Let_def split: option.split)
  then show ?thesis ..
qed

lemma describe_answers:
  assumes "handle_describe r m c = (Finished, c')"
  shows "\<exists>resp. answers m c c' resp"
proof -
  from assms obtain resp w where
    d: "describe r (new_stream_message (get_stream_id m) OK) (c_world c) = (Some resp, w)"
    and c': "c' = send_message resp (c\<lparr>c_world := w\<rparr>)"
    by (auto simp: handle_describe_def split: option.splits prod.splits)
  from describe_frame [OF d] c' have "answers m c c' resp" by (simp add: answers_def client_simps)
  then show ?thesis ..
qed

lemma stop_answers:
  assumes "handle_stop_stream ref r m c = (Finished, c')" and "\<not> has_stream_handler r"
  shows "\<exists>resp. answers m c c' resp"
proof -
  have h: "has_stream_handler (set_resource_stream_id i r) = has_stream_handler r" for i
    by (simp add: has_stream_handler_def set_resource_stream_id_def)
  have q: "c_write_queue (set_deref ref x c) = c_write_queue c" for x
    by (cases ref) (auto split: option.split)
  have "answers m c c' (new_stream_message (get_stream_id m) OK)"
    using assms by (auto simp: handle_stop_stream_def Let_def h answers_def client_simps q split: if_splits)
  then show ?thesis ..
qed

section \<open>Properties\<close>

text \<open>A client with one plain resource and one stream on it, for the concrete instances.\<close>

definition demo_client :: "unit client" where
  "demo_client = (new_client ())\<lparr>c_running := True, c_connected := True, c_socket := Some True,
     c_resources := [(''led'', set_output (\<lambda>out w. (Some (out\<lparr>out_data := JUInt 1\<rparr>), w)) new_resource)],
     c_streams := [(7, new_stream_config\<lparr>sc_resource := Some (Resource_At ''led'')\<rparr>)]\<rparr>"

lemma demo_client_ok: "streams_ok demo_client"
  by (auto simp: streams_ok_def live_def demo_client_def new_stream_config_def)

text \<open>C3: handling a message never follows a dangling pointer, and leaves none behind. If every stream refers
  to an existing resource or event, then so it does after any message, and the handling
  stays defined.\<close>

theorem streams_never_dangle:
  assumes "streams_ok c" and "handle_message m c = (out, c')"
  shows "streams_ok c' \<and> out \<noteq> Undefined"
proof (cases "msg_type m \<in> {RUN, DESCRIBE, START_STREAM, STOP_STREAM, STREAM_DATA}")
  case True
  with assms(2) have "handle_resource_request m c = (out, c')" by (simp add: handle_message_def)
  from handle_resource_request_ok [OF assms(1) this] show ?thesis by simp
next
  case False
  with assms show ?thesis by (auto simp: handle_message_def)
qed

theorem streams_never_dangle_witness:
  "streams_ok (snd (handle_message (new_stream_message 7 STREAM_DATA) demo_client)) \<and>
   fst (handle_message (new_stream_message 7 STREAM_DATA) demo_client) \<noteq> Undefined"
  by (rule streams_never_dangle [OF demo_client_ok]) simp

text \<open>Unregistering a resource does break that. Once a resource that is being streamed is erased,
  the next data or stop message for its stream follows a dangling pointer.\<close>

theorem erase_leaves_dangling:
  assumes "map_of (c_streams c) sid = Some cfg" and "sc_resource cfg = Some (Resource_At path)"
    and "t \<in> {STREAM_DATA, STOP_STREAM}"
  shows "fst (handle_message (new_stream_message sid t) (snd (erase_resource path c))) = Undefined"
  using assms
  by (auto simp: handle_message_def handle_resource_request_def find_resource_def stream_ref_def erase_resource_def)

theorem erase_leaves_dangling_witness:
  "fst (handle_message (new_stream_message 7 STOP_STREAM) (snd (erase_resource ''led'' demo_client))) = Undefined"
  by (rule erase_leaves_dangling [where cfg = "new_stream_config\<lparr>sc_resource := Some (Resource_At ''led'')\<rparr>"])
    (simp_all add: demo_client_def new_stream_config_def)

lemma threw_sends_nothing:
  assumes "msg_type request = RUN \<or> msg_type request = DESCRIBE \<or> (\<exists>q. find_resource c request = Some (None, q))"
    and h: "handle_resource_request request c = (Threw, c')"
  shows "c_write_queue c' = c_write_queue c"
proof (cases "find_resource c request")
  case None
  with h show ?thesis by (simp add: handle_resource_request_def)
next
  case (Some p)
  obtain ref m where p: "p = (ref, m)" by (cases p)
  show ?thesis
  proof (cases ref)
    case None
    with h Some p have "handle_unresolved m c = (Threw, c')" by (simp add: handle_resource_request_def)
    then show ?thesis by (auto simp: handle_unresolved_def split: if_splits option.splits)
  next
    case r: (Some rf)
    with assms(1) Some p find_resource_frame(1) [of c request ref m] have t: "msg_type m = RUN \<or> msg_type m = DESCRIBE" by auto
    from h Some p r obtain r where "deref c rf = Some r"
      by (auto simp: handle_resource_request_def split: option.splits)
    with h Some p r t have "handle_run r m c = (Threw, c') \<or> handle_describe r m c = (Threw, c')"
      by (auto simp: handle_resource_request_def)
    then show ?thesis
      by (auto simp: handle_run_def handle_describe_def Let_def split: option.splits prod.splits)
  qed
qed

text \<open>C23: a run, describe or unresolved request whose handling finishes is answered exactly once: one
  message has been queued, of type OK or ERROR, under the stream id of the request. When the handling ends with an
  exception of the application's callback, no answer is queued.\<close>

theorem request_answered_once:
  assumes "msg_type request = RUN \<or> msg_type request = DESCRIBE \<or>
      (msg_type request \<in> {START_STREAM, STOP_STREAM} \<and> (\<exists>q. find_resource c request = Some (None, q)))"
    and "handle_message request c = (out, c')"
  shows "(out = Finished \<longrightarrow> (\<exists>resp. c_write_queue c' = c_write_queue c @ [encode_message resp] \<and>
      get_stream_id resp = get_stream_id request \<and> msg_type resp \<in> {OK, ERROR})) \<and>
    (out = Threw \<longrightarrow> c_write_queue c' = c_write_queue c)"
proof (intro conjI impI)
  from assms have h: "handle_resource_request request c = (out, c')"
    by (auto simp: handle_message_def)
  then show "c_write_queue c' = c_write_queue c" if "out = Threw"
    using threw_sends_nothing [of request c c'] assms(1) that by blast
  assume fin: "out = Finished"
  note h = h [unfolded fin]
  then obtain ref m where f: "find_resource c request = Some (ref, m)"
    by (auto simp: handle_resource_request_def split: option.splits)
  note frame = find_resource_frame [OF f]
  have "\<exists>resp. answers m c c' resp"
  proof (cases ref)
    case None
    with f h have "handle_unresolved m c = (Finished, c')" by (simp add: handle_resource_request_def)
    with assms(1) frame(1) show ?thesis by (auto intro!: unresolved_answers)
  next
    case (Some rf)
    with assms(1) f have t: "msg_type m = RUN \<or> msg_type m = DESCRIBE" using frame(1) by auto
    from f h Some obtain r where "deref c rf = Some r"
      by (auto simp: handle_resource_request_def split: option.splits)
    with f h Some t have "handle_run r m c = (Finished, c') \<or> handle_describe r m c = (Finished, c')"
      by (auto simp: handle_resource_request_def)
    then show ?thesis using run_answers describe_answers by blast
  qed
  then show "\<exists>resp. c_write_queue c' = c_write_queue c @ [encode_message resp] \<and>
      get_stream_id resp = get_stream_id request \<and> msg_type resp \<in> {OK, ERROR}"
    using frame(2) by (auto simp: answers_def)
qed

theorem request_answered_once_witness:
  "\<exists>resp. c_write_queue (snd (handle_message
       (set_field RESOURCE (JStr ''led'') (new_stream_message 3 RUN)) demo_client)) = [] @ [encode_message resp] \<and>
     get_stream_id resp = 3 \<and> msg_type resp \<in> {OK, ERROR}"
proof -
  let ?m = "set_field RESOURCE (JStr ''led'') (new_stream_message 3 RUN)"
  have "fst (handle_message ?m demo_client) = Finished" by code_simp
  then have "handle_message ?m demo_client = (Finished, snd (handle_message ?m demo_client))"
    by (metis prod.collapse)
  from request_answered_once [OF _ this] show ?thesis
    by (simp add: field_defs demo_client_def new_client_def)
qed

text \<open>C24: a finished start registers the stream. The stream id maps to the resource of the request, with the
  interval of its parameters, whatever the stream was before; and a finished stop removes it and
  takes the id off the resource, so that data for it is no longer delivered there.\<close>

theorem stream_lifecycle:
  assumes "streams_ok c" and "find_resource c request = Some (Some ref, request')"
    and "handle_message request c = (Finished, c')"
  shows "(msg_type request = START_STREAM \<longrightarrow>
            (\<exists>cfg. map_of (c_streams c') (get_stream_id request) = Some cfg \<and> sc_resource cfg = Some ref \<and>
               sc_interval cfg = get_num (const_field PARAMETERS request') ''interval'' 0)) \<and>
         (msg_type request = STOP_STREAM \<longrightarrow> map_of (c_streams c') (get_stream_id request) = None \<and>
            (get_stream_id request \<noteq> 0 \<longrightarrow> (\<exists>r. deref c' ref = Some r \<and> r_stream_id r \<noteq> get_stream_id request)))"
proof -
  note frame = find_resource_frame [OF assms(2)]
  have l: "ref \<in> live c" by (rule find_resource_live [OF assms(1,2)])
  then obtain r where r: "deref c ref = Some r" by (auto simp: live_def)
  show ?thesis
  proof (intro conjI impI)
    assume t: "msg_type request = START_STREAM"
    with assms(2,3) r frame(1) have "handle_start_stream ref r request' c = (Finished, c')"
      by (simp add: handle_message_def handle_resource_request_def)
    from start_stream_ok [OF assms(1) l this] frame(2)
    show "\<exists>cfg. map_of (c_streams c') (get_stream_id request) = Some cfg \<and> sc_resource cfg = Some ref \<and>
        sc_interval cfg = get_num (const_field PARAMETERS request') ''interval'' 0" by simp
  next
    assume t: "msg_type request = STOP_STREAM"
    with assms(2,3) r frame(1) have h: "handle_stop_stream ref r request' c = (Finished, c')"
      by (simp add: handle_message_def handle_resource_request_def)
    from stop_stream_ok [OF assms(1) l r h] frame(2)
    show "map_of (c_streams c') (get_stream_id request) = None"
      and "get_stream_id request \<noteq> 0 \<Longrightarrow> \<exists>r. deref c' ref = Some r \<and> r_stream_id r \<noteq> get_stream_id request"
      by auto
  qed
qed

theorem stream_lifecycle_witness:
  "\<exists>cfg. map_of (c_streams (snd (handle_message
       (set_field RESOURCE (JStr ''led'') (new_stream_message 3 START_STREAM)) demo_client))) 3 = Some cfg \<and>
     sc_resource cfg = Some (Resource_At ''led'')"
proof -
  let ?m = "set_field RESOURCE (JStr ''led'') (new_stream_message 3 START_STREAM)"
  have "fst (handle_message ?m demo_client) = Finished" by code_simp
  then have h: "handle_message ?m demo_client = (Finished, snd (handle_message ?m demo_client))"
    by (metis prod.collapse)
  have f: "find_resource demo_client ?m = Some (Some (Resource_At ''led''), set_field 0 JNull ?m)" by code_simp
  from stream_lifecycle [OF demo_client_ok f h] show ?thesis by (auto simp: field_defs)
qed

text \<open>A rejected start is not undone. When the stream handler of the resource reports a failure, the server is
  told so, but the stream stays registered, and with an interval it keeps being sampled.\<close>

theorem rejected_start_stays_registered:
  assumes "streams_ok c" and "find_resource c request = Some (Some ref, request')" and "deref c ref = Some r"
    and "msg_type request = START_STREAM" and "r_listener r = Some (\<lambda>_ _ _ _ w. (Some [exec_bool False], w))"
  shows "\<exists>c'. handle_message request c = (Finished, c') \<and>
    c_write_queue c' = c_write_queue c @ [encode_message (set_stream_id (get_stream_id request) (exec_bool False))] \<and>
    map_of (c_streams c') (get_stream_id request) \<noteq> None"
proof -
  note frame = find_resource_frame [OF assms(2)]
  define c' where "c' = snd (handle_start_stream ref r request' c)"
  have l: "ref \<in> live c" by (rule find_resource_live [OF assms(1,2)])
  have q: "c_write_queue (set_deref ref x d) = c_write_queue d" for x and d :: "'a client"
    by (cases ref) (auto split: option.split)
  have s: "fst (handle_start_stream ref r request' c) = Finished \<and>
      c_write_queue c' = c_write_queue c @ [encode_message (set_stream_id (get_stream_id request') (exec_bool False))]"
    using assms(5) by (simp add: c'_def handle_start_stream_def Let_def has_stream_handler_def handle_stream_def
        set_resource_stream_id_def client_simps q)
  then have h: "handle_start_stream ref r request' c = (Finished, c')" by (metis c'_def prod.collapse)
  then have "handle_message request c = (Finished, c')"
    using assms(2,3,4) frame(1) by (simp add: handle_message_def handle_resource_request_def)
  with s frame(2) start_stream_ok [OF assms(1) l h] show ?thesis by auto
qed

theorem rejected_start_stays_registered_witness:
  "\<exists>c'. handle_message (set_field RESOURCE (JStr ''x'') (new_stream_message 3 START_STREAM))
       (put_resource ''x'' (set_stream_handler (\<lambda>_ _ _ _ w. (Some [exec_bool False], w)) new_resource) (new_client ()))
       = (Finished, c') \<and>
     c_write_queue c' = [] @ [encode_message (set_stream_id 3 (exec_bool False))] \<and> map_of (c_streams c') 3 \<noteq> None"
proof -
  let ?m = "set_field RESOURCE (JStr ''x'') (new_stream_message 3 START_STREAM)"
  let ?r = "set_stream_handler (\<lambda>_ _ _ _ w. (Some [exec_bool False], w)) new_resource :: unit resource"
  let ?c = "put_resource ''x'' ?r (new_client ())"
  have "streams_ok ?c" by (simp add: streams_ok_def put_resource_def new_client_def)
  moreover have "find_resource ?c ?m = Some (Some (Resource_At ''x''), set_field 0 JNull ?m)" by code_simp
  moreover have "deref ?c (Resource_At ''x'') = Some ?r" by (simp add: put_resource_def)
  moreover have "msg_type ?m = START_STREAM" and "r_listener ?r = Some (\<lambda>_ _ _ _ w. (Some [exec_bool False], w))"
    by (simp_all add: set_stream_handler_def)
  ultimately have "\<exists>c'. handle_message ?m ?c = (Finished, c') \<and>
      c_write_queue c' = c_write_queue ?c @ [encode_message (set_stream_id (get_stream_id ?m) (exec_bool False))] \<and>
      map_of (c_streams c') (get_stream_id ?m) \<noteq> None"
    by (rule rejected_start_stays_registered)
  then show ?thesis by (simp add: field_defs put_resource_def new_client_def)
qed

end
