(* ===== verification/Client_Session.thy ===== *)
theory Client_Session
  imports Client_Correct
begin

text \<open>
  The life of a connection: requests that wait for their response, authentication, the event
  subscriptions, the reading loop, the keep-alive and sampling timers, and one round of \<open>run_loop\<close>, from
  \<^verbatim>\<open>client.hpp\<close>. What the network and the clock do is given to the operations: the
  messages that arrive until the connection ends (as \<^verbatim>\<open>Framing\<close> reads them), the outcome of each
  direct write, the numbers \<open>rand\<close> draws, the time. The log that every message passes when it is written and read can throw, and so
  can the reading of a message: the first is an outcome of a write, the second ends the messages that arrive.
\<close>

section \<open>Requests with a response\<close>

datatype wait_result = Response bool "json option" | Closed | Aborted

definition is_response :: "iotmp_message \<Rightarrow> iotmp_message \<Rightarrow> bool" where
  "is_response request m \<longleftrightarrow>
     get_stream_id request = get_stream_id m \<and> type_code (msg_type m) \<le> type_code ERROR"

text \<open>\<open>wait_response\<close>: other messages are handled meanwhile; an exception of their handling ends the wait.\<close>

fun wait_response :: "iotmp_message \<Rightarrow> iotmp_message list \<Rightarrow> 'w client
    \<Rightarrow> wait_result \<times> iotmp_message list \<times> 'w client" where
  "wait_response request [] c = (Closed, [], c)"
| "wait_response request (m # ms) c =
     (if is_response request m then (Response (msg_type m = OK) (field_of PAYLOAD m), ms, c)
      else case handle_message m c of
             (Finished, c') \<Rightarrow> wait_response request ms c'
           | (_, c') \<Rightarrow> (Aborted, ms, c'))"

text \<open>A request without a stream id gets a random one; \<open>write_ok\<close> is the outcome of its write.\<close>

definition with_random_id :: "u32 \<Rightarrow> iotmp_message \<Rightarrow> iotmp_message" where
  "with_random_id rnd m = (if get_stream_id m = 0 then set_random_stream_id rnd m else m)"

definition send_message_with_response :: "iotmp_message \<Rightarrow> u32 \<Rightarrow> bool \<Rightarrow> iotmp_message list \<Rightarrow> 'w client
    \<Rightarrow> wait_result \<times> iotmp_message list \<times> 'w client" where
  "send_message_with_response m rnd write_ok ms c =
     (let m' = with_random_id rnd m in
      case write_message m' write_ok c of
        (False, c') \<Rightarrow> (Response False None, ms, c')
      | (True, c') \<Rightarrow> wait_response m' ms c')"

definition send_message_with_ack :: "iotmp_message \<Rightarrow> bool \<Rightarrow> u32 \<Rightarrow> bool \<Rightarrow> iotmp_message list \<Rightarrow> 'w client
    \<Rightarrow> wait_result \<times> iotmp_message list \<times> 'w client" where
  "send_message_with_ack m wait_ack rnd write_ok ms c =
     (let m' = (if wait_ack then with_random_id rnd m else m) in
      case write_message m' write_ok c of
        (False, c') \<Rightarrow> (Response False None, ms, c')
      | (True, c') \<Rightarrow> (if wait_ack then wait_response m' ms c' else (Response True None, ms, c')))"

text \<open>The write of a message the log may not take: \<open>None\<close> is the exception, before anything is written.\<close>

definition write_logged :: "iotmp_message \<Rightarrow> bool option \<Rightarrow> 'w client \<Rightarrow> bool option \<times> 'w client" where
  "write_logged m outcome c =
     (case outcome of
        None \<Rightarrow> (None, c)
      | Some ok \<Rightarrow> (case write_message m ok c of (written, c') \<Rightarrow> (Some written, c')))"

section \<open>Authentication\<close>

definition connect_message :: "u32 \<Rightarrow> 'w client \<Rightarrow> iotmp_message" where
  "connect_message rnd c =
     set_field PAYLOAD (JArr [JStr (c_username c), JStr (c_device_id c), JStr (c_device_password c)])
       (set_random_stream_id rnd (new_message CONNECT))"

text \<open>\<open>read_throws\<close> says that the messages end with an exception; \<open>None\<close> is the exception of an authentication.\<close>

definition authenticate :: "u32 \<Rightarrow> bool option \<Rightarrow> bool \<Rightarrow> iotmp_message list \<Rightarrow> 'w client
    \<Rightarrow> bool option \<times> iotmp_message list \<times> 'w client" where
  "authenticate rnd outcome read_throws ms c =
     (let c0 = notify_state AUTHENTICATING [] c in
      case write_logged (connect_message rnd c0) outcome c0 of
        (None, c1) \<Rightarrow> (None, ms, c1)
      | (Some False, c1) \<Rightarrow> (Some False, ms, notify_state AUTH_FAILED ''io_error'' c1)
      | (Some True, c1) \<Rightarrow>
          (case ms of
             [] \<Rightarrow> (if read_throws then (None, [], c1) else (Some False, [], notify_state AUTH_FAILED ''io_error'' c1))
           | m # ms' \<Rightarrow>
               (let success = (msg_type m = OK) in
                (Some success, ms', notify_state (if success then AUTHENTICATED else AUTH_FAILED) [] c1))))"

section \<open>Event subscriptions\<close>

definition event_request :: "u32 \<Rightarrow> 'w server_event \<Rightarrow> iotmp_message" where
  "event_request rnd ev =
     set_field PARAMETERS (ev_params ev)
       (set_field RESOURCE (JUInt (ev_run ev)) (set_random_stream_id rnd (new_message START_STREAM)))"

definition put_event :: "byte \<Rightarrow> 'w server_event \<Rightarrow> 'w client \<Rightarrow> 'w client" where
  "put_event i ev c = c\<lparr>c_events := sm_put i ev (c_events c)\<rparr>"

text \<open>The stream of an accepted subscription, and the event handler on the data of the response.\<close>

definition register_event :: "byte \<Rightarrow> stream_id \<Rightarrow> 'w client \<Rightarrow> 'w client" where
  "register_event i sid c =
     (let cfg = (case map_of (c_streams c) sid of Some cfg \<Rightarrow> cfg | None \<Rightarrow> new_stream_config) in
      case map_of (c_events c) i of
        None \<Rightarrow> c
      | Some ev \<Rightarrow>
          put_event i (ev\<lparr>ev_resource := set_resource_stream_id sid (ev_resource ev)\<rparr>)
            (c\<lparr>c_streams := sm_put sid (cfg\<lparr>sc_resource := Some (Event_At i), sc_interval := 0\<rparr>) (c_streams c)\<rparr>))"

definition run_event :: "byte \<Rightarrow> json option \<Rightarrow> 'w client \<Rightarrow> bool \<times> 'w client" where
  "run_event i data c =
     (case (data, map_of (c_events c) i) of
        (Some v, Some ev) \<Rightarrow>
          (if j_is_null v \<or> j_empty v then (True, c)
           else case run_resource (ev_resource ev) (set_field PAYLOAD v (new_message RUN)) (new_message OK) (c_world c) of
                  (None, w) \<Rightarrow> (False, c\<lparr>c_world := w\<rparr>)
                | (Some _, w) \<Rightarrow> (True, c\<lparr>c_world := w\<rparr>))
      | _ \<Rightarrow> (True, c))"

definition restore_params :: "byte \<Rightarrow> json \<Rightarrow> 'w client \<Rightarrow> 'w client" where
  "restore_params i p c =
     (case map_of (c_events c) i of None \<Rightarrow> c | Some ev \<Rightarrow> put_event i (ev\<lparr>ev_params := p\<rparr>) c)"

text \<open>
  One round of \<open>initialize_streams\<close>. The parameters are moved into the request and moved back at the
  end of the round; a failed write skips the rest of it.
\<close>

definition subscribe :: "byte \<Rightarrow> u32 \<Rightarrow> bool option \<Rightarrow> bool \<Rightarrow> iotmp_message list \<Rightarrow> 'w client
    \<Rightarrow> bool \<times> iotmp_message list \<times> 'w client" where
  "subscribe i rnd outcome read_throws ms c =
     (case map_of (c_events c) i of
        None \<Rightarrow> (True, ms, c)
      | Some ev \<Rightarrow>
          (let request = event_request rnd ev;
               c1 = put_event i (ev\<lparr>ev_params := JNull\<rparr>) c
           in case write_logged request outcome c1 of
                (None, c2) \<Rightarrow> (False, ms, c2)
              | (Some False, c2) \<Rightarrow> (True, ms, c2)
              | (Some True, c2) \<Rightarrow>
                  (case wait_response request ms c2 of
                     (Aborted, ms', c3) \<Rightarrow> (False, ms', c3)
                   | (Closed, ms', c3) \<Rightarrow>
                       (if read_throws then (False, ms', c3) else (True, ms', restore_params i (ev_params ev) c3))
                   | (Response True data, ms', c3) \<Rightarrow>
                       (case run_event i data (register_event i (get_stream_id request) c3) of
                          (False, c4) \<Rightarrow> (False, ms', c4)
                        | (True, c4) \<Rightarrow> (True, ms', restore_params i (ev_params ev) c4))
                   | (_, ms', c3) \<Rightarrow> (True, ms', restore_params i (ev_params ev) c3))))"

text \<open>The loop over the events, with a random number and a write outcome for each; \<open>False\<close> is an
  exception.\<close>

fun initialize_streams :: "bool \<Rightarrow> (byte \<times> u32 \<times> bool option) list \<Rightarrow> iotmp_message list \<Rightarrow> 'w client
    \<Rightarrow> bool \<times> iotmp_message list \<times> 'w client" where
  "initialize_streams read_throws [] ms c = (True, ms, c)"
| "initialize_streams read_throws ((i, rnd, outcome) # es) ms c =
     (case subscribe i rnd outcome read_throws ms c of
        (False, ms', c') \<Rightarrow> (False, ms', c')
      | (True, ms', c') \<Rightarrow> initialize_streams read_throws es ms' c')"

section \<open>The loops\<close>

text \<open>The coroutines that handle the messages are detached: what they throw is lost. \<open>False\<close> is an exception of the reading.\<close>

fun read_loop :: "bool \<Rightarrow> iotmp_message list \<Rightarrow> 'w client \<Rightarrow> bool \<times> 'w client" where
  "read_loop read_throws [] c = (\<not> (c_running c \<and> c_connected c \<and> read_throws), c)"
| "read_loop read_throws (m # ms) c =
     (if c_running c \<and> c_connected c then read_loop read_throws ms (snd (handle_message m c)) else (True, c))"

definition keep_alive_tick :: "'w client \<Rightarrow> 'w client" where
  "keep_alive_tick c =
     (if c_running c \<and> c_connected c then send_message (new_message KEEP_ALIVE) c else c)"

text \<open>
  One tick of \<open>stream_interval_loop\<close> at time \<open>now\<close> (milliseconds; the subtraction is on 64-bit unsigned
  numbers). \<open>False\<close> is the exception that ends the loop, or a dangling pointer.
\<close>

definition sample_due :: "u64 \<Rightarrow> stream_config \<Rightarrow> bool" where
  "sample_due now cfg \<longleftrightarrow>
     sc_interval cfg > 0 \<and> sc_resource cfg \<noteq> None \<and> ucast (sc_interval cfg) \<le> now - sc_last cfg"

fun sample_streams :: "u64 \<Rightarrow> (stream_id \<times> stream_config) list \<Rightarrow> 'w client \<Rightarrow> bool \<times> 'w client" where
  "sample_streams now [] c = (True, c)"
| "sample_streams now ((sid, cfg) # rest) c =
     (if sample_due now cfg then
        (case Option.bind (sc_resource cfg) (deref c) of
           None \<Rightarrow> (False, c)
         | Some r \<Rightarrow>
             (case stream_resource r sid
                     (c\<lparr>c_streams := sm_put sid (cfg\<lparr>sc_last := now\<rparr>) (c_streams c)\<rparr>) of
                (None, c') \<Rightarrow> (False, c')
              | (Some _, c') \<Rightarrow> sample_streams now rest c'))
      else sample_streams now rest c)"

definition stream_interval_tick :: "u64 \<Rightarrow> 'w client \<Rightarrow> bool \<times> 'w client" where
  "stream_interval_tick now c =
     (if c_running c \<and> c_connected c then sample_streams now (c_streams c) c else (True, c))"

section \<open>run\_loop\<close>

text \<open>
  What the environment does in one round: the connection attempt, which may also throw, then the messages that arrive, and
  whether reading the next one throws. \<open>re_what\<close> is what the exception of the round says.
\<close>

record round_env =
  re_connect_error :: "string option"
  re_auth :: "u32 \<times> bool option"
  re_events :: "byte \<Rightarrow> u32 \<times> bool option"
  re_messages :: "iotmp_message list"
  re_read_throws :: bool
  re_what :: string

definition connect :: "string option \<Rightarrow> 'w client \<Rightarrow> bool \<times> 'w client" where
  "connect err c =
     (let c1 = notify_state CONNECTING [] c in
      case err of
        Some _ \<Rightarrow> (False, if c_transport c = WEBSOCKET then c1 else c1\<lparr>c_socket := Some False\<rparr>)
      | None \<Rightarrow> (True, notify_state CONNECTED [] (c1\<lparr>c_socket := Some True\<rparr>)))"

definition round_body :: "round_env \<Rightarrow> 'w client \<Rightarrow> 'w client" where
  "round_body e c =
     (case connect (re_connect_error e) c of
        (False, c1) \<Rightarrow> notify_state CONNECTION_ERROR (case re_connect_error e of Some m \<Rightarrow> m | None \<Rightarrow> []) c1
      | (True, c1) \<Rightarrow>
          (case authenticate (fst (re_auth e)) (snd (re_auth e)) (re_read_throws e) (re_messages e) c1 of
             (None, _, c2) \<Rightarrow> notify_state CONNECTION_ERROR (re_what e) c2
           | (Some False, _, c2) \<Rightarrow> c2
           | (Some True, ms, c2) \<Rightarrow>
               (let c3 = c2\<lparr>c_connected := True\<rparr> in
                case initialize_streams (re_read_throws e) (map (\<lambda>(i, _). (i, re_events e i)) (c_events c3)) ms c3 of
                  (False, _, c4) \<Rightarrow> notify_state CONNECTION_ERROR (re_what e) c4
                | (True, ms', c4) \<Rightarrow>
                    (case read_loop (re_read_throws e) ms' (notify_state STREAMS_READY [] c4) of
                       (False, c5) \<Rightarrow> notify_state CONNECTION_ERROR (re_what e) c5
                     | (True, c5) \<Rightarrow> c5))))"

definition run_round :: "round_env \<Rightarrow> 'w client \<Rightarrow> 'w client" where
  "run_round e c =
     (if c_running c then notify_state DISCONNECTED [] ((round_body e c)\<lparr>c_connected := False\<rparr>) else c)"

fun run_loop :: "round_env list \<Rightarrow> 'w client \<Rightarrow> 'w client" where
  "run_loop [] c = c"
| "run_loop (e # es) c = run_loop es (run_round e c)"

text \<open>\<open>start\<close> and \<open>stop\<close>; \<open>workers_ok\<close> is the outcome of starting the worker pool.\<close>

definition start_client :: "bool \<Rightarrow> 'w client \<Rightarrow> bool \<times> 'w client" where
  "start_client workers_ok c =
     (if c_running c then (False, c)
      else if \<not> workers_ok then (False, c)
      else (True, c\<lparr>c_running := True\<rparr>))"

definition stop_client :: "'w client \<Rightarrow> bool \<times> 'w client" where
  "stop_client c =
     (if \<not> c_running c then (False, c)
      else (True, notify_state DISCONNECTED [] (c\<lparr>c_running := False, c_socket := None\<rparr>)))"

end
