(* ===== verification/Client_Session_Correct.thy ===== *)
theory Client_Session_Correct
  imports Client_Session
begin

text \<open>
  Properties of a connection: responses reach the request they belong to, the states a round
  reports, the references across reconnections, the event subscriptions, and the sampling of streams.
\<close>

section \<open>What handling messages leaves alone\<close>

definition ev_config :: "'w client \<Rightarrow> byte \<Rightarrow> (u64 \<times> json) option" where
  "ev_config c i = map_option (\<lambda>ev. (ev_run ev, ev_params ev)) (map_of (c_events c) i)"

text \<open>Flags, reported states and the configuration of the events are not touched.\<close>

definition same_session :: "'w client \<Rightarrow> 'w client \<Rightarrow> bool" where
  "same_session c c' \<longleftrightarrow> c_running c' = c_running c \<and> c_connected c' = c_connected c \<and> c_socket c' = c_socket c \<and>
     c_states c' = c_states c \<and> (\<forall>i. ev_config c' i = ev_config c i)"

lemma ev_config_set_deref: "ev_config (set_deref ref r c) i = ev_config c i"
  by (cases ref) (auto simp: ev_config_def split: option.split)

lemma set_deref_flags [simp]:
  "c_running (set_deref ref r c) = c_running c" "c_connected (set_deref ref r c) = c_connected c"
  "c_socket (set_deref ref r c) = c_socket c" "c_states (set_deref ref r c) = c_states c"
  "c_write_queue (set_deref ref r c) = c_write_queue c"
  by (cases ref; auto split: option.split)+

lemma send_message_flags [simp]:
  "c_running (send_message m c) = c_running c" "c_connected (send_message m c) = c_connected c"
  "c_socket (send_message m c) = c_socket c" "c_states (send_message m c) = c_states c"
  by (simp_all add: send_message_def queue_write_def Let_def)

interpretation session: client_frame_all same_session
  by unfold_locales (auto simp: same_session_def ev_config_set_deref, auto simp: ev_config_def client_simps)

section \<open>Waiting for a response\<close>

definition handle_all :: "iotmp_message list \<Rightarrow> 'w client \<Rightarrow> 'w client" where
  "handle_all ms c = fold (\<lambda>m c. snd (handle_message m c)) ms c"

lemma wait_response_split:
  "wait_response request ms c = (Response b p, rest, c') \<Longrightarrow>
     \<exists>pre m. ms = pre @ m # rest \<and> (\<forall>x \<in> set pre. \<not> is_response request x) \<and> is_response request m \<and>
       b = (msg_type m = OK) \<and> p = field_of PAYLOAD m \<and> c' = handle_all pre c"
proof (induction request ms c arbitrary: b p rest c' rule: wait_response.induct)
  case (1 request c)
  then show ?case by simp
next
  case (2 request m ms c)
  show ?case
  proof (cases "is_response request m")
    case True
    with "2.prems" show ?thesis
      by (intro exI [of _ "[]"] exI [of _ m]) (simp add: handle_all_def)
  next
    case False
    with "2.prems" obtain c1 where h: "handle_message m c = (Finished, c1)"
      and w: "wait_response request ms c1 = (Response b p, rest, c')"
      by (auto split: prod.splits outcome.splits)
    from "2.IH" [OF False h [symmetric] refl w] obtain pre x where
      "ms = pre @ x # rest" "\<forall>x \<in> set pre. \<not> is_response request x" "is_response request x"
      "b = (msg_type x = OK)" "p = field_of PAYLOAD x" "c' = handle_all pre c1" by blast
    with False h show ?thesis
      by (intro exI [of _ "m # pre"] exI [of _ x]) (simp add: handle_all_def)
  qed
qed

lemma wait_response_session: "wait_response request ms c = (res, rest, c') \<Longrightarrow> same_session c c'"
proof (induction request ms c arbitrary: res rest c' rule: wait_response.induct)
  case (1 request c)
  then show ?case by (simp add: session.R_refl)
next
  case (2 request m ms c)
  obtain out c1 where h: "handle_message m c = (out, c1)" by fastforce
  with session.handle_message_R [of c m] have c1: "same_session c c1" by simp
  show ?case
  proof (cases "\<not> is_response request m \<and> out = Finished")
    case True
    with "2.prems" h have "wait_response request ms c1 = (res, rest, c')" by simp
    with "2.IH" [OF _ h [symmetric]] True have "same_session c1 c'" by simp
    with c1 show ?thesis by (rule session.R_trans)
  next
    case False
    with "2.prems" h c1 session.R_refl show ?thesis
      by (cases out) (auto split: if_splits)
  qed
qed

section \<open>Subscriptions\<close>

lemma ev_config_put_event:
  "ev_config (put_event i ev c) j = (if j = i then Some (ev_run ev, ev_params ev) else ev_config c j)"
  by (simp add: ev_config_def put_event_def)

lemma write_message_config [simp]: "ev_config (snd (write_message m ok c)) j = ev_config c j"
  by (auto simp: write_message_def close_socket_def ev_config_def)

lemma register_event_config: "ev_config (register_event i sid c) j = ev_config c j"
  by (auto simp: register_event_def Let_def ev_config_def put_event_def split: option.split)

lemma run_event_config: "ev_config (snd (run_event i d c)) j = ev_config c j"
  by (auto simp: run_event_def ev_config_def split: option.split prod.split)

lemma restore_params_config:
  "ev_config (restore_params i p c) j =
     (if j = i then map_option (\<lambda>(r, _). (r, p)) (ev_config c i) else ev_config c j)"
  by (auto simp: restore_params_def ev_config_put_event split: option.split) (auto simp: ev_config_def)

text \<open>A round that wrote its request and met no exception leaves every event as configured.\<close>

lemma subscribe_restores:
  assumes "subscribe i rnd (Some True) read_throws ms c = (True, ms', c')"
  shows "ev_config c' j = ev_config c j"
proof (cases "map_of (c_events c) i")
  case None
  with assms show ?thesis by (simp add: subscribe_def)
next
  case (Some ev)
  define request where "request = event_request rnd ev"
  define c1 where "c1 = put_event i (ev\<lparr>ev_params := JNull\<rparr>) c"
  obtain c2 where m: "write_message request True c1 = (True, c2)" by (simp add: write_message_def)
  then have w: "write_logged request (Some True) c1 = (Some True, c2)" by (simp add: write_logged_def)
  obtain res ms1 c3 where r: "wait_response request ms c2 = (res, ms1, c3)" by (metis prod_cases3)
  have c2: "ev_config c2 = ev_config c1" using write_message_config [of request True c1] m by (auto simp: fun_eq_iff)
  have c3: "ev_config c3 = ev_config c1"
    using wait_response_session [OF r] c2 by (auto simp: same_session_def fun_eq_iff)
  have restored: "ev_config (restore_params i (ev_params ev) x) j = ev_config c j" if "ev_config x = ev_config c1" for x
  proof -
    have "ev_config c i = Some (ev_run ev, ev_params ev)" using Some by (simp add: ev_config_def)
    with that show ?thesis by (auto simp: restore_params_config c1_def ev_config_put_event)
  qed
  note eq = assms [unfolded subscribe_def Some option.case Let_def request_def [symmetric] c1_def [symmetric] w prod.case option.case bool.case r]
  show ?thesis
  proof (cases "\<exists>d. res = Response True d")
    case True
    then obtain d where d: "res = Response True d" by blast
    obtain b c4 where e: "run_event i d (register_event i (get_stream_id request) c3) = (b, c4)" by fastforce
    then have c4: "ev_config c4 = ev_config c1"
      using run_event_config [of i d "register_event i (get_stream_id request) c3"] c3
      by (auto simp: register_event_config fun_eq_iff)
    from eq d e have "c' = restore_params i (ev_params ev) c4" by (auto split: bool.splits)
    with restored [OF c4] show ?thesis by simp
  next
    case False
    with eq have "c' = restore_params i (ev_params ev) c3" by (auto split: wait_result.splits bool.splits if_splits)
    with restored [OF c3] show ?thesis by simp
  qed
qed

section \<open>Invariants of a session\<close>

text \<open>What every message and every step of a subscription keeps, the whole session keeps.\<close>

locale session_inv =
  fixes P :: "'w client \<Rightarrow> bool"
  assumes P_message: "P c \<Longrightarrow> P (snd (handle_message m c))"
    and P_put: "map_of (c_events c) i \<noteq> None \<Longrightarrow> P c \<Longrightarrow> P (put_event i ev c)"
    and P_register: "P c \<Longrightarrow> P (register_event i sid c)"
    and P_run: "P c \<Longrightarrow> P (snd (run_event i d c))"
    and P_write: "P c \<Longrightarrow> P (snd (write_message m ok c))"
begin

lemma P_wait: "wait_response request ms c = (res, rest, c') \<Longrightarrow> P c \<Longrightarrow> P c'"
proof (induction request ms c arbitrary: res rest c' rule: wait_response.induct)
  case (1 request c)
  then show ?case by simp
next
  case (2 request m ms c)
  obtain out c1 where h: "handle_message m c = (out, c1)" by fastforce
  with P_message [OF "2.prems"(2), of m] have c1: "P c1" by simp
  with 2 h show ?case by (cases out) (auto split: if_splits)
qed

lemma P_write_logged: "P c \<Longrightarrow> P (snd (write_logged m outcome c))"
  using P_write by (auto simp: write_logged_def split: option.split prod.split) (metis snd_conv)

lemma P_restore: "P c \<Longrightarrow> P (restore_params i p c)"
  by (auto simp: restore_params_def intro: P_put split: option.split)

lemma P_subscribe:
  assumes s: "subscribe i rnd ok read_throws ms c = (res, ms', c')" and c: "P c"
  shows "P c'"
proof (cases "map_of (c_events c) i")
  case None
  with s c show ?thesis by (simp add: subscribe_def)
next
  case (Some ev)
  define request where "request = event_request rnd ev"
  define c1 where "c1 = put_event i (ev\<lparr>ev_params := JNull\<rparr>) c"
  have c1: "P c1" using Some c by (simp add: c1_def P_put)
  obtain b c2 where w: "write_logged request ok c1 = (b, c2)" by fastforce
  with P_write_logged [OF c1, of request ok] have c2: "P c2" by simp
  obtain rs ms1 c3 where r: "wait_response request ms c2 = (rs, ms1, c3)" by (rule prod_cases3)
  have c3: "P c3" by (rule P_wait [OF r c2])
  note eq = s [unfolded subscribe_def Some option.case Let_def request_def [symmetric] c1_def [symmetric] w prod.case r]
  show ?thesis
  proof (cases "b = Some True \<and> (\<exists>d. rs = Response True d)")
    case True
    then obtain d where d: "rs = Response True d" by blast
    obtain b' c4 where e: "run_event i d (register_event i (get_stream_id request) c3) = (b', c4)" by fastforce
    with P_run [OF P_register [OF c3], of i d i "get_stream_id request"] have "P c4" by simp
    with eq True d e show ?thesis by (auto intro: P_restore split: bool.splits)
  next
    case False
    with eq c2 c3 show ?thesis by (auto intro: P_restore split: option.splits bool.splits wait_result.splits if_splits)
  qed
qed

lemma P_initialize: "initialize_streams read_throws es ms c = (res, ms', c') \<Longrightarrow> P c \<Longrightarrow> P c'"
proof (induction read_throws es ms c arbitrary: res ms' c' rule: initialize_streams.induct)
  case (1 read_throws ms c)
  then show ?case by simp
next
  case (2 read_throws i rnd ok es ms c)
  obtain b ms1 c1 where s: "subscribe i rnd ok read_throws ms c = (b, ms1, c1)" by (rule prod_cases3)
  have "P c1" by (rule P_subscribe [OF s "2.prems"(2)])
  with 2 s show ?case by (cases b) auto
qed

lemma P_read_loop: "P c \<Longrightarrow> P (snd (read_loop read_throws ms c))"
  by (induction read_throws ms c rule: read_loop.induct) (auto intro: P_message)

end

section \<open>References across a round\<close>

lemma put_event_live: "map_of (c_events c) i \<noteq> None \<Longrightarrow> live (put_event i ev c) = live c"
proof -
  assume i: "map_of (c_events c) i \<noteq> None"
  have "deref (put_event i ev c) x \<noteq> None \<longleftrightarrow> deref c x \<noteq> None" for x
    using i by (cases x) (auto simp: put_event_def)
  then show ?thesis by (simp add: live_def)
qed

lemma streams_ok_put_event: "map_of (c_events c) i \<noteq> None \<Longrightarrow> streams_ok c \<Longrightarrow> streams_ok (put_event i ev c)"
  using put_event_live [of c i ev] by (auto simp: streams_ok_def put_event_def)

lemma streams_ok_frame: "same_maps c c' \<Longrightarrow> streams_ok c' = streams_ok c"
proof -
  assume s: "same_maps c c'"
  then have "same_maps c' c" by (simp add: same_maps_def)
  with s show ?thesis using streams_ok_same by blast
qed

lemma streams_ok_message: "streams_ok c \<Longrightarrow> streams_ok (snd (handle_message m c))"
  using handle_resource_request_ok [of c m "fst (handle_resource_request m c)" "snd (handle_resource_request m c)"]
  by (simp add: handle_message_def)

lemma streams_ok_register: "streams_ok c \<Longrightarrow> streams_ok (register_event i sid c)"
proof -
  assume ok: "streams_ok c"
  show ?thesis
  proof (cases "map_of (c_events c) i")
    case None
    with ok show ?thesis by (simp add: register_event_def)
  next
    case (Some ev)
    have l: "live (c\<lparr>c_streams := s\<rparr>) = live c" for s
    proof -
      have "deref (c\<lparr>c_streams := s\<rparr>) x = deref c x" for x by (cases x) simp_all
      then show ?thesis by (simp add: live_def)
    qed
    have "Event_At i \<in> live c" using Some by (simp add: live_def)
    with ok Some l show ?thesis
      by (auto simp: register_event_def Let_def streams_ok_def put_event_live)
         (auto simp: put_event_def split: if_splits option.splits)
  qed
qed

lemma streams_ok_run_event: "streams_ok (snd (run_event i d c)) = streams_ok c"
  by (rule streams_ok_frame) (auto simp: run_event_def same_maps_def split: option.split prod.split)

lemma streams_ok_write: "streams_ok (snd (write_message m ok c)) = streams_ok c"
  by (rule streams_ok_frame) (auto simp: write_message_def same_maps_def close_socket_def)

interpretation sok: session_inv streams_ok
  by unfold_locales
    (simp_all add: streams_ok_message streams_ok_put_event streams_ok_register streams_ok_run_event streams_ok_write)

lemma streams_ok_notify [simp]: "streams_ok (notify_state s r c) = streams_ok c"
  by (rule streams_ok_frame) (simp add: notify_state_def same_maps_def)

lemma streams_ok_flags [simp]:
  "streams_ok (c\<lparr>c_connected := b\<rparr>) = streams_ok c" "streams_ok (c\<lparr>c_socket := so\<rparr>) = streams_ok c"
  by (rule streams_ok_frame; simp add: same_maps_def)+

lemma streams_ok_authenticate:
  assumes "authenticate r ok read_throws m c = (b, ms, c')" and "streams_ok c"
  shows "streams_ok c'"
proof -
  define c0 where "c0 = notify_state AUTHENTICATING [] c"
  obtain b1 c1 where w: "write_logged (connect_message r c0) ok c0 = (b1, c1)" by fastforce
  with sok.P_write_logged [of c0 "connect_message r c0" ok] assms(2) have c1: "streams_ok c1"
    by (simp add: c0_def)
  show ?thesis
    using assms(1) c1 unfolding authenticate_def Let_def c0_def [symmetric] w prod.case
    by (cases b1; cases m) (auto split: bool.splits if_splits)
qed

lemma streams_ok_connect: "connect err c = (b, c') \<Longrightarrow> streams_ok c \<Longrightarrow> streams_ok c'"
  by (auto simp: connect_def Let_def split: option.splits if_splits)

lemma streams_ok_round:
  assumes "streams_ok c"
  shows "streams_ok (run_round e c)"
proof -
  obtain b c1 where co: "connect (re_connect_error e) c = (b, c1)" by fastforce
  note c1 = streams_ok_connect [OF co assms]
  obtain b2 ms c2
    where au: "authenticate (fst (re_auth e)) (snd (re_auth e)) (re_read_throws e) (re_messages e) c1 = (b2, ms, c2)"
    by (rule prod_cases3)
  note c2 = streams_ok_authenticate [OF au c1]
  define c3 where "c3 = c2\<lparr>c_connected := True\<rparr>"
  have c3: "streams_ok c3" using c2 by (simp add: c3_def)
  obtain b3 ms3 c4
    where ini: "initialize_streams (re_read_throws e) (map (\<lambda>(i, _). (i, re_events e i)) (c_events c3)) ms c3 = (b3, ms3, c4)"
    by (rule prod_cases3)
  note c4 = sok.P_initialize [OF ini c3]
  obtain b5 c5 where rl: "read_loop (re_read_throws e) ms3 (notify_state STREAMS_READY [] c4) = (b5, c5)" by fastforce
  with sok.P_read_loop [of "notify_state STREAMS_READY [] c4" "re_read_throws e" ms3] c4 have c5: "streams_ok c5" by simp
  have "streams_ok (round_body e c)"
    unfolding round_body_def co prod.case au Let_def c3_def [symmetric] ini rl
    using c1 c2 c4 c5 by (auto split: bool.split option.split)
  with assms show ?thesis by (simp add: run_round_def)
qed

section \<open>What a round reports\<close>

lemma message_states: "c_states (snd (handle_message m c)) = c_states c"
  using session.handle_message_R [of c m] by (simp add: same_session_def)

lemma event_states [simp]:
  "c_states (put_event i ev c) = c_states c" "c_states (register_event i sid c) = c_states c"
  "c_states (snd (run_event i d c)) = c_states c" "c_states (snd (write_message m ok c)) = c_states c"
  by (auto simp: put_event_def register_event_def run_event_def write_message_def close_socket_def Let_def
      split: option.split prod.split)

interpretation st: session_inv "\<lambda>c. c_states c = S" for S
  by unfold_locales (simp_all add: message_states)

lemma authenticate_states:
  assumes "authenticate r ok read_throws ms c = (b, ms', c')"
  shows "map fst (c_states c') = map fst (c_states c) @
    AUTHENTICATING # (case b of None \<Rightarrow> [] | Some success \<Rightarrow> [if success then AUTHENTICATED else AUTH_FAILED])"
proof -
  define c0 where "c0 = notify_state AUTHENTICATING [] c"
  obtain b1 c1 where w: "write_logged (connect_message r c0) ok c0 = (b1, c1)" by fastforce
  have "c_states (snd (write_logged (connect_message r c0) ok c0)) = c_states c0" by (rule st.P_write_logged) (rule refl)
  with w have "c_states c1 = c_states c0" by simp
  then have "c_states c1 = c_states c @ [(AUTHENTICATING, [])]" by (simp add: c0_def notify_state_def)
  then show ?thesis
    using assms unfolding authenticate_def Let_def c0_def [symmetric] w prod.case
    by (cases b1; cases ms) (auto simp: notify_state_def split: bool.splits if_splits)
qed

text \<open>The states a round can report, without the reasons. Every part of it may end with an exception.\<close>

definition round_states :: "client_state list set" where
  "round_states =
     {[CONNECTING, CONNECTION_ERROR, DISCONNECTED],
      [CONNECTING, CONNECTED, AUTHENTICATING, AUTH_FAILED, DISCONNECTED],
      [CONNECTING, CONNECTED, AUTHENTICATING, CONNECTION_ERROR, DISCONNECTED],
      [CONNECTING, CONNECTED, AUTHENTICATING, AUTHENTICATED, CONNECTION_ERROR, DISCONNECTED],
      [CONNECTING, CONNECTED, AUTHENTICATING, AUTHENTICATED, STREAMS_READY, DISCONNECTED],
      [CONNECTING, CONNECTED, AUTHENTICATING, AUTHENTICATED, STREAMS_READY, CONNECTION_ERROR, DISCONNECTED]}"

lemma round_reports:
  assumes "c_running c"
  shows "\<exists>ss \<in> round_states. map fst (c_states (run_round e c)) = map fst (c_states c) @ ss"
proof -
  obtain b c1 where co: "connect (re_connect_error e) c = (b, c1)" by fastforce
  have s1: "map fst (c_states c1) = map fst (c_states c) @ (if b then [CONNECTING, CONNECTED] else [CONNECTING])"
    using co by (auto simp: connect_def Let_def notify_state_def split: option.splits if_splits)
  obtain b2 ms c2
    where au: "authenticate (fst (re_auth e)) (snd (re_auth e)) (re_read_throws e) (re_messages e) c1 = (b2, ms, c2)"
    by (rule prod_cases3)
  note s2 = authenticate_states [OF au]
  define c3 where "c3 = c2\<lparr>c_connected := True\<rparr>"
  obtain b3 ms3 c4
    where ini: "initialize_streams (re_read_throws e) (map (\<lambda>(i, _). (i, re_events e i)) (c_events c3)) ms c3 = (b3, ms3, c4)"
    by (rule prod_cases3)
  have s4: "c_states c4 = c_states c2" using st.P_initialize [OF ini refl] by (simp add: c3_def)
  obtain b5 c5 where rl: "read_loop (re_read_throws e) ms3 (notify_state STREAMS_READY [] c4) = (b5, c5)" by fastforce
  have "c_states (snd (read_loop (re_read_throws e) ms3 (notify_state STREAMS_READY [] c4))) =
      c_states (notify_state STREAMS_READY [] c4)" by (rule st.P_read_loop) (rule refl)
  with rl have s5: "c_states c5 = c_states c4 @ [(STREAMS_READY, [])]" by (simp add: notify_state_def)
  have "run_round e c = notify_state DISCONNECTED [] ((round_body e c)\<lparr>c_connected := False\<rparr>)"
    using assms by (simp add: run_round_def)
  then have "map fst (c_states (run_round e c)) = map fst (c_states (round_body e c)) @ [DISCONNECTED]"
    by (simp add: notify_state_def)
  moreover have "\<exists>ss. ss @ [DISCONNECTED] \<in> round_states \<and> map fst (c_states (round_body e c)) = map fst (c_states c) @ ss"
    unfolding round_body_def co prod.case au Let_def c3_def [symmetric] ini rl
    using s1 s2 s4 s5 by (cases b; cases b2; cases b3; cases b5) (auto simp: notify_state_def round_states_def split: bool.splits)
  ultimately show ?thesis by fastforce
qed

lemma run_loop_frame: "\<not> c_running c \<Longrightarrow> run_loop es c = c"
  by (induction es c rule: run_loop.induct) (auto simp: run_round_def)

section \<open>Sampling\<close>

lemma stream_resource_streams: "stream_resource r sid c = (res, c') \<Longrightarrow>
    c_streams c' = c_streams c \<and> (\<exists>out. c_write_queue c' = c_write_queue c @ out \<and> length out \<le> 1)"
  by (auto simp: stream_resource_def Let_def client_simps split: option.splits prod.splits if_splits)

lemma sample_streams_effect:
  "sample_streams now ss c = (True, c') \<Longrightarrow> distinct (map fst ss) \<Longrightarrow>
     (\<forall>(sid, cfg) \<in> set ss. map_of (c_streams c) sid = Some cfg) \<Longrightarrow>
     (\<forall>sid. map_of (c_streams c') sid =
        (case map_of ss sid of
           Some cfg \<Rightarrow> Some (if sample_due now cfg then cfg\<lparr>sc_last := now\<rparr> else cfg)
         | None \<Rightarrow> map_of (c_streams c) sid)) \<and>
     (\<exists>out. c_write_queue c' = c_write_queue c @ out \<and> length out \<le> length (filter (\<lambda>p. sample_due now (snd p)) ss))"
proof (induction now ss c arbitrary: c' rule: sample_streams.induct)
  case (1 now c)
  then show ?case by simp
next
  case (2 now sid cfg rest c)
  show ?case
  proof (cases "sample_due now cfg")
    case False
    with "2.prems" have "sample_streams now rest c = (True, c')" by simp
    from "2.IH"(2) [OF False this] "2.prems"(2,3) have IH: "(\<forall>s. map_of (c_streams c') s =
        (case map_of rest s of
           Some cfg \<Rightarrow> Some (if sample_due now cfg then cfg\<lparr>sc_last := now\<rparr> else cfg)
         | None \<Rightarrow> map_of (c_streams c) s)) \<and>
       (\<exists>out. c_write_queue c' = c_write_queue c @ out \<and> length out \<le> length (filter (\<lambda>p. sample_due now (snd p)) rest))"
      by (simp add: comp_def)
    have "map_of rest sid = None" using "2.prems"(2) by (simp add: map_of_eq_None_iff)
    with IH False "2.prems"(3) show ?thesis by (auto simp: comp_def)
  next
    case True
    define c1 where "c1 = c\<lparr>c_streams := sm_put sid (cfg\<lparr>sc_last := now\<rparr>) (c_streams c)\<rparr>"
    from "2.prems"(1) True obtain r where r: "Option.bind (sc_resource cfg) (deref c) = Some r"
      by (auto split: option.splits)
    obtain res c2 where s: "stream_resource r sid c1 = (res, c2)" by fastforce
    from "2.prems"(1) True r s obtain b where b: "res = Some b"
      by (auto simp: c1_def split: option.splits)
    with "2.prems"(1) True r s have e: "sample_streams now rest c2 = (True, c')" by (simp add: c1_def)
    from stream_resource_streams [OF s] obtain out1 where
      c2: "c_streams c2 = c_streams c1" "c_write_queue c2 = c_write_queue c @ out1" "length out1 \<le> 1"
      by (auto simp: c1_def)
    have n: "map_of rest sid = None" using "2.prems"(2) by (simp add: map_of_eq_None_iff)
    have "map_of (c_streams c2) s = Some g" if "(s, g) \<in> set rest" for s g
    proof -
      from that "2.prems"(2) have "s \<noteq> sid" by force
      with that "2.prems"(3) show ?thesis by (auto simp: c2(1) c1_def)
    qed
    then have "\<forall>(s, g) \<in> set rest. map_of (c_streams c2) s = Some g" by auto
    from "2.IH"(1) [OF True r s [folded c1_def, symmetric, unfolded c1_def] b e _ this] "2.prems"(2)
    obtain out2 where IH: "\<forall>s. map_of (c_streams c') s =
        (case map_of rest s of
           Some cfg \<Rightarrow> Some (if sample_due now cfg then cfg\<lparr>sc_last := now\<rparr> else cfg)
         | None \<Rightarrow> map_of (c_streams c2) s)"
      "c_write_queue c' = c_write_queue c2 @ out2" "length out2 \<le> length (filter (\<lambda>p. sample_due now (snd p)) rest)"
      by auto
    show ?thesis
      using IH c2 n True by (intro conjI exI [of _ "out1 @ out2"]) (auto simp: c1_def split: option.split)
  qed
qed

section \<open>Properties\<close>

text \<open>C18: a response goes to the request that waits for it. When \<open>wait_response\<close> reports a response, it is that
  of the first message with the stream id of the request and a response type; the verdict and the
  payload are those of that message, every message before it was handled in order, and what follows is left
  to the reading loop.\<close>

theorem response_matches:
  assumes "wait_response request ms c = (Response b p, rest, c')"
  shows "\<exists>pre m. ms = pre @ m # rest \<and>
    (\<forall>x \<in> set pre. get_stream_id x \<noteq> get_stream_id request \<or> type_code (msg_type x) > 2) \<and>
    get_stream_id m = get_stream_id request \<and> type_code (msg_type m) \<le> 2 \<and>
    b = (msg_type m = OK) \<and> p = field_of PAYLOAD m \<and> c' = fold (\<lambda>m c. snd (handle_message m c)) pre c"
proof -
  have r: "is_response request x \<longleftrightarrow> get_stream_id x = get_stream_id request \<and> type_code (msg_type x) \<le> 2" for x
    by (auto simp: is_response_def)
  show ?thesis using wait_response_split [OF assms] by (simp add: handle_all_def r not_le)
qed

theorem response_matches_witness:
  "\<exists>pre m. [new_message KEEP_ALIVE, new_stream_message 9 OK, new_message KEEP_ALIVE]
        = pre @ m # [new_message KEEP_ALIVE] \<and> get_stream_id m = get_stream_id (new_stream_message 9 RUN) \<and> type_code (msg_type m) \<le> 2"
proof -
  have "wait_response (new_stream_message 9 RUN)
      [new_message KEEP_ALIVE, new_stream_message 9 OK, new_message KEEP_ALIVE] (new_client ()) =
      (Response True None, [new_message KEEP_ALIVE], new_client ())"
    by (simp add: is_response_def handle_message_def get_stream_id_def field_defs new_stream_message_def)
  from response_matches [OF this] show ?thesis by blast
qed

text \<open>C22: the references in the stream map stay valid across connections. However often the client connects,
  authenticates, subscribes, reads and loses the connection, every stream still refers to an
  existing resource or event.\<close>

theorem references_survive_reconnection:
  assumes "streams_ok c"
  shows "streams_ok (run_loop es c)"
  using assms by (induction es c rule: run_loop.induct) (simp_all add: streams_ok_round)

theorem references_survive_reconnection_witness:
  "streams_ok (run_loop [\<lparr>re_connect_error = None, re_auth = (5, Some True), re_events = (\<lambda>_. (1, Some True)),
       re_messages = [new_message OK, new_stream_message 7 STOP_STREAM], re_read_throws = True, re_what = []\<rparr>] demo_client)"
  by (rule references_survive_reconnection [OF demo_client_ok])

text \<open>C36: the state callback follows the life of the connection. A round of the running client reports one of
  six sequences of states, exceptions of the message log and of the reading included: it always begins with connecting
  and ends with disconnected, streams are ready only after a successful authentication, a connection error comes
  last before disconnected, and the client is not connected afterwards.\<close>

theorem round_reports_states:
  assumes "c_running c"
  shows "(\<exists>ss \<in> round_states. map fst (c_states (run_round e c)) = map fst (c_states c) @ ss) \<and>
    \<not> c_connected (run_round e c)"
  using round_reports [OF assms] assms by (simp add: run_round_def notify_state_def)

theorem round_reports_states_witness:
  "let e = \<lparr>re_connect_error = None, re_auth = (5, Some True), re_events = (\<lambda>_. (1, Some True)),
       re_messages = [new_message OK], re_read_throws = True, re_what = ''log''\<rparr> in
   \<exists>ss \<in> round_states. map fst (c_states (run_round e demo_client)) = map fst (c_states demo_client) @ ss"
  using round_reports_states [of demo_client] unfolding Let_def by (simp add: demo_client_def)

text \<open>A subscription keeps its configuration. A round of \<open>initialize_streams\<close> that could write its request and
  met no exception leaves the call and parameters of every event as they were, whatever was
  received meanwhile, so that the next connection subscribes again.\<close>

theorem subscription_keeps_params:
  assumes "subscribe i rnd (Some True) read_throws ms c = (True, ms', c')" and "map_of (c_events c) j = Some ev"
  shows "\<exists>ev'. map_of (c_events c') j = Some ev' \<and> ev_params ev' = ev_params ev \<and> ev_run ev' = ev_run ev"
  using subscribe_restores [OF assms(1), of j] assms(2) by (auto simp: ev_config_def)

theorem subscription_keeps_params_witness:
  "\<exists>c1 c2 ms ev. event_subscribe ''boot'' (new_client ()) = Some (1, c1) \<and>
     subscribe 1 77 (Some True) False [new_stream_message 77 OK] c1 = (True, ms, c2) \<and>
     map_of (c_events c2) 1 = Some ev \<and> ev_params ev = JObj [(''event'', JStr ''boot'')]"
proof -
  define c1 where "c1 = snd (the (event_subscribe ''boot'' (new_client ())))"
  define r where "r = subscribe 1 77 (Some True) False [new_stream_message 77 OK] c1"
  have e: "event_subscribe ''boot'' (new_client ()) = Some (1, c1)"
    by (simp add: c1_def event_subscribe_def add_event_def Let_def next_event_id_def new_client_def
        event_entry_def new_server_event_def)
  obtain ev where ev: "map_of (c_events c1) 1 = Some ev" "ev_params ev = JObj [(''event'', JStr ''boot'')]"
    by (simp add: c1_def event_subscribe_def add_event_def Let_def next_event_id_def new_client_def
        event_entry_def new_server_event_def)
  have "fst r = True" unfolding r_def c1_def by code_simp
  then have r: "subscribe 1 77 (Some True) False [new_stream_message 77 OK] c1 = (True, fst (snd r), snd (snd r))"
    by (metis prod.collapse r_def)
  from subscription_keeps_params [OF r ev(1)] obtain ev' where
    "map_of (c_events (snd (snd r))) 1 = Some ev'" "ev_params ev' = ev_params ev" by blast
  then have "ev_params ev' = JObj [(''event'', JStr ''boot'')]" using ev(2) by simp
  with e r \<open>map_of (c_events (snd (snd r))) 1 = Some ev'\<close> show ?thesis by blast
qed

text \<open>A failed write loses it. When the request of a subscription cannot be written, its parameters are
  not put back: the event is left with a null configuration, and that is what every later
  connection sends.\<close>

theorem subscription_lost_on_write_error:
  assumes "map_of (c_events c) i = Some ev"
  shows "\<exists>c' ev'. subscribe i rnd (Some False) read_throws ms c = (True, ms, c') \<and> map_of (c_events c') i = Some ev' \<and>
    ev_params ev' = JNull"
  using assms
  by (auto simp: subscribe_def Let_def write_logged_def write_message_def put_event_def close_socket_def)

theorem subscription_lost_on_write_error_witness:
  "\<exists>c' ev'. subscribe 1 77 (Some False) False [] ((new_client ())\<lparr>c_events := [(1, new_server_event\<lparr>ev_params := JObj []\<rparr>)]\<rparr>) =
       (True, [], c') \<and> map_of (c_events c') 1 = Some ev' \<and> ev_params ev' = JNull"
  by (rule subscription_lost_on_write_error) simp

text \<open>Event ids run out. Once the last id, 255, is in use, the next subscription gets id 0, and every later one
  gets id 0 again and replaces the configuration of the one before.\<close>

theorem event_ids_exhausted:
  assumes "sm_ok (c_events c)" and "map_of (c_events c) 255 \<noteq> None" and "add_event as c = Some (i, c')"
  shows "i = 0 \<and> next_event_id c' = 0"
proof -
  have last: "fst (last xs) = 255" if "sm_ok xs" "map_of xs 255 \<noteq> None" for xs :: "(byte \<times> 'b) list"
  proof (cases xs rule: rev_cases)
    case Nil
    with that show ?thesis by simp
  next
    case (snoc ys p)
    have "(255 :: byte) \<le> fst p"
    proof -
      from that(2) have "255 \<in> fst ` set xs" by (simp add: map_of_eq_None_iff)
      with that(1) snoc show ?thesis by (fastforce simp: sm_ok_def sorted_wrt_append)
    qed
    moreover have "fst p \<le> 255"
    proof -
      have "(- 1 :: byte) = 255" by simp
      with word_n1_ge [of "fst p"] show ?thesis by (simp only:)
    qed
    ultimately show ?thesis using snoc by simp
  qed
  have ne: "xs \<noteq> []" if "map_of xs 255 \<noteq> None" for xs :: "(byte \<times> 'b) list" using that by auto
  from assms(3) obtain v where i: "i = next_event_id c" and c': "c_events c' = sm_put i v (c_events c)"
    by (auto simp: add_event_def Let_def)
  have i0: "i = 0" using last [OF assms(1,2)] ne [OF assms(2)] by (simp add: i next_event_id_def)
  have ok: "sm_ok (c_events c')" "map_of (c_events c') 255 \<noteq> None"
    using assms(1,2) by (simp_all add: c')
  have "next_event_id c' = 0" using last [OF ok] ne [OF ok(2)] by (simp add: next_event_id_def)
  with i0 show ?thesis by simp
qed

theorem event_ids_exhausted_witness:
  "\<exists>c'. event_subscribe ''boot'' ((new_client ())\<lparr>c_events := [(255, new_server_event)]\<rparr>) = Some (0, c') \<and>
     next_event_id c' = 0"
proof -
  let ?c = "(new_client ())\<lparr>c_events := [(255, new_server_event)]\<rparr>"
  obtain i c' where e: "add_event [(''event'', JStr ''boot'')] ?c = Some (i, c')"
    by (auto simp: add_event_def Let_def next_event_id_def event_entry_def new_server_event_def)
  have "sm_ok (c_events ?c)" "map_of (c_events ?c) 255 \<noteq> None" by (simp_all add: sm_ok_def)
  from event_ids_exhausted [OF this e] e show ?thesis by (auto simp: event_subscribe_def)
qed

text \<open>Sampling keeps to the intervals. A tick that completes marks exactly the streams that are due (an
  interval set and at least that many milliseconds passed) as sampled now, changes no other
  stream, and queues at most one message for each stream that was due.\<close>

theorem sampling_keeps_intervals:
  assumes "sm_ok (c_streams c)" and "c_running c" and "c_connected c"
    and "stream_interval_tick now c = (True, c')"
  shows "map_of (c_streams c') sid =
      map_option (\<lambda>cfg. if sample_due now cfg then cfg\<lparr>sc_last := now\<rparr> else cfg) (map_of (c_streams c) sid) \<and>
    (\<exists>out. c_write_queue c' = c_write_queue c @ out \<and>
       length out \<le> length (filter (\<lambda>p. sample_due now (snd p)) (c_streams c)))"
proof -
  have d: "distinct (map fst (c_streams c))" by (rule sm_ok_distinct [OF assms(1)])
  then have m: "\<forall>(sid, cfg) \<in> set (c_streams c). map_of (c_streams c) sid = Some cfg" by auto
  from assms(2-4) have "sample_streams now (c_streams c) c = (True, c')" by (simp add: stream_interval_tick_def)
  from sample_streams_effect [OF this d m] show ?thesis by (auto split: option.splits)
qed

theorem sampling_keeps_intervals_witness:
  "map_of (c_streams (snd (stream_interval_tick 5000
       (demo_client\<lparr>c_streams := [(7, \<lparr>sc_resource = Some (Resource_At ''led''), sc_interval = 1000, sc_last = 3000\<rparr>)]\<rparr>)))) 7
     = Some \<lparr>sc_resource = Some (Resource_At ''led''), sc_interval = 1000, sc_last = 5000\<rparr>"
proof -
  let ?c = "demo_client\<lparr>c_streams := [(7, \<lparr>sc_resource = Some (Resource_At ''led''), sc_interval = 1000, sc_last = 3000\<rparr>)]\<rparr>"
  have "fst (stream_interval_tick 5000 ?c)" by code_simp
  then have t: "stream_interval_tick 5000 ?c = (True, snd (stream_interval_tick 5000 ?c))"
    by (metis prod.collapse)
  have "sm_ok (c_streams ?c)" "c_running ?c" "c_connected ?c" by (simp_all add: sm_ok_def demo_client_def)
  from sampling_keeps_intervals [OF this t, of 7] show ?thesis by (simp add: sample_due_def)
qed

text \<open>Nothing is reset between connections. A round in which the connection fails leaves the queued
  messages and the registered streams of the previous connection in place; the next connection begins by
  sending what was meant for the old one, and keeps sampling its streams.\<close>

theorem stale_state_survives:
  assumes "re_connect_error e = Some err"
  shows "c_write_queue (run_round e c) = c_write_queue c \<and> c_streams (run_round e c) = c_streams c"
  using assms by (simp add: run_round_def round_body_def connect_def Let_def notify_state_def)

theorem stale_state_survives_witness:
  "c_streams (run_round \<lparr>re_connect_error = Some ''refused'', re_auth = (5, Some True), re_events = (\<lambda>_. (1, Some True)),
       re_messages = [], re_read_throws = False, re_what = []\<rparr> demo_client) = c_streams demo_client"
  using stale_state_survives [of "\<lparr>re_connect_error = Some ''refused'', re_auth = (5, Some True), re_events = (\<lambda>_. (1, Some True)),
       re_messages = [], re_read_throws = False, re_what = []\<rparr>" "''refused''" demo_client] by simp

end
