(* ===== verification/Client_Transport.thy ===== *)
theory Client_Transport
  imports Client_Session
begin

text \<open>
  Where a connection goes and how it is protected: \<open>create_socket\<close> and \<open>websocket_connect\<close> of \<^verbatim>\<open>client.hpp\<close>. The
  sockets, TLS and the WebSocket client are libraries; modelled is what they are asked for. The TLS context is made
  at the first use and kept.
\<close>

section \<open>Sockets\<close>

text \<open>A TLS socket with the verification mode of its context; the context of a client, if it was made.\<close>

datatype socket_kind = Tcp_Socket | Ssl_Socket (verifies: bool)

type_synonym ssl_context = "bool option"

definition create_socket :: "'w client \<Rightarrow> ssl_context \<Rightarrow> socket_kind option \<times> ssl_context" where
  "create_socket c ctx =
     (case c_transport c of
        SSL \<Rightarrow> (let mode = (case ctx of None \<Rightarrow> c_verify_ssl c | Some b \<Rightarrow> b) in (Some (Ssl_Socket mode), Some mode))
      | TCP \<Rightarrow> (Some Tcp_Socket, ctx)
      | WEBSOCKET \<Rightarrow> (None, ctx))"

definition websocket_url :: "'w client \<Rightarrow> string" where
  "websocket_url c = ''wss://'' @ c_host c @ '':'' @ decimal (unat (c_port c)) @ ''/iotmp''"

datatype connection_target =
    Upgrade string bool
  | Direct socket_kind string string

text \<open>What \<open>websocket_connect\<close> asks of the HTTP client.\<close>

definition websocket_target :: "'w client \<Rightarrow> connection_target" where
  "websocket_target c = Upgrade (websocket_url c) (c_verify_ssl c)"

text \<open>\<open>connect\<close> up to the library call; a missing socket would be dereferenced (\<open>None\<close>).\<close>

definition connection_target :: "'w client \<Rightarrow> ssl_context \<Rightarrow> connection_target option \<times> ssl_context" where
  "connection_target c ctx =
     (if c_transport c = WEBSOCKET then (Some (websocket_target c), ctx)
      else
        (case create_socket c ctx of
           (sock, ctx') \<Rightarrow> (map_option (\<lambda>k. Direct k (c_host c) (decimal (unat (c_port c)))) sock, ctx')))"

text \<open>\<open>run\<close>: a callback in the loop of a connected client.\<close>

definition run_synchronized :: "('w client \<Rightarrow> bool \<times> 'w client) \<Rightarrow> 'w client \<Rightarrow> bool \<times> 'w client" where
  "run_synchronized callback c =
     (if c_socket c = None then (False, c) else if \<not> c_connected c then (False, c) else callback c)"

lemma port_names: "decimal 25206 = ''25206''" "decimal 25204 = ''25204''" "decimal 443 = ''443''"
  by (simp_all add: decimal.simps digit_char_def) code_simp+

lemmas target_defs = new_client_def set_verify_ssl_def set_transport_def set_host_def connection_target_def websocket_target_def
  create_socket_def websocket_url_def port_names

section \<open>Histories\<close>

text \<open>The application configures the client and connections are made, in some order.\<close>

datatype config_step =
    Set_Verify bool
  | Set_Transport transport_type
  | Set_Host string
  | Set_Credentials string string string
  | Connect

fun config_steps :: "config_step list \<Rightarrow> 'w client \<Rightarrow> ssl_context \<Rightarrow> connection_target option list" where
  "config_steps [] c ctx = []"
| "config_steps (Set_Verify b # ss) c ctx = config_steps ss (set_verify_ssl b c) ctx"
| "config_steps (Set_Transport t # ss) c ctx = config_steps ss (set_transport t c) ctx"
| "config_steps (Set_Host h # ss) c ctx = config_steps ss (set_host h c) ctx"
| "config_steps (Set_Credentials u d p # ss) c ctx = config_steps ss (set_credentials u d p c) ctx"
| "config_steps (Connect # ss) c ctx =
     (case connection_target c ctx of (t, ctx') \<Rightarrow> t # config_steps ss c ctx')"

fun target_verified :: "connection_target option \<Rightarrow> bool" where
  "target_verified None = False"
| "target_verified (Some (Upgrade url verify)) = verify"
| "target_verified (Some (Direct kind host port)) = (kind = Tcp_Socket \<or> verifies kind)"

lemma target_step:
  assumes "c_verify_ssl c" and "ctx \<noteq> Some False" and "connection_target c ctx = (t, ctx')"
  shows "target_verified t \<and> ctx' \<noteq> Some False"
  using assms
  by (cases "c_transport c"; cases ctx) (auto simp: connection_target_def websocket_target_def create_socket_def Let_def)

lemma verified_steps:
  "c_verify_ssl c \<Longrightarrow> ctx \<noteq> Some False \<Longrightarrow> Set_Verify False \<notin> set ss \<Longrightarrow> \<forall>t \<in> set (config_steps ss c ctx). target_verified t"
proof (induction ss c ctx rule: config_steps.induct)
  case (6 ss c ctx)
  obtain t ctx' where t: "connection_target c ctx = (t, ctx')" by fastforce
  from target_step [OF 6(2,3) t] "6.IH" [OF t [symmetric]] 6(2-4) t show ?case by simp
qed (auto simp: set_verify_ssl_def set_transport_def set_host_def set_credentials_def)

text \<open>C30: A client verifies its server unless it was told not to: whatever is configured and however often it connects, as
  long as verification was not switched off every connection is made, and over TLS or a WebSocket it verifies the
  certificate.\<close>

theorem server_verified:
  assumes "Set_Verify False \<notin> set ss"
  shows "list_all target_verified (config_steps ss (new_client w) None)"
  unfolding list_all_iff by (rule verified_steps [OF _ _ assms]) (simp_all add: new_client_def)

theorem server_verified_witness:
  "config_steps [Set_Host ''h'', Connect, Set_Transport WEBSOCKET, Connect, Set_Transport TCP, Connect] (new_client ()) None =
     [Some (Direct (Ssl_Socket True) ''h'' ''25206''), Some (Upgrade ''wss://h:443/iotmp'' True),
      Some (Direct Tcp_Socket ''h'' ''25204'')] \<and>
   list_all target_verified (config_steps [Set_Host ''h'', Connect, Set_Transport WEBSOCKET, Connect, Set_Transport TCP, Connect] (new_client ()) None)"
  using server_verified [of "[Set_Host ''h'', Connect, Set_Transport WEBSOCKET, Connect, Set_Transport TCP, Connect]" "()"]
  by (simp add: target_defs)

section \<open>Corners\<close>

text \<open>The context outlives the setting: switching verification on again after a connection without it has no effect.\<close>

lemma verification_not_restored:
  "config_steps [Set_Verify False, Connect, Set_Verify True, Connect] (new_client w) None =
     [Some (Direct (Ssl_Socket False) [] ''25206''), Some (Direct (Ssl_Socket False) [] ''25206'')]"
  by (simp add: target_defs)

end
