(* ===== verification/Message_Types.thy ===== *)
theory Message_Types
  imports Framing
begin

text \<open>
  The types of what comes over the connection: a value is well-formed when the keys of each object in it are in order and
  distinct, as in a \<open>std::map\<close>, and no value is the discarded one. Whatever octets arrive, the decoders build
  well-formed values, and a message is a map from field numbers to them.
\<close>

fun well_formed :: "json \<Rightarrow> bool"
  and well_formed_pairs :: "(string \<times> json) list \<Rightarrow> bool"
where
  "well_formed (JArr xs) = (\<forall>x \<in> set xs. well_formed x)"
| "well_formed (JObj kvs) = (sm_ok kvs \<and> well_formed_pairs kvs)"
| "well_formed JDiscarded = False"
| "well_formed v = True"
| "well_formed_pairs [] = True"
| "well_formed_pairs ((k, v) # kvs) = (well_formed v \<and> well_formed_pairs kvs)"

lemma well_formed_pairs_iff: "well_formed_pairs kvs \<longleftrightarrow> (\<forall>(k, v) \<in> set kvs. well_formed v)"
  by (induction kvs) auto

lemma well_formed_put_pair: "well_formed_pairs kvs \<Longrightarrow> well_formed v \<Longrightarrow> well_formed_pairs (sm_put k v kvs)"
  by (induction k v kvs rule: sm_put.induct) auto

lemma well_formed_lookup: "well_formed_pairs kvs \<Longrightarrow> map_of kvs k = Some v \<Longrightarrow> well_formed v"
  by (induction kvs) (auto split: if_splits)

lemma sm_ok_single [simp]: "sm_ok [(k, v)]"
  by (simp add: sm_ok_def)

text \<open>The operations on values keep them well-formed.\<close>

lemma well_formed_put: "well_formed v \<Longrightarrow> well_formed x \<Longrightarrow> j_put k x v = Some v' \<Longrightarrow> well_formed v'"
  by (cases "(k, x, v)" rule: j_put.cases) (auto simp: well_formed_put_pair)

lemma well_formed_find: "well_formed v \<Longrightarrow> j_find k v = Some x \<Longrightarrow> well_formed x"
  by (cases v) (auto dest: well_formed_lookup)

lemma well_formed_obj: "\<forall>(k, v) \<in> set kvs. well_formed v \<Longrightarrow> well_formed (j_obj kvs)"
proof -
  have "sm_ok (fold (\<lambda>(k, v). sm_put k v) kvs acc) \<and> well_formed_pairs (fold (\<lambda>(k, v). sm_put k v) kvs acc)"
    if "sm_ok acc" "well_formed_pairs acc" "\<forall>(k, v) \<in> set kvs. well_formed v" for acc
    using that by (induction kvs arbitrary: acc) (auto simp: well_formed_put_pair)
  from this [of "[]"] show "\<forall>(k, v) \<in> set kvs. well_formed v \<Longrightarrow> well_formed (j_obj kvs)" by (simp add: j_obj_def)
qed

section \<open>The decoders\<close>

lemma decode_well_formed:
  "decode r v = (ok, v', r') \<Longrightarrow> well_formed v \<Longrightarrow> well_formed v'"
  "decode_array r xs n = (ok, xs', r') \<Longrightarrow> \<forall>x \<in> set xs. well_formed x \<Longrightarrow> \<forall>x \<in> set xs'. well_formed x"
  "decode_object r kvs n = (ok, kvs', r') \<Longrightarrow> sm_ok kvs \<Longrightarrow> well_formed_pairs kvs \<Longrightarrow> sm_ok kvs' \<and> well_formed_pairs kvs'"
  "decode_pair r kvs = (ok, kvs', r') \<Longrightarrow> sm_ok kvs \<Longrightarrow> well_formed_pairs kvs \<Longrightarrow> sm_ok kvs' \<and> well_formed_pairs kvs'"
proof (induction r v and r xs n and r kvs n and r kvs arbitrary: ok v' r' and ok xs' r' and ok kvs' r' and ok kvs' r'
    rule: decode_decode_array_decode_object_decode_pair.induct)
  case (1 r v)
  obtain t r1 where t: "pb_decode_tag mr_read r = (t, r1)" by fastforce
  show ?case
  proof (cases t)
    case None
    with t 1 show ?thesis by (simp add: decode.simps)
  next
    case (Some q)
    then obtain ty p where q: "t = Some (ty, p)" by (cases q) auto
    note eq = "1.prems"(1) [unfolded decode.simps [of r v] t q prod.case option.case]
    show ?thesis
    proof (cases ty)
      case map_t
      obtain b kvs r2 where d: "decode_object r1 [] (unat p) = (b, kvs, r2)" by (metis prod_cases3)
      from "1.IH"(1) [OF t [symmetric] q _ map_t d] eq map_t d show ?thesis by auto
    next
      case array_t
      obtain b xs r2 where d: "decode_array r1 [] (unat p) = (b, xs, r2)" by (metis prod_cases3)
      from "1.IH"(2) [OF t [symmetric] q _ array_t d] eq array_t d show ?thesis by auto
    qed (use eq "1.prems"(2) in \<open>auto split: if_splits option.splits\<close>)
  qed
next
  case (2 r xs n)
  show ?case
  proof (cases "n = 0")
    case True
    with 2 show ?thesis by (auto simp: decode_array.simps)
  next
    case False
    obtain b v r1 where d: "decode r JNull = (b, v, r1)" by (metis prod_cases3)
    from "2.IH"(1) [OF False d] have v: "well_formed v" by simp
    show ?thesis
    proof (cases b)
      case True
      have e: "decode_array r1 (xs @ [v]) (n - 1) = (ok, xs', r')"
        using "2.prems" False True d by (simp add: decode_array.simps [of r xs n])
      from "2.IH"(2) [OF False d [symmetric] _ refl e] True v "2.prems"(2) show ?thesis by auto
    next
      case b: False
      with "2.prems" False d show ?thesis by (simp add: decode_array.simps [of r xs n])
    qed
  qed
next
  case (3 r kvs n)
  show ?case
  proof (cases "n = 0")
    case True
    with 3 show ?thesis by (auto simp: decode_object.simps)
  next
    case False
    obtain b kvs1 r1 where d: "decode_pair r kvs = (b, kvs1, r1)" by (metis prod_cases3)
    from "3.IH"(1) [OF False d "3.prems"(2,3)] have v: "sm_ok kvs1" "well_formed_pairs kvs1" by auto
    show ?thesis
    proof (cases b)
      case True
      have e: "decode_object r1 kvs1 (n - 1) = (ok, kvs', r')"
        using "3.prems" False True d by (simp add: decode_object.simps [of r kvs n])
      from "3.IH"(2) [OF False d [symmetric] _ refl e v] True show ?thesis by auto
    next
      case b: False
      with "3.prems" False d v show ?thesis by (simp add: decode_object.simps [of r kvs n])
    qed
  qed
next
  case (4 r kvs)
  obtain t r1 where t: "pb_decode_tag mr_read r = (t, r1)" by fastforce
  show ?case
  proof (cases "\<exists>n bs r2. t = Some (string_t, n) \<and> \<not> UINT32_MAX < n \<and> mr_read r1 (unat n) = Some (bs, r2)")
    case True
    then obtain n bs r2 where n: "t = Some (string_t, n)" "\<not> UINT32_MAX < n" "mr_read r1 (unat n) = Some (bs, r2)" by blast
    let ?key = "map char_from bs"
    let ?v0 = "case map_of kvs ?key of None \<Rightarrow> JNull | Some v \<Rightarrow> v"
    obtain b v r3 where d: "decode r2 ?v0 = (b, v, r3)" by (metis prod_cases3)
    have "well_formed ?v0" using "4.prems"(3) by (auto split: option.split dest: well_formed_lookup)
    with "4.IH" [OF t [symmetric] n(1) refl _ n(2) n(3) refl refl refl d] have "well_formed v" by simp
    with "4.prems" t n d show ?thesis by (auto simp: decode_pair.simps [of r kvs] Let_def well_formed_put_pair)
  next
    case False
    with "4.prems" t show ?thesis
      by (auto simp: decode_pair.simps [of r kvs] split: option.splits if_splits)
  qed
qed

section \<open>Messages\<close>

definition fields_formed :: "iotmp_message \<Rightarrow> bool" where
  "fields_formed m \<longleftrightarrow> (\<forall>(f, v) \<in> set (msg_fields m). well_formed v)"

lemma fields_formed_new [simp]: "fields_formed (new_message t)"
  by (simp add: fields_formed_def new_message_def)

lemma set_update_subset: "set (AList.update k v xs) \<subseteq> insert (k, v) (set xs)"
  by (induction xs) auto

lemma fields_formed_set: "fields_formed m \<Longrightarrow> well_formed v \<Longrightarrow> fields_formed (set_field f v m)"
  using set_update_subset [of f v "msg_fields m"] by (auto simp: fields_formed_def set_field_def)

lemma fields_formed_get: "fields_formed m \<Longrightarrow> well_formed (const_field f m)"
  by (auto simp: fields_formed_def const_field_def field_of_def split: option.split dest!: map_of_SomeD)

lemma id_decode_formed:
  "id_decode_from start r m sz = (ok, m', r') \<Longrightarrow> fields_formed m \<Longrightarrow> fields_formed m'"
proof (induction start r m sz arbitrary: ok m' r' rule: id_decode_from.induct)
  case (1 start r m sz)
  note step = id_decode_from.simps [of start r m sz]
  show ?case
  proof (cases "sz = mr_bytes_read r - start")
    case True
    with 1 show ?thesis by (simp add: id_decode_from.simps)
  next
    case False
    obtain res r1 where f: "id_decode_field r = (res, r1)" by fastforce
    show ?thesis
    proof (cases res)
      case None
      with False f 1 show ?thesis by (simp add: step)
    next
      case (Some wn)
      then obtain wt n where wn: "res = Some (wt, n)" by (cases wn) auto
      consider "wt = WT_VARINT" | "wt \<noteq> WT_VARINT" "wt = WT_PSON_V2" | "wt \<noteq> WT_VARINT" "wt \<noteq> WT_PSON_V2" by blast
      then show ?thesis
      proof cases
        case 1
        obtain v r2 where v: "id_decode_varint r1 = (v, r2)" by fastforce
        show ?thesis
        proof (cases v)
          case None
          with 1 False f wn v "1.prems" show ?thesis by (simp add: step Let_def)
        next
          case (Some x)
          have "fields_formed (set_field (ucast n) (JUInt (ucast x)) m)" by (simp add: fields_formed_set "1.prems"(2))
          with Some 1 False f wn v "1.prems" "1.IH"(1) [OF False f [symmetric] _ refl refl 1] show ?thesis
            by (auto simp: step Let_def)
        qed
      next
        case 2
        obtain b v r2 where v: "decode r1 (const_field (ucast n) m) = (b, v, r2)" by (metis prod_cases3)
        have "well_formed v" by (rule decode_well_formed(1) [OF v fields_formed_get [OF "1.prems"(2)]])
        then have "fields_formed (set_field (ucast n) v m)" by (rule fields_formed_set [OF "1.prems"(2)])
        with 2 False f wn v "1.prems" "1.IH"(2) show ?thesis
          by (cases b) (auto simp: step Let_def)
      next
        case 3
        with False f wn "1.prems" show ?thesis by (simp add: step Let_def)
      qed
    qed
  qed
qed

text \<open>A message that is read from the connection, whatever octets arrive, is well typed: its fields are a map, and each
  value in it is well-formed, with distinct keys in order in every object.\<close>

lemma messages_well_formed:
  assumes "read_message rd s = (Some m, s')"
  shows "msg_ok m \<and> fields_formed m"
proof -
  have "msg_ok m' \<and> fields_formed m'" if "id_decode r (new_message t) sz = (ok, m', r')" for r t sz ok m' r'
    using that id_decode_from_safe [of _ r "new_message t" sz ok m' r'] id_decode_formed [of _ r "new_message t" sz ok m' r']
    by (simp add: id_decode_def)
  with assms show ?thesis
    by (auto simp: read_message_def Let_def split: option.splits prod.splits if_splits)
qed

end
