(* ===== verification/Message_Logger.thy ===== *)
theory Message_Logger
  imports Client_Session "HOL-Library.Monad_Syntax"
begin

text \<open>
  The lines of the message log, \<^verbatim>\<open>core/iotmp_logger.hpp\<close>. A line is the octets written to the stream, the
  arrows and dots in UTF-8. \<open>dump\<close>, the serializer of \<open>nlohmann::json\<close>, is a parameter: \<open>None\<close> is the
  exception it throws for text that is not UTF-8. Whether lines are written at all is up to the logging library.
\<close>

section \<open>Colours and symbols\<close>

definition escape :: "string \<Rightarrow> string" where
  "escape code = CHR 0x1B # CHR ''['' # code @ ''m''"

definition RESET :: string where "RESET = escape ''0''"
definition DIM :: string where "DIM = escape ''2''"
definition TYPE_COLOR :: string where "TYPE_COLOR = escape ''1;36''"
definition STREAM_COLOR :: string where "STREAM_COLOR = escape ''1;35''"
definition RESOURCE_COLOR :: string where "RESOURCE_COLOR = escape ''1;33''"
definition PARAMS_COLOR :: string where "PARAMS_COLOR = escape ''0;34''"
definition PAYLOAD_COLOR :: string where "PAYLOAD_COLOR = escape ''0;32''"
definition BINARY_COLOR :: string where "BINARY_COLOR = escape ''0;90''"

definition ARROW_IN :: string where "ARROW_IN = [CHR 0xE2, CHR 0x86, CHR 0x90]"
definition ARROW_OUT :: string where "ARROW_OUT = [CHR 0xE2, CHR 0x86, CHR 0x92]"
definition DOT :: string where "DOT = [CHR 0xE2, CHR 0x80, CHR 0xA2]"

lemmas colours = escape_def RESET_def DIM_def TYPE_COLOR_def STREAM_COLOR_def RESOURCE_COLOR_def PARAMS_COLOR_def
  PAYLOAD_COLOR_def BINARY_COLOR_def ARROW_IN_def ARROW_OUT_def DOT_def

section \<open>Sizes\<close>

text \<open>
  The conversion of a \<open>size_t\<close> to \<open>double\<close> keeps 53 bits, and a value printed with one decimal is
  rounded, both to the nearest and in ties to the even neighbour.
\<close>

definition to_nearest :: "nat \<Rightarrow> nat \<Rightarrow> nat" where
  "to_nearest n k =
     (let q = n div k; r = n mod k in if 2 * r > k \<or> (2 * r = k \<and> odd q) then Suc q else q)"

fun bits_of :: "nat \<Rightarrow> nat" where
  "bits_of n = (if n = 0 then 0 else Suc (bits_of (n div 2)))"

declare bits_of.simps [simp del]

definition as_double :: "nat \<Rightarrow> nat" where
  "as_double n = (if n < 2 ^ 53 then n else let k = 2 ^ (bits_of n - 53) in to_nearest n k * k)"

definition one_decimal :: "nat \<Rightarrow> nat \<Rightarrow> string" where
  "one_decimal n k = (let tenths = to_nearest (10 * n) k in decimal (tenths div 10) @ ''.'' @ decimal (tenths mod 10))"

definition format_size :: "u64 \<Rightarrow> string" where
  "format_size bytes =
     (let n = unat bytes in
      if n < 1024 then decimal n @ ''B''
      else if n < 1024 * 1024 then one_decimal (as_double n) 1024 @ ''KB''
      else if n < 1024 * 1024 * 1024 then one_decimal (as_double n) (1024 * 1024) @ ''MB''
      else one_decimal (as_double n) (1024 * 1024 * 1024) @ ''GB'')"

section \<open>A line\<close>

definition format_json_value :: "(json \<Rightarrow> string option) \<Rightarrow> json \<Rightarrow> nat \<Rightarrow> string option" where
  "format_json_value dump v max_length =
     map_option (\<lambda>s. if length s > max_length then take max_length s @ [CHR 0xE2, CHR 0x80, CHR 0xA6] else s) (dump v)"

definition separator :: "bool \<Rightarrow> string \<Rightarrow> string" where
  "separator use_colors color = (if use_colors then '' '' @ DIM @ DOT @ RESET @ '' '' @ color else '' '' @ DOT @ '' '')"

definition reset :: "bool \<Rightarrow> string" where
  "reset use_colors = (if use_colors then RESET else [])"

text \<open>\<open>setw\<close> with \<open>left\<close> and with \<open>right\<close>.\<close>

definition pad_left :: "nat \<Rightarrow> string \<Rightarrow> string" where
  "pad_left n s = s @ replicate (n - length s) CHR '' ''"

definition pad_right :: "nat \<Rightarrow> string \<Rightarrow> string" where
  "pad_right n s = replicate (n - length s) CHR '' '' @ s"

definition resource_text :: "(json \<Rightarrow> string option) \<Rightarrow> json \<Rightarrow> string option" where
  "resource_text dump v =
     (case v of
        JStr s \<Rightarrow> Some s
      | JUInt n \<Rightarrow> Some (''#'' @ decimal (unat (ucast n :: u32)))
      | JArr xs \<Rightarrow> dump (JArr xs)
      | _ \<Rightarrow> Some [])"

definition payload_text :: "(json \<Rightarrow> string option) \<Rightarrow> bool \<Rightarrow> bool \<Rightarrow> json \<Rightarrow> string option" where
  "payload_text dump include_binary use_colors v =
     (case v of
        JBin b \<Rightarrow>
          Some (if include_binary then
                  separator use_colors BINARY_COLOR @ [CHR 0xE2, CHR 0x9F, CHR 0xA8] @ format_size (of_nat (length b)) @
                  [CHR 0xE2, CHR 0x9F, CHR 0xA9] @ reset use_colors
                else [])
      | _ \<Rightarrow> map_option (\<lambda>s. separator use_colors PAYLOAD_COLOR @ s @ reset use_colors) (format_json_value dump v 150))"

definition message_dump :: "(json \<Rightarrow> string option) \<Rightarrow> iotmp_message \<Rightarrow> bool \<Rightarrow> bool \<Rightarrow> bool \<Rightarrow> string option" where
  "message_dump dump msg include_binary use_colors is_incoming =
     do {
       let arrow = (if use_colors then DIM else []) @ (if is_incoming then ARROW_IN else ARROW_OUT) @ reset use_colors;
       let kind = (if use_colors then '' '' @ TYPE_COLOR else []) @
         pad_left 14 (map to_lower (message_type_name (msg_type msg))) @ reset use_colors;
       let sid = (if has_field STREAM_ID msg then
           separator use_colors STREAM_COLOR @ ''sid:'' @ pad_right 5 (decimal (unat (get_stream_id msg))) @ reset use_colors
         else []);
       resource \<leftarrow> (case field_of RESOURCE msg of
           None \<Rightarrow> Some []
         | Some v \<Rightarrow> map_option (\<lambda>s. separator use_colors RESOURCE_COLOR @ s @ reset use_colors) (resource_text dump v));
       parameters \<leftarrow> (case field_of PARAMETERS msg of
           None \<Rightarrow> Some []
         | Some v \<Rightarrow> map_option (\<lambda>s. separator use_colors PARAMS_COLOR @ s @ reset use_colors) (format_json_value dump v 150));
       content \<leftarrow> (case field_of PAYLOAD msg of
           None \<Rightarrow> Some []
         | Some v \<Rightarrow> payload_text dump include_binary use_colors v);
       Some (arrow @ kind @ sid @ resource @ parameters @ content)
     }"

definition dump_compact :: "(json \<Rightarrow> string option) \<Rightarrow> iotmp_message \<Rightarrow> bool \<Rightarrow> string option" where
  "dump_compact dump msg is_incoming = message_dump dump msg False True is_incoming"

definition dump_full :: "(json \<Rightarrow> string option) \<Rightarrow> iotmp_message \<Rightarrow> bool \<Rightarrow> string option" where
  "dump_full dump msg is_incoming = message_dump dump msg True True is_incoming"

text \<open>What the log is given: \<open>enabled\<close> is whether the library evaluates the arguments of the call.\<close>

definition log_incoming :: "(json \<Rightarrow> string option) \<Rightarrow> bool \<Rightarrow> iotmp_message \<Rightarrow> bool \<Rightarrow> string list option" where
  "log_incoming dump enabled msg include_binary =
     (if enabled then map_option (\<lambda>line. [line]) (message_dump dump msg include_binary True True) else Some [])"

definition log_outgoing :: "(json \<Rightarrow> string option) \<Rightarrow> bool \<Rightarrow> iotmp_message \<Rightarrow> bool \<Rightarrow> string list option" where
  "log_outgoing dump enabled msg include_binary =
     (if enabled then map_option (\<lambda>line. [line]) (message_dump dump msg include_binary True False) else Some [])"

section \<open>Lengths\<close>

lemma decimal_length: "n < 10 ^ Suc k \<Longrightarrow> length (decimal n) \<le> Suc k"
proof (induction k arbitrary: n)
  case 0
  then show ?case by (simp add: decimal.simps)
next
  case (Suc k)
  then have "n div 10 < 10 ^ Suc k" by (simp add: less_mult_imp_div_less mult.commute)
  with Suc.IH [of "n div 10"] show ?case by (subst decimal.simps) simp
qed

lemma to_nearest_le: "0 < k \<Longrightarrow> to_nearest n k \<le> Suc (n div k)"
  by (simp add: to_nearest_def Let_def)

lemma bits_of_bound: "n < 2 ^ m \<Longrightarrow> bits_of n \<le> m"
proof (induction n arbitrary: m rule: bits_of.induct)
  case (1 n)
  show ?case
  proof (cases "n = 0")
    case True
    then show ?thesis by (simp add: bits_of.simps)
  next
    case False
    then obtain m' where m: "m = Suc m'" using 1 by (cases m) auto
    then have "n div 2 < 2 ^ m'" using "1.prems" by (simp add: less_mult_imp_div_less mult.commute)
    from "1.IH" [OF False this] False m show ?thesis by (simp add: bits_of.simps [of n])
  qed
qed

lemma as_double_bound: "n < 2 ^ 64 \<Longrightarrow> as_double n < 2 ^ 65"
proof -
  assume n: "n < 2 ^ 64"
  show ?thesis
  proof (cases "n < 2 ^ 53")
    case False
    define k :: nat where "k = 2 ^ (bits_of n - 53)"
    have "bits_of n - 53 \<le> 11" using bits_of_bound [OF n] by simp
    then have "k \<le> 2 ^ 11" unfolding k_def by (rule power_increasing) simp
    have "to_nearest n k * k \<le> Suc (n div k) * k" by (intro mult_right_mono to_nearest_le) (simp_all add: k_def)
    also have "\<dots> \<le> n + k" by (simp add: div_times_less_eq_dividend)
    finally have "to_nearest n k * k \<le> n + 2 ^ 11" using \<open>k \<le> 2 ^ 11\<close> by linarith
    with n have "to_nearest n k * k < 2 ^ 65" by simp
    with False show ?thesis by (simp add: as_double_def k_def Let_def)
  qed (simp add: as_double_def)
qed

lemma one_decimal_length:
  assumes "0 < k" and "10 * n div k < 10 ^ 12 - 1"
  shows "length (one_decimal n k) \<le> 14"
proof -
  have "to_nearest (10 * n) k < 10 ^ 12" using to_nearest_le [OF assms(1), of "10 * n"] assms(2) by simp
  then have "to_nearest (10 * n) k div 10 < 10 ^ Suc 11" by (simp add: less_mult_imp_div_less)
  then have "length (decimal (to_nearest (10 * n) k div 10)) \<le> 12" using decimal_length by fastforce
  moreover have "length (decimal (to_nearest (10 * n) k mod 10)) \<le> 1" using decimal_length [of _ 0] by simp
  ultimately show ?thesis by (simp add: one_decimal_def Let_def)
qed

lemma format_size_length: "length (format_size bytes) \<le> 16"
proof -
  let ?n = "unat bytes"
  have n: "?n < 2 ^ LENGTH(64)" by (rule unsigned_less)
  then have d: "as_double ?n < 2 ^ 65" by (intro as_double_bound) simp
  consider "?n < 1024" | "1024 \<le> ?n" "?n < 1024 * 1024" | "1024 * 1024 \<le> ?n" "?n < 1024 * 1024 * 1024"
    | "1024 * 1024 * 1024 \<le> ?n" by linarith
  then show ?thesis
  proof cases
    case 1
    then show ?thesis using decimal_length [of ?n 3] by (simp add: format_size_def Let_def)
  next
    case 2
    then have "as_double ?n < 1024 * 1024" by (simp add: as_double_def)
    then have "length (one_decimal (as_double ?n) 1024) \<le> 14" by (intro one_decimal_length) simp_all
    with 2 show ?thesis by (simp add: format_size_def Let_def)
  next
    case 3
    then have "as_double ?n < 1024 * 1024 * 1024" by (simp add: as_double_def)
    then have "length (one_decimal (as_double ?n) (1024 * 1024)) \<le> 14" by (intro one_decimal_length) simp_all
    with 3 show ?thesis by (simp add: format_size_def Let_def)
  next
    case 4
    have "length (one_decimal (as_double ?n) (1024 * 1024 * 1024)) \<le> 14" using d by (intro one_decimal_length) simp_all
    with 4 show ?thesis by (simp add: format_size_def Let_def)
  qed
qed

lemma format_json_length: "format_json_value dump v n = Some s \<Longrightarrow> length s \<le> n + 3"
  by (auto simp: format_json_value_def)

lemma separator_length: "length color \<le> 7 \<Longrightarrow> length (separator use_colors color) \<le> 20"
  by (simp add: separator_def colours)

lemma reset_length: "length (reset use_colors) \<le> 4"
  by (simp add: reset_def colours)

lemma payload_text_length: "payload_text dump include_binary use_colors v = Some s \<Longrightarrow> length s \<le> 177"
proof -
  assume h: "payload_text dump include_binary use_colors v = Some s"
  have sep: "length (separator use_colors PAYLOAD_COLOR) \<le> 20" "length (separator use_colors BINARY_COLOR) \<le> 20"
    by (simp_all add: separator_length colours)
  show ?thesis
  proof (cases "\<exists>b. v = JBin b")
    case True
    then obtain b where "v = JBin b" ..
    with h sep reset_length [of use_colors] format_size_length [of "of_nat (length b)"] show ?thesis
      by (auto simp: payload_text_def split: if_splits)
  next
    case False
    then have "payload_text dump include_binary use_colors v =
        map_option (\<lambda>s. separator use_colors PAYLOAD_COLOR @ s @ reset use_colors) (format_json_value dump v 150)"
      by (cases v) (simp_all add: payload_text_def)
    with h obtain t where "format_json_value dump v 150 = Some t" "s = separator use_colors PAYLOAD_COLOR @ t @ reset use_colors"
      by auto
    with sep reset_length [of use_colors] format_json_length [of dump v 150 t] show ?thesis by simp
  qed
qed

section \<open>What a line shows\<close>

definition logged_resource :: "(json \<Rightarrow> string option) \<Rightarrow> iotmp_message \<Rightarrow> string" where
  "logged_resource dump msg =
     (case field_of RESOURCE msg of None \<Rightarrow> [] | Some v \<Rightarrow> (case resource_text dump v of None \<Rightarrow> [] | Some s \<Rightarrow> s))"

lemma kind_length: "length (message_type_name t) \<le> 12"
  by (cases t) simp_all

lemma sid_length: "length (pad_right 5 (decimal (unat (sid :: u16)))) = 5"
proof -
  have "unat sid < 2 ^ LENGTH(16)" by (rule unsigned_less)
  then have "length (decimal (unat sid)) \<le> 5" using decimal_length [of "unat sid" 4] by simp
  then show ?thesis by (simp add: pad_right_def)
qed

text \<open>A log line is at most 448 octets longer than the resource it names, however large the message is.\<close>

theorem log_line_bounded:
  assumes "message_dump dump msg include_binary use_colors is_incoming = Some line"
  shows "length line \<le> 448 + length (logged_resource dump msg)"
proof -
  let ?u = use_colors
  let ?arrow = "(if ?u then DIM else []) @ (if is_incoming then ARROW_IN else ARROW_OUT) @ reset ?u"
  let ?kind = "(if ?u then '' '' @ TYPE_COLOR else []) @ pad_left 14 (map to_lower (message_type_name (msg_type msg))) @ reset ?u"
  let ?sid = "if has_field STREAM_ID msg then
    separator ?u STREAM_COLOR @ ''sid:'' @ pad_right 5 (decimal (unat (get_stream_id msg))) @ reset ?u else []"
  obtain res par pay where line: "line = ?arrow @ ?kind @ ?sid @ res @ par @ pay"
    and res: "(case field_of RESOURCE msg of None \<Rightarrow> Some []
      | Some v \<Rightarrow> map_option (\<lambda>s. separator ?u RESOURCE_COLOR @ s @ reset ?u) (resource_text dump v)) = Some res"
    and par: "(case field_of PARAMETERS msg of None \<Rightarrow> Some []
      | Some v \<Rightarrow> map_option (\<lambda>s. separator ?u PARAMS_COLOR @ s @ reset ?u) (format_json_value dump v 150)) = Some par"
    and pay: "(case field_of PAYLOAD msg of None \<Rightarrow> Some [] | Some v \<Rightarrow> payload_text dump include_binary ?u v) = Some pay"
    using assms unfolding message_dump_def Let_def bind_eq_Some_conv by blast
  have sep: "length (separator ?u STREAM_COLOR) \<le> 20" "length (separator ?u RESOURCE_COLOR) \<le> 20"
    "length (separator ?u PARAMS_COLOR) \<le> 20" by (simp_all add: separator_length colours)
  note reset = reset_length [of ?u]
  have "length ?arrow \<le> 11" by (simp add: colours reset_def)
  moreover have "length ?kind \<le> 26" using kind_length [of "msg_type msg"] by (simp add: colours pad_left_def reset_def)
  moreover have "length ?sid \<le> 33" using reset sep sid_length [of "get_stream_id msg"] by simp
  moreover have "length res \<le> 24 + length (logged_resource dump msg)"
    using res reset sep by (auto simp: logged_resource_def split: option.splits)
  moreover have "length par \<le> 177"
    using par reset sep by (auto split: option.splits dest!: format_json_length)
  moreover have "length pay \<le> 177" using pay by (auto split: option.splits dest: payload_text_length)
  ultimately show ?thesis unfolding line by (simp only: length_append)
qed

definition plain_dump :: "json \<Rightarrow> string option" where
  "plain_dump v = (case v of JStr t \<Rightarrow> Some (''\"'' @ t @ ''\"'') | JArr [] \<Rightarrow> Some ''[]'' | _ \<Rightarrow> Some ''null'')"

definition logged_message :: iotmp_message where
  "logged_message = set_field PAYLOAD (JBin [1, 2, 3]) (set_field PARAMETERS (JStr ''on'')
     (set_field RESOURCE (JStr ''led'') (new_stream_message 7 RUN)))"

theorem log_line_bounded_witness:
  "case message_dump plain_dump logged_message True False True of
     None \<Rightarrow> False
   | Some line \<Rightarrow> length line \<le> 448 + 3 \<and> drop 17 line = '' '' @ DOT @ '' sid:    7 '' @ DOT @ '' led '' @ DOT @ '' \"on\" '' @ DOT @
       '' '' @ [CHR 0xE2, CHR 0x9F, CHR 0xA8] @ ''3B'' @ [CHR 0xE2, CHR 0x9F, CHR 0xA9]"
proof -
  have "case message_dump plain_dump logged_message True False True of
     None \<Rightarrow> False | Some line \<Rightarrow> drop 17 line = '' '' @ DOT @ '' sid:    7 '' @ DOT @ '' led '' @ DOT @ '' \"on\" '' @ DOT @
       '' '' @ [CHR 0xE2, CHR 0x9F, CHR 0xA8] @ ''3B'' @ [CHR 0xE2, CHR 0x9F, CHR 0xA9]" by code_simp
  moreover have "logged_resource plain_dump logged_message = ''led''" by code_simp
  ultimately show ?thesis
    using log_line_bounded [of plain_dump logged_message True False True] by (auto split: option.splits)
qed

text \<open>Binary payloads are not shown unless asked for, not even that there is one.\<close>

lemma binary_not_logged:
  "message_dump dump (set_field PAYLOAD (JBin b) msg) False use_colors is_incoming =
   message_dump dump (snd (remove_field PAYLOAD msg)) False use_colors is_incoming"
proof -
  let ?a = "set_field PAYLOAD (JBin b) msg" and ?b = "snd (remove_field PAYLOAD msg)"
  have "field_of f ?a = field_of f ?b" if "f \<noteq> PAYLOAD" for f
    using that by (simp add: field_of_def set_field_def remove_field_def update_conv' map_of_delete)
  then have "field_of STREAM_ID ?a = field_of STREAM_ID ?b" "field_of RESOURCE ?a = field_of RESOURCE ?b"
    "field_of PARAMETERS ?a = field_of PARAMETERS ?b" by (simp_all add: field_defs)
  moreover have "field_of PAYLOAD ?a = Some (JBin b)" "field_of PAYLOAD ?b = None" "msg_type ?a = msg_type ?b"
    by (simp_all add: field_of_def set_field_def remove_field_def update_conv' delete_conv')
  ultimately show ?thesis
    by (simp add: message_dump_def payload_text_def has_field_def get_stream_id_def const_field_def Let_def)
qed

section \<open>Corners\<close>

text \<open>A message with a value that the serializer refuses cannot be logged: with the log enabled the call throws.\<close>

lemma log_throws:
  assumes "dump v = None" and "field_of PARAMETERS msg = Some v"
  shows "log_incoming dump True msg b = None" "log_outgoing dump True msg b = None"
  using assms by (simp_all add: log_incoming_def log_outgoing_def message_dump_def format_json_value_def bind_eq_None_conv)

text \<open>The message that authenticates is logged like any other, the password in it.\<close>

lemma credentials_logged:
  assumes "dump (JArr [JStr (c_username c), JStr (c_device_id c), JStr (c_device_password c)]) = Some text" and "length text \<le> 150"
  shows "\<exists>pre post. log_outgoing dump True (connect_message rnd c) False = Some [pre @ text @ post]"
proof -
  let ?m = "connect_message rnd c"
  have f: "field_of RESOURCE ?m = None" "field_of PARAMETERS ?m = None"
    "field_of PAYLOAD ?m = Some (JArr [JStr (c_username c), JStr (c_device_id c), JStr (c_device_password c)])"
    by (simp_all add: connect_message_def field_of_def set_field_def set_random_stream_id_def new_message_def field_defs)
  have "\<exists>pre. message_dump dump ?m False True False = Some ((pre @ separator True PAYLOAD_COLOR) @ text @ reset True)"
    using assms unfolding message_dump_def f by (simp add: Let_def payload_text_def format_json_value_def)
  then obtain pre where "message_dump dump ?m False True False = Some ((pre @ separator True PAYLOAD_COLOR) @ text @ reset True)"
    ..
  then show ?thesis unfolding log_outgoing_def by (intro exI [of _ "pre @ separator True PAYLOAD_COLOR"] exI [of _ "reset True"]) simp
qed

end
