(* ===== verification/Local_Http.thy ===== *)
theory Local_Http
  imports Resource Path_Match "HOL-Library.Monad_Syntax"
begin

text \<open>
  The local endpoints of \<^verbatim>\<open>core/iotmp_resource.hpp\<close>, compiled in when \<^verbatim>\<open>httplib.h\<close> is installed: a resource
  with a server registers routes for its callbacks. The server matches requests to routes and is not
  part of the repository; a route is the method, the pattern and which handler it runs, and a handler a function of the path
  and the body of a request. The serializer \<open>dump\<close>, \<open>accept\<close> and \<open>parse\<close> of \<open>nlohmann::json\<close> are
  parameters.
\<close>

section \<open>Routes\<close>

datatype http_method = GET | POST

datatype endpoint = Post_Run | Get_Input | Post_Input | Get_Output | Get_Input_Output | Post_Input_Output

type_synonym route = "http_method \<times> string \<times> endpoint"

record 'w local_resource =
  lr_resource :: "'w resource"
  lr_server :: bool
  lr_name :: string

definition new_local_resource :: "'w local_resource" where
  "new_local_resource = \<lparr>lr_resource = new_resource, lr_server = False, lr_name = []\<rparr>"

definition with_server :: "'w local_resource \<Rightarrow> 'w local_resource" where
  "with_server lr = lr\<lparr>lr_server := True\<rparr>"

definition with_name :: "string \<Rightarrow> 'w local_resource \<Rightarrow> 'w local_resource" where
  "with_name name lr = lr\<lparr>lr_name := name\<rparr>"

text \<open>\<open>regex_search\<close> and \<open>regex_replace\<close> with \<^verbatim>\<open>:([^\/]+)\<close>: a colon and what follows up to a slash.\<close>

fun has_key :: "string \<Rightarrow> bool" where
  "has_key [] = False"
| "has_key [c] = False"
| "has_key (c # d # s) = (c = CHR '':'' \<and> d \<noteq> slash \<or> has_key (d # s))"

definition key_pattern :: string where "key_pattern = ''([^'' @ CHR 0x5C # ''/]+)''"

function replace_keys :: "string \<Rightarrow> string" where
  "replace_keys [] = []"
| "replace_keys [c] = [c]"
| "replace_keys (c # d # s) =
     (if c = CHR '':'' \<and> d \<noteq> slash then key_pattern @ replace_keys (dropWhile (\<lambda>e. e \<noteq> slash) s)
      else c # replace_keys (d # s))"
  by pat_completeness auto

termination replace_keys
  by (relation "measure length") (auto simp: less_Suc_eq_le intro: le_SucI length_dropWhile_le)

text \<open>The loop replaces until the search fails.\<close>

partial_function (option) route_pattern_loop :: "string \<Rightarrow> string option" where
  "route_pattern_loop path = (if has_key path then route_pattern_loop (replace_keys path) else Some path)"

definition input_pattern :: "string \<Rightarrow> string option" where
  "input_pattern name = route_pattern_loop (CHR ''/'' # name)"

text \<open>The setters: the callback, and the routes they add.\<close>

definition local_set_function :: "'w run_cb \<Rightarrow> 'w local_resource \<Rightarrow> 'w local_resource \<times> route list" where
  "local_set_function f lr =
     (lr\<lparr>lr_resource := set_function f (lr_resource lr)\<rparr>,
      if lr_server lr then [(POST, CHR ''/'' # lr_name lr, Post_Run)] else [])"

definition local_set_input :: "'w in_cb \<Rightarrow> 'w local_resource \<Rightarrow> ('w local_resource \<times> route list) option" where
  "local_set_input f lr =
     do {
       let lr' = lr\<lparr>lr_resource := set_input f (lr_resource lr)\<rparr>;
       if lr_server lr then do {
         path \<leftarrow> input_pattern (lr_name lr);
         Some (lr', [(GET, path, Get_Input), (POST, path, Post_Input)])
       } else Some (lr', [])
     }"

definition local_set_output :: "'w out_cb \<Rightarrow> 'w local_resource \<Rightarrow> 'w local_resource \<times> route list" where
  "local_set_output f lr =
     (lr\<lparr>lr_resource := set_output f (lr_resource lr)\<rparr>,
      if lr_server lr then [(GET, CHR ''/'' # lr_name lr, Get_Output)] else [])"

definition local_set_input_output :: "'w in_out_cb \<Rightarrow> 'w local_resource \<Rightarrow> 'w local_resource \<times> route list" where
  "local_set_input_output f lr =
     (lr\<lparr>lr_resource := set_input_output f (lr_resource lr)\<rparr>,
      if lr_server lr
      then [(GET, CHR ''/'' # lr_name lr, Get_Input_Output), (POST, CHR ''/'' # lr_name lr, Post_Input_Output)] else [])"

section \<open>Handlers\<close>

record http_request =
  req_path :: string
  req_body :: string

text \<open>\<open>None\<close> is what the server puts there by itself.\<close>

record http_response =
  res_status :: "u32 option"
  res_content :: "string option"

definition new_response :: http_response where
  "new_response = \<lparr>res_status = None, res_content = None\<rparr>"

text \<open>The end of every handler that answers: content unless the value is empty, the return code if one was set.\<close>

definition set_content :: "(json \<Rightarrow> string option) \<Rightarrow> json \<Rightarrow> http_response \<Rightarrow> http_response option" where
  "set_content dump v res =
     (if j_empty v then Some res else map_option (\<lambda>s. res\<lparr>res_content := Some s\<rparr>) (dump v))"

definition set_status :: "u32 \<Rightarrow> http_response \<Rightarrow> http_response" where
  "set_status code res = (if code \<noteq> 0 then res\<lparr>res_status := Some code\<rparr> else res)"

text \<open>The captures of the request in the name; \<open>substr\<close> throws on an empty path.\<close>

definition local_input :: "string \<Rightarrow> http_request \<Rightarrow> json \<Rightarrow> bool \<Rightarrow> input option" where
  "local_input name req data d =
     do {
       path \<leftarrow> (case req_path req of [] \<Rightarrow> None | _ # p \<Rightarrow> Some p);
       (found, captures) \<leftarrow> res_matches name path JNull;
       let i = new_input 0 data d;
       Some (if found then i\<lparr>in_path := Some captures\<rparr> else i)
     }"

definition post_run :: "'w resource \<Rightarrow> 'w \<Rightarrow> http_response option \<times> 'w" where
  "post_run r w = (case call_run r w of (None, w') \<Rightarrow> (None, w') | (Some _, w') \<Rightarrow> (Some new_response, w'))"

definition get_input :: "(json \<Rightarrow> string option) \<Rightarrow> 'w resource \<Rightarrow> string \<Rightarrow> http_request \<Rightarrow> 'w \<Rightarrow> http_response option \<times> 'w" where
  "get_input dump r name req w =
     (case local_input name req JNull True of
        None \<Rightarrow> (None, w)
      | Some i \<Rightarrow>
          (case call_input r i w of
             (None, w') \<Rightarrow> (None, w')
           | (Some i', w') \<Rightarrow> (set_content dump (in_data i') new_response, w')))"

definition post_input :: "(string \<Rightarrow> bool) \<Rightarrow> (string \<Rightarrow> json) \<Rightarrow> 'w resource \<Rightarrow> string \<Rightarrow> http_request \<Rightarrow> 'w
    \<Rightarrow> http_response option \<times> 'w" where
  "post_input accept parse r name req w =
     (case local_input name req JNull False of
        None \<Rightarrow> (None, w)
      | Some i \<Rightarrow>
          if \<not> accept (req_body req) then (Some (new_response\<lparr>res_status := Some 400\<rparr>), w)
          else
            (case call_input r (i\<lparr>in_data := parse (req_body req)\<rparr>) w of
               (None, w') \<Rightarrow> (None, w')
             | (Some _, w') \<Rightarrow> (Some new_response, w')))"

definition get_output :: "(json \<Rightarrow> string option) \<Rightarrow> 'w resource \<Rightarrow> 'w \<Rightarrow> http_response option \<times> 'w" where
  "get_output dump r w =
     (case call_output r (new_output JNull False) w of
        (None, w') \<Rightarrow> (None, w')
      | (Some out, w') \<Rightarrow> (map_option (set_status (out_code out)) (set_content dump (out_data out) new_response), w'))"

definition get_input_output :: "(json \<Rightarrow> string option) \<Rightarrow> 'w resource \<Rightarrow> 'w \<Rightarrow> http_response option \<times> 'w" where
  "get_input_output dump r w =
     (case call_input_output r (new_input 0 JNull True) (new_output JNull True) w of
        (None, w') \<Rightarrow> (None, w')
      | (Some (_, out), w') \<Rightarrow> (set_content dump (out_data out) new_response, w'))"

definition post_input_output :: "(json \<Rightarrow> string option) \<Rightarrow> (string \<Rightarrow> bool) \<Rightarrow> (string \<Rightarrow> json) \<Rightarrow> 'w resource
    \<Rightarrow> http_request \<Rightarrow> 'w \<Rightarrow> http_response option \<times> 'w" where
  "post_input_output dump accept parse r req w =
     (if req_body req \<noteq> [] \<and> \<not> accept (req_body req) then (Some (new_response\<lparr>res_status := Some 400\<rparr>), w)
      else
        (case call_input_output r (new_input 0 (if req_body req = [] then JNull else parse (req_body req)) False)
               (new_output JNull False) w of
           (None, w') \<Rightarrow> (None, w')
         | (Some (_, out), w') \<Rightarrow> (map_option (set_status (out_code out)) (set_content dump (out_data out) new_response), w')))"

definition local_handle :: "(json \<Rightarrow> string option) \<Rightarrow> (string \<Rightarrow> bool) \<Rightarrow> (string \<Rightarrow> json) \<Rightarrow> endpoint \<Rightarrow> 'w local_resource
    \<Rightarrow> http_request \<Rightarrow> 'w \<Rightarrow> http_response option \<times> 'w" where
  "local_handle dump accept parse e lr req w =
     (case e of
        Post_Run \<Rightarrow> post_run (lr_resource lr) w
      | Get_Input \<Rightarrow> get_input dump (lr_resource lr) (lr_name lr) req w
      | Post_Input \<Rightarrow> post_input accept parse (lr_resource lr) (lr_name lr) req w
      | Get_Output \<Rightarrow> get_output dump (lr_resource lr) w
      | Get_Input_Output \<Rightarrow> get_input_output dump (lr_resource lr) w
      | Post_Input_Output \<Rightarrow> post_input_output dump accept parse (lr_resource lr) req w)"

section \<open>Patterns\<close>

lemma has_key_Cons: "has_key (c # s) \<longleftrightarrow> c = CHR '':'' \<and> s \<noteq> [] \<and> hd s \<noteq> slash \<or> has_key s"
  by (cases s) auto

lemma no_key_in_pattern: "has_key (key_pattern @ s) \<longleftrightarrow> has_key s"
  by (simp add: key_pattern_def has_key_Cons)

lemma replace_slash: "replace_keys (slash # s) = slash # replace_keys s"
  by (cases s) simp_all

lemma replaced_has_no_key: "\<not> has_key (replace_keys s)"
proof (induction s rule: replace_keys.induct)
  case (3 c d s)
  show ?case
  proof (cases "c = CHR '':'' \<and> d \<noteq> slash")
    case True
    with 3(1) show ?thesis by (simp add: no_key_in_pattern)
  next
    case False
    then have step: "replace_keys (c # d # s) = c # replace_keys (d # s)" by auto
    have "hd (replace_keys (d # s)) = slash" if "c = CHR '':''" using that False replace_slash [of s] by auto
    with 3(2) [OF False] show ?thesis unfolding step by (auto simp: has_key_Cons)
  qed
qed auto

text \<open>The loop ends after at most one replacement.\<close>

lemma input_pattern_total:
  "input_pattern name = Some (if has_key (CHR ''/'' # name) then replace_keys (CHR ''/'' # name) else CHR ''/'' # name)"
  using replaced_has_no_key [of "CHR ''/'' # name"]
  by (simp add: input_pattern_def route_pattern_loop.simps)

section \<open>Local and remote requests\<close>

text \<open>The answer that says what a response of the protocol says.\<close>

definition response_code :: "iotmp_message \<Rightarrow> u32" where
  "response_code m = (case field_of PARAMETERS m of Some (JInt c) \<Rightarrow> ucast c | _ \<Rightarrow> 0)"

definition as_answer :: "(json \<Rightarrow> string option) \<Rightarrow> 'w run_result \<Rightarrow> http_response option" where
  "as_answer dump res =
     (let code = response_code (rr_response res) in
      map_option (set_status (if code = 0 \<and> \<not> rr_success res then 500 else code))
        (set_content dump (const_field PAYLOAD (rr_response res)) new_response))"

lemma int_round: "(ucast (scast (c :: u32) :: i64) :: u32) = c"
  by (rule bit_word_eqI) (auto simp: bit_simps)

lemma response_code_back [simp]:
  "response_code (output_back out (new_message t)) = out_code out"
  "const_field PAYLOAD (output_back out m) = out_data out"
proof -
  show "response_code (output_back out (new_message t)) = out_code out"
    by (simp add: response_code_def output_back_def Let_def field_of_def set_field_def new_message_def field_defs
        int_round)
qed (auto simp: output_back_def Let_def const_field_def field_of_def set_field_def field_defs update_conv')

text \<open>C34: A local POST to a resource with input and output is a request of the protocol: a body that is no JSON is refused
  with 400 before anything runs; with a value that is not empty the callback sees what it would see in a RUN
  request with this payload, and the answer carries the payload and the code of that response, an error as an error; if
  the callback throws, both throw. That is for callbacks that give their errors a code.\<close>

theorem local_post_like_run:
  assumes "r_io_type (lr_resource lr) = input_output_wrapper" and "body \<noteq> []" and "\<not> j_empty (parse body)"
    and "\<And>res w'. run_resource (lr_resource lr) (set_field PAYLOAD (parse body) (new_message RUN)) (new_message OK) w =
      (Some res, w') \<Longrightarrow> \<not> rr_success res \<Longrightarrow> response_code (rr_response res) \<noteq> 0"
  shows "local_handle dump accept parse Post_Input_Output lr \<lparr>req_path = path, req_body = body\<rparr> w =
    (if accept body then
       (case run_resource (lr_resource lr) (set_field PAYLOAD (parse body) (new_message RUN)) (new_message OK) w of
          (None, w') \<Rightarrow> (None, w')
        | (Some res, w') \<Rightarrow> (as_answer dump res, w'))
     else (Some \<lparr>res_status = Some 400, res_content = None\<rparr>, w))"
proof -
  let ?m = "set_field PAYLOAD (parse body) (new_message RUN)"
  have i: "input_of ?m = new_input 0 (parse body) False"
    by (simp add: input_of_def new_input_def get_stream_id_def const_field_def field_of_def set_field_def new_message_def field_defs)
  have o': "new_output (const_field PAYLOAD (new_message OK)) (j_empty (const_field PAYLOAD ?m)) = new_output JNull False"
    using assms(3) by (simp add: const_field_def field_of_def set_field_def new_message_def)
  have "as_answer dump res = map_option (set_status (response_code (rr_response res)))
      (set_content dump (const_field PAYLOAD (rr_response res)) new_response)"
    if "run_resource (lr_resource lr) ?m (new_message OK) w = (Some res, w')" for res w'
    using assms(4) [OF that] by (auto simp: as_answer_def Let_def)
  then show ?thesis
    using assms(1,2) unfolding local_handle_def post_input_output_def run_resource_def i o'
    by (auto simp: new_response_def split: option.split prod.split)
qed

definition adder :: "nat local_resource" where
  "adder = with_name ''add'' (with_server (fst (local_set_input_output
     (\<lambda>i out w. (Some (i, set_return_code 201 (out\<lparr>out_data := JArr [in_data i]\<rparr>)), w + 1)) new_local_resource)))"

lemma adder_runs: "r_io_type (lr_resource adder) = input_output_wrapper"
  by (simp add: adder_def with_name_def with_server_def local_set_input_output_def set_input_output_def)


definition echo_dump :: "json \<Rightarrow> string option" where
  "echo_dump v = (case v of JArr [JStr s] \<Rightarrow> Some s | _ \<Rightarrow> None)"

theorem local_post_like_run_witness:
  "local_handle echo_dump (\<lambda>s. s \<noteq> ''{'') JStr Post_Input_Output adder \<lparr>req_path = ''/add'', req_body = ''5''\<rparr> 7 =
     (Some \<lparr>res_status = Some 201, res_content = Some ''5''\<rparr>, 8) \<and>
   local_handle echo_dump (\<lambda>s. s \<noteq> ''{'') JStr Post_Input_Output adder \<lparr>req_path = ''/add'', req_body = ''{''\<rparr> 7 =
     (Some \<lparr>res_status = Some 400, res_content = None\<rparr>, 7)"
proof -
  have "(case run_resource (lr_resource adder) (set_field PAYLOAD (JStr ''5'') (new_message RUN)) (new_message OK) 7 of
     (None, w') \<Rightarrow> (None, w')
   | (Some res, w') \<Rightarrow> (as_answer echo_dump res, w')) = (Some \<lparr>res_status = Some 201, res_content = Some ''5''\<rparr>, 8)"
    by code_simp
  moreover have "rr_success res" if "run_resource (lr_resource adder) m response w = (Some res, w')" for m response w res w'
    using that by (auto simp: adder_def with_name_def with_server_def local_set_input_output_def set_input_output_def run_resource_def
        call_input_output_def set_return_code_def new_output_def new_local_resource_def)
  ultimately show ?thesis
    using local_post_like_run [of adder "''5''" JStr 7 echo_dump "\<lambda>s. s \<noteq> ''{''" "''/add''"]
      local_post_like_run [of adder "''{''" JStr 7 echo_dump "\<lambda>s. s \<noteq> ''{''" "''/add''"]
    by (simp add: adder_runs)
qed

section \<open>Corners\<close>

text \<open>An error without a code is answered like a success.\<close>

lemma error_looks_fine:
  assumes "call_input_output (lr_resource lr) (new_input 0 JNull False) (new_output JNull False) w = (Some (i, out), w')"
    and "set_error why (new_output JNull False) = Some out"
  shows "local_handle dump accept parse Post_Input_Output lr \<lparr>req_path = p, req_body = []\<rparr> w =
    (map_option (\<lambda>s. \<lparr>res_status = None, res_content = Some s\<rparr>) (dump (JObj [(''error'', JStr why)])), w')"
  using assms
  by (auto simp: local_handle_def post_input_output_def set_error_def new_output_def set_content_def set_status_def
      new_response_def option.map_comp comp_def)

text \<open>Only the routes of inputs turn \<^verbatim>\<open>:key\<close> into a pattern and hand the captures over.\<close>

lemma keys_for_inputs_only:
  "local_set_input f (with_name ''led/:id'' (with_server lr)) =
     Some (lr\<lparr>lr_server := True, lr_name := ''led/:id'', lr_resource := set_input f (lr_resource lr)\<rparr>,
       [(GET, ''/led/'' @ key_pattern, Get_Input), (POST, ''/led/'' @ key_pattern, Post_Input)])"
  "snd (local_set_input_output g (with_name ''led/:id'' (with_server lr))) =
     [(GET, ''/led/:id'', Get_Input_Output), (POST, ''/led/:id'', Post_Input_Output)]"
  by (simp_all add: local_set_input_def local_set_input_output_def with_name_def with_server_def input_pattern_total)

end
