(* ===== verification/Json_Proxy.thy ===== *)
theory Json_Proxy
  imports Resource "HOL-Library.Monad_Syntax"
begin

text \<open>
  The conversions of \<^verbatim>\<open>core/iotmp_resource.hpp\<close> through which callbacks read and fill in data: \<open>json_proxy\<close>, and the
  operators of \<open>input\<close> and \<open>output\<close>. A proxy is a reference into the data of its wrapper: here the names that lead to
  it. \<open>None\<close> is the exception that indexing a value throws when it is neither an object nor null; the conversion
  of a value to the type asked for is the caller's, which gives the default of the type as \<open>z\<close>.
\<close>

section \<open>References into a value\<close>

text \<open>The value at a place, and a change of it; the members on the way are created.\<close>

fun at_path :: "string list \<Rightarrow> json \<Rightarrow> json" where
  "at_path [] v = v"
| "at_path (k # ks) v = (case j_find k v of None \<Rightarrow> JNull | Some x \<Rightarrow> at_path ks x)"

fun change_path :: "string list \<Rightarrow> (json \<Rightarrow> json) \<Rightarrow> json \<Rightarrow> json option" where
  "change_path [] f v = Some (f v)"
| "change_path (k # ks) f v =
     Option.bind (change_path ks f (case j_find k v of None \<Rightarrow> JNull | Some x \<Rightarrow> x)) (\<lambda>x. j_put k x v)"

record json_proxy =
  px_path :: "string list"
  px_describe :: bool

text \<open>\<open>operator[]\<close> of the wrapper and of a proxy.\<close>

definition input_index :: "string \<Rightarrow> input \<Rightarrow> (json_proxy \<times> input) option" where
  "input_index name i =
     map_option (\<lambda>d. (\<lparr>px_path = [name], px_describe = in_describe i\<rparr>, i\<lparr>in_data := d\<rparr>)) (change_path [name] id (in_data i))"

definition proxy_index :: "string \<Rightarrow> json_proxy \<Rightarrow> input \<Rightarrow> (json_proxy \<times> input) option" where
  "proxy_index name p i =
     map_option (\<lambda>d. (p\<lparr>px_path := px_path p @ [name]\<rparr>, i\<lparr>in_data := d\<rparr>)) (change_path (px_path p @ [name]) id (in_data i))"

text \<open>\<open>operator T\<close>, assignment and \<open>get\<close>.\<close>

definition proxy_as :: "json \<Rightarrow> json_proxy \<Rightarrow> input \<Rightarrow> (json \<times> input) option" where
  "proxy_as z p i =
     map_option (\<lambda>d. (at_path (px_path p) d, i\<lparr>in_data := d\<rparr>))
       (change_path (px_path p) (\<lambda>v. if j_is_null v then z else v) (in_data i))"

definition proxy_assign :: "json \<Rightarrow> json_proxy \<Rightarrow> input \<Rightarrow> input option" where
  "proxy_assign v p i = map_option (\<lambda>d. i\<lparr>in_data := d\<rparr>) (change_path (px_path p) (\<lambda>_. v) (in_data i))"

definition proxy_get :: "json_proxy \<Rightarrow> input \<Rightarrow> json" where
  "proxy_get p i = at_path (px_path p) (in_data i)"

text \<open>Assignment to the wrappers and the members of an output, which are the values themselves.\<close>

definition input_assign :: "json \<Rightarrow> input \<Rightarrow> input" where
  "input_assign v i = i\<lparr>in_data := v\<rparr>"

definition input_payload :: "input \<Rightarrow> json" where
  "input_payload i = in_data i"

definition input_set_path_fields :: "json \<Rightarrow> input \<Rightarrow> input" where
  "input_set_path_fields v i = i\<lparr>in_path := Some v\<rparr>"

definition input_set_params :: "json \<Rightarrow> input \<Rightarrow> input" where
  "input_set_params v i = i\<lparr>in_params := Some v\<rparr>"

definition input_set_describe :: "bool \<Rightarrow> input \<Rightarrow> input" where
  "input_set_describe d i = i\<lparr>in_describe := d\<rparr>"

definition fill_state :: "input \<Rightarrow> bool" where
  "fill_state i = input_is_empty i"

definition output_assign :: "json \<Rightarrow> 'w res_output \<Rightarrow> 'w res_output" where
  "output_assign v out = out\<lparr>out_data := v\<rparr>"

definition output_index :: "string \<Rightarrow> 'w res_output \<Rightarrow> (json \<times> 'w res_output) option" where
  "output_index name out = map_option (\<lambda>(v, d). (v, out\<lparr>out_data := d\<rparr>)) (json_index name (out_data out))"

definition take_after_response :: "'w res_output \<Rightarrow> ('w \<Rightarrow> 'w) option \<times> 'w res_output" where
  "take_after_response out = (out_after out, out\<lparr>out_after := None\<rparr>)"

definition output_set_describe :: "bool \<Rightarrow> 'w res_output \<Rightarrow> 'w res_output" where
  "output_set_describe d out = out\<lparr>out_describe := d\<rparr>"

section \<open>Laws\<close>

text \<open>What was written at a place is what is read there, and places that part from it are as before.\<close>

lemma at_null: "at_path ks JNull = JNull"
  by (cases ks) auto

lemma at_changed: "change_path ks f v = Some v' \<Longrightarrow> at_path ks v' = f (at_path ks v)"
  by (induction ks arbitrary: v v') (auto simp: bind_eq_Some_conv j_find_put at_null split: option.splits)

lemma at_parted:
  "change_path (pre @ k # ks) f v = Some v' \<Longrightarrow> k' \<noteq> k \<Longrightarrow> at_path (pre @ k' # ks') v' = at_path (pre @ k' # ks') v"
proof (induction pre arbitrary: v v')
  case Nil
  then show ?case by (auto simp: bind_eq_Some_conv j_find_put_other)
next
  case (Cons p pre)
  from Cons.prems(1) obtain x where
    x: "change_path (pre @ k # ks) f (case j_find p v of None \<Rightarrow> JNull | Some x \<Rightarrow> x) = Some x" "j_put p x v = Some v'"
    by (auto simp: bind_eq_Some_conv)
  from Cons.IH [OF x(1) Cons.prems(2)] x(2) show ?case
    by (auto simp: j_find_put at_null split: option.splits)
qed

text \<open>A change throws exactly when a value on the way is neither an object nor null.\<close>

fun can_index :: "string list \<Rightarrow> json \<Rightarrow> bool" where
  "can_index [] v = True"
| "can_index (k # ks) v =
     ((j_is_null v \<or> j_is_object v) \<and> (case j_find k v of None \<Rightarrow> True | Some x \<Rightarrow> can_index ks x))"

lemma j_put_defined: "j_put k x v = None \<longleftrightarrow> \<not> (j_is_null v \<or> j_is_object v)"
  by (cases v) auto

lemma can_index_null: "can_index ks JNull"
  by (cases ks) auto

lemma change_defined: "change_path ks f v = None \<longleftrightarrow> \<not> can_index ks v"
  by (induction ks arbitrary: v) (auto simp: bind_eq_None_conv j_put_defined can_index_null split: option.split)

lemma change_compose:
  "change_path ks f v = Some v' \<Longrightarrow> change_path ks g v' = change_path ks (g \<circ> f) v"
proof (induction ks arbitrary: v v')
  case (Cons k ks)
  then obtain x where x: "change_path ks f (case j_find k v of None \<Rightarrow> JNull | Some x \<Rightarrow> x) = Some x" "j_put k x v = Some v'"
    by (auto simp: bind_eq_Some_conv)
  have "j_put k y v' = j_put k y v" for y
    using x(2) by (cases "(k, x, v)" rule: j_put.cases) (auto simp: sm_put_overwrite)
  with x(1) Cons.IH [OF x(1)] j_find_put [OF x(2)] show ?case by simp
qed simp

lemma change_cong: "f (at_path ks v) = g (at_path ks v) \<Longrightarrow> change_path ks f v = change_path ks g v"
proof (induction ks arbitrary: v)
  case (Cons k ks)
  have "f (at_path ks x) = g (at_path ks x)" if "x = (case j_find k v of None \<Rightarrow> JNull | Some x \<Rightarrow> x)" for x
    using Cons.prems that by (auto simp: at_null split: option.splits)
  from Cons.IH [OF this [OF refl]] show ?case by simp
qed simp

text \<open>Reading through a proxy: a missing or null member becomes the default, any other is kept; the place then holds what was
  read, members elsewhere are untouched, and with a default that is not null later readings give the same value.\<close>

lemma proxy_reads:
  assumes "proxy_as z p i = Some (v, i')"
  shows "v = (if proxy_get p i = JNull then z else proxy_get p i)" and "proxy_get p i' = v"
    and "px_path p = pre @ k # ks \<Longrightarrow> k' \<noteq> k \<Longrightarrow>
      proxy_get \<lparr>px_path = pre @ k' # ks', px_describe = d\<rparr> i' = proxy_get \<lparr>px_path = pre @ k' # ks', px_describe = d\<rparr> i"
    and "v \<noteq> JNull \<Longrightarrow> proxy_as z' p i' = Some (v, i')"
proof -
  let ?f = "\<lambda>z v. if j_is_null v then z else v"
  obtain d where d: "change_path (px_path p) (?f z) (in_data i) = Some d" "v = at_path (px_path p) d" "i' = i\<lparr>in_data := d\<rparr>"
    using assms by (auto simp: proxy_as_def)
  have n: "j_is_null x \<longleftrightarrow> x = JNull" for x by (cases x) simp_all
  note at = at_changed [OF d(1)]
  with d n show v: "v = (if proxy_get p i = JNull then z else proxy_get p i)" by (simp add: proxy_get_def)
  from d show "proxy_get p i' = v" by (simp add: proxy_get_def)
  show "proxy_get \<lparr>px_path = pre @ k' # ks', px_describe = b\<rparr> i' = proxy_get \<lparr>px_path = pre @ k' # ks', px_describe = b\<rparr> i"
    if "px_path p = pre @ k # ks" "k' \<noteq> k" for pre k ks k' ks' b
    using at_parted [OF d(1) [unfolded that(1)] that(2)] d(3) by (simp add: proxy_get_def)
  show "proxy_as z' p i' = Some (v, i')" if "v \<noteq> JNull" for z'
  proof -
    have "change_path (px_path p) (?f z') d = change_path (px_path p) (?f z' \<circ> ?f z) (in_data i)" by (rule change_compose [OF d(1)])
    also have "\<dots> = change_path (px_path p) (?f z) (in_data i)"
      using that d(2) at n by (intro change_cong) simp
    finally show ?thesis using d by (simp add: proxy_as_def)
  qed
qed

end
