(* ===== verification/Shell_Env.thy ===== *)
theory Shell_Env
  imports Prelude
begin

text \<open>
  What the extensions share when they start a process: the choice of a shell and \<open>HOME\<close>
  (\<^verbatim>\<open>util/shell.hpp\<close>), and the closing of inherited descriptors in the child
  (\<^verbatim>\<open>util/process_cleanup.hpp\<close>). The file system, the environment and the descriptor table are
  arguments.
\<close>

section \<open>The shell\<close>

definition shell_candidates :: "string list" where
  "shell_candidates = [''zsh'', ''bash'', ''sh'', ''ash'']"

fun first_shell :: "(string \<Rightarrow> bool) \<Rightarrow> string list \<Rightarrow> string" where
  "first_shell exists [] = ''/bin/sh''"
| "first_shell exists (name # names) =
     (let path = ''/bin/'' @ name in if exists path then path else first_shell exists names)"

definition preferred_shell :: "(string \<Rightarrow> bool) \<Rightarrow> string" where
  "preferred_shell exists = first_shell exists shell_candidates"

definition preferred_shell_name :: "(string \<Rightarrow> bool) \<Rightarrow> string" where
  "preferred_shell_name exists =
     (let full = preferred_shell exists in
      if CHR ''/'' \<in> set full then rev (takeWhile (\<lambda>c. c \<noteq> CHR ''/'') (rev full)) else full)"

text \<open>\<open>pw_dir\<close> of the user's entry, if there is one; \<open>setenv\<close> without overwriting.\<close>

definition ensure_home_env :: "string option \<Rightarrow> (string \<rightharpoonup> string) \<Rightarrow> (string \<rightharpoonup> string)" where
  "ensure_home_env pw_dir env =
     (if env ''HOME'' \<noteq> None then env
      else case pw_dir of
        Some dir \<Rightarrow> if dir \<noteq> [] then env(''HOME'' \<mapsto> dir) else env
      | None \<Rightarrow> env)"

lemma shell_cases:
  "preferred_shell exists = ''/bin/zsh'' \<or> preferred_shell exists = ''/bin/bash'' \<or>
   preferred_shell exists = ''/bin/sh'' \<or> preferred_shell exists = ''/bin/ash''"
  by (simp add: preferred_shell_def shell_candidates_def Let_def)

text \<open>The name is what the path needs after \<^verbatim>\<open>/bin/\<close>, as the terminal rebuilds it.\<close>

lemma shell_name_path: "''/bin/'' @ preferred_shell_name exists = preferred_shell exists"
  using shell_cases [of exists] by (auto simp: preferred_shell_name_def Let_def)

lemma shell_name_not_empty: "preferred_shell_name exists \<noteq> []"
  using shell_cases [of exists] by (auto simp: preferred_shell_name_def Let_def)

lemma shell_exists:
  "\<exists>name \<in> set shell_candidates. exists (''/bin/'' @ name) \<Longrightarrow> exists (preferred_shell exists)"
  by (auto simp: preferred_shell_def shell_candidates_def Let_def)

lemma home_idempotent: "ensure_home_env d (ensure_home_env d env) = ensure_home_env d env"
  by (auto simp: ensure_home_env_def split: option.split)

section \<open>Inherited descriptors\<close>

definition is_digit :: "char \<Rightarrow> bool" where
  "is_digit c \<longleftrightarrow> CHR ''0'' \<le> c \<and> c \<le> CHR ''9''"

definition digit_value :: "char \<Rightarrow> nat" where
  "digit_value c = of_char c - of_char CHR ''0''"

text \<open>The name of a directory entry as a descriptor; \<open>None\<close> where the loop goes on to the next entry.\<close>

definition fd_of_name :: "string \<Rightarrow> nat option" where
  "fd_of_name name =
     (if name = [] \<or> \<not> is_digit (hd name) then None
      else if dropWhile is_digit name \<noteq> [] then None
      else Some (fold (\<lambda>c fd. fd * 10 + digit_value c) (takeWhile is_digit name) 0))"

text \<open>
  \<open>cloexec\<close> is what \<open>fcntl(F_GETFD)\<close> answers: \<open>None\<close> for a failure, otherwise whether
  the flag is set. The batches are what the calls of \<open>getdents64\<close> return before the one that ends the loop;
  \<open>dir_fd\<close> is \<open>None\<close> when \<^verbatim>\<open>/proc/self/fd\<close> cannot be opened.
\<close>

definition closes :: "(nat \<Rightarrow> bool option) \<Rightarrow> nat \<Rightarrow> nat \<Rightarrow> string \<Rightarrow> nat list" where
  "closes cloexec min_fd dir_fd name =
     (case fd_of_name name of
        None \<Rightarrow> []
      | Some fd \<Rightarrow>
          if fd < min_fd \<or> fd = dir_fd then []
          else if cloexec fd = Some False then [fd] else [])"

definition close_inherited_fds_from :: "(nat \<Rightarrow> bool option) \<Rightarrow> nat \<Rightarrow> nat option \<Rightarrow> string list list \<Rightarrow> nat list" where
  "close_inherited_fds_from cloexec min_fd dir batches =
     (case dir of
        None \<Rightarrow> []
      | Some dir_fd \<Rightarrow> concat (map (\<lambda>batch. concat (map (closes cloexec min_fd dir_fd) batch)) batches) @ [dir_fd])"

text \<open>The names the kernel gives are decimal numerals.\<close>

lemma digit_of_char_nat: "d < 10 \<Longrightarrow> (of_char (digit_char d) :: nat) = 48 + d"
  by (simp add: digit_char_def)

lemma digit_round [simp]: "d < 10 \<Longrightarrow> digit_value (digit_char d) = d"
  by (simp add: digit_value_def digit_of_char_nat)

lemma digit_is_digit [simp]: "d < 10 \<Longrightarrow> is_digit (digit_char d)"
  by (simp add: is_digit_def less_eq_char_def digit_of_char_nat)

lemma decimal_digits: "list_all is_digit (decimal n) \<and> decimal n \<noteq> []"
  by (induction n rule: decimal.induct) (subst decimal.simps, simp)+

lemma decimal_value: "fold (\<lambda>c fd. fd * 10 + digit_value c) (decimal n) 0 = n"
  by (induction n rule: decimal.induct) (subst decimal.simps, simp)

lemma fd_of_decimal: "fd_of_name (decimal n) = Some n"
proof -
  from decimal_digits [of n] have d: "\<forall>c \<in> set (decimal n). is_digit c" "decimal n \<noteq> []"
    by (auto simp: list_all_iff)
  then have w: "dropWhile is_digit (decimal n) = []" "takeWhile is_digit (decimal n) = decimal n"
    by simp_all
  show ?thesis using d decimal_value [of n] by (simp add: fd_of_name_def w)
qed

text \<open>\<^verbatim>\<open>.\<close> and \<^verbatim>\<open>..\<close> are skipped.\<close>

lemma fd_of_dots: "fd_of_name ''.'' = None" "fd_of_name ''..'' = None"
  by (simp_all add: fd_of_name_def is_digit_def less_eq_char_def)

text \<open>The child closes exactly the open descriptors from the given one on that are not close-on-exec, and the
  one it reads the directory through, whatever batches the entries come in.
\<close>

theorem inherited_closed:
  assumes "concat batches = [''.'', ''..''] @ map decimal fds"
  shows "set (close_inherited_fds_from cloexec min_fd (Some dir_fd) batches) =
    insert dir_fd {fd \<in> set fds. min_fd \<le> fd \<and> cloexec fd = Some False}"
proof -
  have "close_inherited_fds_from cloexec min_fd (Some dir_fd) batches =
      concat (map (closes cloexec min_fd dir_fd) (concat batches)) @ [dir_fd]"
    unfolding close_inherited_fds_from_def by (induction batches) simp_all
  then show ?thesis
    by (auto simp: assms closes_def fd_of_decimal fd_of_dots)
qed

theorem inherited_closed_witness:
  "set (close_inherited_fds_from (\<lambda>fd. if fd = 4 then Some True else Some False) 3 (Some 5)
     [[''.'', ''..'', ''0'', ''1'', ''2''], [''3'', ''4'', ''5'', ''17'']]) = {5, 3, 17}"
proof -
  have d: "decimal 0 = ''0''" "decimal 1 = ''1''" "decimal 2 = ''2''" "decimal 3 = ''3''" "decimal 4 = ''4''"
    "decimal 5 = ''5''" "decimal 17 = ''17''"
    by code_simp+
  show ?thesis
    by (subst inherited_closed [where fds = "[0, 1, 2, 3, 4, 5, 17]"]) (auto simp: d [unfolded One_nat_def])
qed

end
