(* ===== verification/Cmd.thy ===== *)
theory Cmd
  imports Resource Shell_Env
begin

text \<open>
  The resource \<open>cmd\<close> and the execution behind it, \<^verbatim>\<open>extensions/cmd/cmd.cpp\<close>. \<open>exec\<close>
  runs its own event loop until three completions have come in: the ends of the two outputs and of the process. What the
  operating system does is a list of events; exceptions of Boost.Process are values.
\<close>

section \<open>Execution\<close>

record execution =
  x_pout :: "byte list"
  x_perr :: "byte list"
  x_reading_out :: bool
  x_reading_err :: bool
  x_waiting :: bool
  x_pending :: int
  x_timer :: bool
  x_exit_code :: int
  x_timed_out :: bool
  x_kills :: nat

datatype exec_event =
    X_Stdout "byte list"
  | X_Stdout_End
  | X_Stderr "byte list"
  | X_Stderr_End
  | X_Process "int option"
  | X_Timeout

text \<open>The state when \<open>ioc.run()\<close> begins, with both reads, the wait and, if asked for, the timer.\<close>

definition exec_begin :: "int \<Rightarrow> execution" where
  "exec_begin timeout_seconds =
     \<lparr>x_pout = [], x_perr = [], x_reading_out = True, x_reading_err = True, x_waiting = True, x_pending = 3,
      x_timer = (timeout_seconds > 0), x_exit_code = - 1, x_timed_out = False, x_kills = 0\<rparr>"

definition on_pending_done :: "execution \<Rightarrow> execution" where
  "on_pending_done x =
     (let x1 = x\<lparr>x_pending := x_pending x - 1\<rparr> in
      if x_pending x1 = 0 then x1\<lparr>x_timer := False\<rparr> else x1)"

definition exec_step :: "exec_event \<Rightarrow> execution \<Rightarrow> execution" where
  "exec_step e x =
     (case e of
        X_Stdout bytes \<Rightarrow> (if x_reading_out x then x\<lparr>x_pout := x_pout x @ bytes\<rparr> else x)
      | X_Stdout_End \<Rightarrow> (if x_reading_out x then on_pending_done (x\<lparr>x_reading_out := False\<rparr>) else x)
      | X_Stderr bytes \<Rightarrow> (if x_reading_err x then x\<lparr>x_perr := x_perr x @ bytes\<rparr> else x)
      | X_Stderr_End \<Rightarrow> (if x_reading_err x then on_pending_done (x\<lparr>x_reading_err := False\<rparr>) else x)
      | X_Process code \<Rightarrow>
          (if x_waiting x then
             on_pending_done (x\<lparr>x_waiting := False,
               x_exit_code := (case code of None \<Rightarrow> x_exit_code x | Some n \<Rightarrow> n)\<rparr>)
           else x)
      | X_Timeout \<Rightarrow>
          (if x_timer x then x\<lparr>x_timer := False, x_timed_out := True, x_kills := Suc (x_kills x)\<rparr> else x))"

text \<open>\<open>ioc.run()\<close> returns when no operation is left.\<close>

definition exec_idle :: "execution \<Rightarrow> bool" where
  "exec_idle x \<longleftrightarrow> \<not> x_reading_out x \<and> \<not> x_reading_err x \<and> \<not> x_waiting x \<and> \<not> x_timer x"

fun exec_loop :: "exec_event list \<Rightarrow> execution \<Rightarrow> execution option" where
  "exec_loop es x =
     (if exec_idle x then Some x
      else case es of [] \<Rightarrow> None | e # es' \<Rightarrow> exec_loop es' (exec_step e x))"

declare exec_loop.simps [simp del]

text \<open>
  The result of \<open>cmd::exec\<close>: the return code, both outputs and the flag. A launch is refused with the
  text of an error, or goes on with the events that follow; \<open>None\<close> is a loop that is still running.
\<close>

datatype launch = No_Pipes | Not_Created string | Running "exec_event list"

definition EXIT_FAILURE :: int where "EXIT_FAILURE = 1"

definition exec :: "launch \<Rightarrow> int \<Rightarrow> (int \<times> string \<times> string \<times> bool) option" where
  "exec os timeout_seconds =
     (case os of
        No_Pipes \<Rightarrow> Some (EXIT_FAILURE, [], ''failed to create pipes'', False)
      | Not_Created message \<Rightarrow> Some (EXIT_FAILURE, [], message, False)
      | Running es \<Rightarrow>
          map_option (\<lambda>x. (x_exit_code x, map char_from (x_pout x), map char_from (x_perr x), x_timed_out x))
            (exec_loop es (exec_begin timeout_seconds)))"

section \<open>The resource\<close>

text \<open>
  What the handler asks of \<open>exec\<close>: the executable, its arguments, the input and the timeout. The
  answer is its result, or an exception: the text of a \<open>std::exception\<close>, or \<open>None\<close> for any other. The world is the list of temporary files.
\<close>

type_synonym runner = "string \<Rightarrow> string list \<Rightarrow> string \<Rightarrow> 32 word \<Rightarrow> string option + int \<times> string \<times> string \<times> bool"

text \<open>A script that starts with \<^verbatim>\<open>#!\<close> is written to a temporary file and executed; anything else is
  a command of the preferred shell.\<close>

definition run_command :: "(string \<Rightarrow> bool) \<Rightarrow> string \<Rightarrow> runner \<Rightarrow> string \<Rightarrow> string \<Rightarrow> 32 word \<Rightarrow> string list
    \<Rightarrow> (string option + int \<times> string \<times> string \<times> bool) \<times> string list" where
  "run_command exists tmp_path run command stdin_data timeout files =
     (if take 2 command = ''#!'' then
        (case run tmp_path [] stdin_data timeout of
           Inl what \<Rightarrow> (Inl what, tmp_path # files)
         | Inr res \<Rightarrow> (Inr res, removeAll tmp_path (tmp_path # files)))
      else (run (preferred_shell exists) [''-c'', command] stdin_data timeout, files))"

definition cmd_results :: "string \<Rightarrow> int \<times> string \<times> string \<times> bool \<Rightarrow> 'w res_output \<Rightarrow> 'w res_output option" where
  "cmd_results mode res out =
     (case res of (retcode, pout, perr, timeout_flag) \<Rightarrow>
        (let out1 = (if timeout_flag then set_error_code 408 ''command timed out'' out
                     else if retcode \<noteq> 0 then set_error_code 500 ''command failed'' out
                     else Some out)
         in Option.bind out1 (\<lambda>o1.
              if mode = ''api'' \<or> mode = [] then
                put_out [(''retcode'', JInt (word_of_int retcode)), (''stdout'', JStr pout), (''stderr'', JStr perr)] o1
              else if mode = ''text'' then
                Some (o1\<lparr>out_data := JStr (if pout \<noteq> [] then pout else perr)\<rparr>)
              else Some o1)))"

fun exception_texts :: "string option \<Rightarrow> string \<times> string" where
  "exception_texts (Some what) = (what, what)"
| "exception_texts None = (''command execution error: unknown'', ''unknown exception'')"

definition cmd_exception :: "string option \<Rightarrow> 'w res_output \<Rightarrow> 'w res_output option" where
  "cmd_exception e out =
     (case exception_texts e of (message, perr) \<Rightarrow>
        Option.bind (set_error_code 500 message out)
          (put_out [(''retcode'', JInt (- 1)), (''stdout'', JStr []), (''stderr'', JStr perr)]))"

text \<open>
  Storing a result fails only when the value in \<open>out\<close> is neither an object nor null; then storing the
  error of that failure in the catch clause fails as well, whatever its text.
\<close>

lemma results_exception:
  assumes "cmd_results mode res out = None"
  shows "cmd_exception e out = None"
proof -
  have "j_put k v (out_data out) \<noteq> None \<Longrightarrow> cmd_results mode res out \<noteq> None" for k v
    by (cases "out_data out") (auto simp: cmd_results_def set_error_code_def put_out_def output_put_def Let_def
        split: prod.split)
  with assms have "j_put ''error'' (JStr (fst (exception_texts e))) (out_data out) = None" by blast
  then show ?thesis by (cases "exception_texts e") (simp add: cmd_exception_def set_error_code_def)
qed

text \<open>The handler; \<open>None\<close> is an exception that escapes it.\<close>

definition cmd_handler :: "(string \<Rightarrow> bool) \<Rightarrow> string \<Rightarrow> runner \<Rightarrow> input \<Rightarrow> 'v res_output \<Rightarrow> string list
    \<Rightarrow> (input \<times> 'v res_output) option \<times> string list" where
  "cmd_handler exists tmp_path run i out files =
     (if in_describe i then
        (case (put_in [(''cmd'', JStr []), (''mode'', JStr ''api''), (''timeout'', JInt 30), (''stdin'', JStr [])] i,
               put_out [(''retcode'', JInt 0), (''stdout'', JStr []), (''stderr'', JStr [])] out) of
           (Some i', Some out') \<Rightarrow> (Some (i', out'), files)
         | _ \<Rightarrow> (None, files))
      else
        (let body = in_data i;
             (res, files1) = run_command exists tmp_path run (get_string body ''cmd'' [])
               (get_string body ''stdin'' []) (get_num body ''timeout'' 30) files
         in (map_option (Pair i)
               (case res of
                  Inl what \<Rightarrow> cmd_exception what out
                | Inr r \<Rightarrow>
                    (case cmd_results (get_string body ''mode'' []) r out of
                       Some out' \<Rightarrow> Some out'
                     | None \<Rightarrow> None)), files1)))"

section \<open>The event loop\<close>

definition exec_ok_state :: "execution \<Rightarrow> bool" where
  "exec_ok_state x \<longleftrightarrow>
     x_pending x = of_bool (x_reading_out x) + of_bool (x_reading_err x) + of_bool (x_waiting x) \<and>
     (x_timer x \<longrightarrow> x_pending x > 0) \<and> x_timed_out x = (x_kills x > 0)"

lemma exec_ok_begin: "exec_ok_state (exec_begin n)"
  by (simp add: exec_ok_state_def exec_begin_def)

lemma exec_ok_step: "exec_ok_state x \<Longrightarrow> exec_ok_state (exec_step e x)"
  by (cases e) (auto simp: exec_ok_state_def exec_step_def on_pending_done_def Let_def of_bool_def)

lemma exec_idle_pending: "exec_ok_state x \<Longrightarrow> exec_idle x = (x_pending x = 0)"
  by (auto simp: exec_ok_state_def exec_idle_def)

lemma exec_idle_flags:
  "exec_ok_state x \<Longrightarrow> exec_idle x \<Longrightarrow>
     x_pending x = 0 \<and> \<not> x_reading_out x \<and> \<not> x_reading_err x \<and> \<not> x_waiting x"
  by (auto simp: exec_ok_state_def exec_idle_def)

fun stdout_of :: "exec_event list \<Rightarrow> byte list" where
  "stdout_of [] = []"
| "stdout_of (X_Stdout_End # es) = []"
| "stdout_of (X_Stdout bytes # es) = bytes @ stdout_of es"
| "stdout_of (_ # es) = stdout_of es"

fun stderr_of :: "exec_event list \<Rightarrow> byte list" where
  "stderr_of [] = []"
| "stderr_of (X_Stderr_End # es) = []"
| "stderr_of (X_Stderr bytes # es) = bytes @ stderr_of es"
| "stderr_of (_ # es) = stderr_of es"

fun exit_of :: "exec_event list \<Rightarrow> int option" where
  "exit_of [] = None"
| "exit_of (X_Process code # es) = code"
| "exit_of (_ # es) = exit_of es"

lemma step_flags:
  "x_reading_out (exec_step e x) = (x_reading_out x \<and> e \<noteq> X_Stdout_End)"
  "x_reading_err (exec_step e x) = (x_reading_err x \<and> e \<noteq> X_Stderr_End)"
  "x_waiting (exec_step e x) = (x_waiting x \<and> \<not> (\<exists>c. e = X_Process c))"
  by (cases e; auto simp: exec_step_def on_pending_done_def Let_def)+

text \<open>The loop ends once the three completions are among the events, and what it collected.\<close>

lemma exec_loop_result:
  assumes "exec_ok_state x"
    and "x_reading_out x \<longrightarrow> X_Stdout_End \<in> set es" and "x_reading_err x \<longrightarrow> X_Stderr_End \<in> set es"
    and "x_waiting x \<longrightarrow> (\<exists>c. X_Process c \<in> set es)"
  shows "\<exists>y. exec_loop es x = Some y \<and> exec_ok_state y \<and> x_pending y = 0 \<and>
    x_pout y = x_pout x @ (if x_reading_out x then stdout_of es else []) \<and>
    x_perr y = x_perr x @ (if x_reading_err x then stderr_of es else []) \<and>
    x_exit_code y = (if x_waiting x then (case exit_of es of None \<Rightarrow> x_exit_code x | Some n \<Rightarrow> n) else x_exit_code x)"
  using assms
proof (induction es arbitrary: x)
  case Nil
  then have "exec_idle x" by (auto simp: exec_idle_def exec_ok_state_def)
  with Nil.prems(1) show ?case by (auto simp: exec_idle_flags exec_loop.simps)
next
  case (Cons e es)
  show ?case
  proof (cases "exec_idle x")
    case True
    with Cons.prems(1) show ?thesis by (auto simp: exec_idle_flags exec_loop.simps)
  next
    case False
    have "\<exists>y. exec_loop es (exec_step e x) = Some y \<and> exec_ok_state y \<and> x_pending y = 0 \<and>
        x_pout y = x_pout (exec_step e x) @ (if x_reading_out (exec_step e x) then stdout_of es else []) \<and>
        x_perr y = x_perr (exec_step e x) @ (if x_reading_err (exec_step e x) then stderr_of es else []) \<and>
        x_exit_code y = (if x_waiting (exec_step e x) then (case exit_of es of None \<Rightarrow> x_exit_code (exec_step e x)
          | Some n \<Rightarrow> n) else x_exit_code (exec_step e x))"
      using Cons.prems by (intro Cons.IH exec_ok_step) (auto simp: step_flags)
    then obtain y where y: "exec_loop (e # es) x = Some y" "exec_ok_state y" "x_pending y = 0"
      "x_pout y = x_pout (exec_step e x) @ (if x_reading_out (exec_step e x) then stdout_of es else [])"
      "x_perr y = x_perr (exec_step e x) @ (if x_reading_err (exec_step e x) then stderr_of es else [])"
      "x_exit_code y = (if x_waiting (exec_step e x) then (case exit_of es of None \<Rightarrow> x_exit_code (exec_step e x)
          | Some n \<Rightarrow> n) else x_exit_code (exec_step e x))"
      using False by (subst (asm) exec_loop.simps [of es]; auto simp: exec_loop.simps [of "e # es"] exec_loop.simps [of es])
    have "x_pout y = x_pout x @ (if x_reading_out x then stdout_of (e # es) else []) \<and>
        x_perr y = x_perr x @ (if x_reading_err x then stderr_of (e # es) else []) \<and>
        x_exit_code y = (if x_waiting x then (case exit_of (e # es) of None \<Rightarrow> x_exit_code x | Some n \<Rightarrow> n)
          else x_exit_code x)"
      by (cases e) (simp_all add: y(4-6) exec_step_def on_pending_done_def Let_def split: option.split)
    with y(1-3) show ?thesis by blast
  qed
qed

text \<open>Without one of the completions the loop goes on.\<close>

lemma exec_loop_running:
  assumes "x_reading_out x \<and> X_Stdout_End \<notin> set es \<or> x_reading_err x \<and> X_Stderr_End \<notin> set es \<or>
    x_waiting x \<and> (\<forall>c. X_Process c \<notin> set es)"
  shows "exec_loop es x = None"
  using assms
proof (induction es arbitrary: x)
  case Nil
  then show ?case by (auto simp: exec_loop.simps exec_idle_def)
next
  case (Cons e es)
  then have "exec_loop es (exec_step e x) = None" by (intro Cons.IH) (auto simp: step_flags)
  moreover have "\<not> exec_idle x" using Cons.prems by (auto simp: exec_idle_def)
  ultimately show ?case by (simp add: exec_loop.simps [of "e # es"])
qed

text \<open>The completions among some events, and a timer that fires while one is missing.\<close>

definition all_done :: "exec_event list \<Rightarrow> bool" where
  "all_done es \<longleftrightarrow> X_Stdout_End \<in> set es \<and> X_Stderr_End \<in> set es \<and> (\<exists>c. X_Process c \<in> set es)"

definition missing :: "execution \<Rightarrow> exec_event list \<Rightarrow> bool" where
  "missing x es \<longleftrightarrow> x_reading_out x \<and> X_Stdout_End \<notin> set es \<or> x_reading_err x \<and> X_Stderr_End \<notin> set es \<or>
     x_waiting x \<and> (\<forall>c. X_Process c \<notin> set es)"

lemma missing_step: "missing (exec_step e x) es = missing x (e # es)"
  by (auto simp: missing_def step_flags)

lemma timer_step:
  "exec_ok_state x \<Longrightarrow> e \<noteq> X_Timeout \<Longrightarrow> x_timed_out (exec_step e x) = x_timed_out x \<and> x_timer (exec_step e x) = (x_timer x \<and> missing x [e])"
  by (cases e) (auto simp: exec_step_def on_pending_done_def Let_def exec_ok_state_def missing_def of_bool_def split: if_splits)

lemma exec_loop_timed_out:
  "exec_loop es x = Some y \<Longrightarrow> exec_ok_state x \<Longrightarrow>
    x_timed_out y = (x_timed_out x \<or> x_timer x \<and> (\<exists>pre post. es = pre @ X_Timeout # post \<and> missing x pre))"
proof (induction es arbitrary: x)
  case Nil
  then show ?case by (simp add: exec_loop.simps split: if_splits)
next
  case (Cons e es)
  show ?case
  proof (cases "exec_idle x")
    case True
    with Cons.prems(1) show ?thesis by (simp add: exec_loop.simps exec_idle_def)
  next
    case False
    with Cons.prems(1) have loop: "exec_loop es (exec_step e x) = Some y" by (simp add: exec_loop.simps [of "e # es"])
    note IH = Cons.IH [OF loop exec_ok_step [OF Cons.prems(2)]]
    show ?thesis
    proof (cases "e = X_Timeout")
      case True
      show ?thesis
      proof (cases "x_timer x")
        case timer: True
        with Cons.prems(2) have "missing x []" by (auto simp: exec_ok_state_def missing_def)
        with True have "\<exists>pre post. e # es = pre @ X_Timeout # post \<and> missing x pre" by blast
        moreover from timer True have "x_timed_out (exec_step e x)" by (simp add: exec_step_def)
        ultimately show ?thesis using timer by (simp add: IH)
      next
        case no_timer: False
        with True have "exec_step e x = x" by (simp add: exec_step_def)
        with IH no_timer show ?thesis by simp
      qed
    next
      case other: False
      have split: "(\<exists>pre post. e # es = pre @ X_Timeout # post \<and> missing x pre) =
          (\<exists>pre post. es = pre @ X_Timeout # post \<and> missing x (e # pre))"
        using other by (auto simp: Cons_eq_append_conv)
      have "missing x (e # pre) \<Longrightarrow> missing x [e]" for pre by (auto simp: missing_def)
      then show ?thesis
        unfolding IH timer_step [OF Cons.prems(2) other, THEN conjunct1] timer_step [OF Cons.prems(2) other, THEN conjunct2]
          missing_step split by blast
    qed
  qed
qed

lemma exec_returns: "(exec (Running es) timeout \<noteq> None) = all_done es"
proof (cases "all_done es")
  case True
  with exec_loop_result [OF exec_ok_begin [of timeout], of es] show ?thesis by (auto simp: exec_def all_done_def)
next
  case False
  then have "exec_loop es (exec_begin timeout) = None"
    by (intro exec_loop_running) (auto simp: exec_begin_def all_done_def)
  with False show ?thesis by (simp add: exec_def)
qed

section \<open>Properties\<close>

text \<open>C39: The execution of a command that was launched returns exactly when both outputs have ended and the process was waited
  for; one that could not be launched returns at once. The result of a launched command is all that each output
  delivered before its end and the exit code of the process (-1 when the wait failed), and it reports a timeout exactly when one
  was set and fired before the last of the three completions.\<close>

theorem exec_result:
  "(exec os timeout \<noteq> None) = (case os of Running es \<Rightarrow> all_done es | _ \<Rightarrow> True) \<and>
   (\<forall>code pout perr flag. exec (Running es) timeout = Some (code, pout, perr, flag) \<longrightarrow>
     code = (case exit_of es of None \<Rightarrow> - 1 | Some n \<Rightarrow> n) \<and> pout = map char_from (stdout_of es) \<and>
     perr = map char_from (stderr_of es) \<and>
     flag = (timeout > 0 \<and> (\<exists>pre post. es = pre @ X_Timeout # post \<and> \<not> all_done pre)))"
proof (intro conjI)
  show "(exec os timeout \<noteq> None) = (case os of Running es \<Rightarrow> all_done es | _ \<Rightarrow> True)"
    using exec_returns by (cases os) (simp_all add: exec_def)
next
  show "\<forall>code pout perr flag. exec (Running es) timeout = Some (code, pout, perr, flag) \<longrightarrow>
     code = (case exit_of es of None \<Rightarrow> - 1 | Some n \<Rightarrow> n) \<and> pout = map char_from (stdout_of es) \<and>
     perr = map char_from (stderr_of es) \<and>
     flag = (timeout > 0 \<and> (\<exists>pre post. es = pre @ X_Timeout # post \<and> \<not> all_done pre))"
  proof (cases "all_done es")
  case True
    from exec_loop_result [OF exec_ok_begin [of timeout], of es] True obtain y where
      y: "exec_loop es (exec_begin timeout) = Some y" "x_pout y = stdout_of es" "x_perr y = stderr_of es"
        "x_exit_code y = (case exit_of es of None \<Rightarrow> - 1 | Some n \<Rightarrow> n)"
      by (auto simp: all_done_def exec_begin_def cong: option.case_cong)
    have "missing (exec_begin timeout) pre = (\<not> all_done pre)" for pre by (auto simp: missing_def all_done_def exec_begin_def)
    with exec_loop_timed_out [OF y(1) exec_ok_begin]
    have "x_timed_out y = (timeout > 0 \<and> (\<exists>pre post. es = pre @ X_Timeout # post \<and> \<not> all_done pre))"
      by (simp add: exec_begin_def)
    with y show ?thesis by (simp add: exec_def)
  next
    case False
    with exec_returns [of es timeout] show ?thesis by simp
  qed
qed

theorem exec_result_witness:
  "exec (Running [X_Stdout [104], X_Process (Some 0), X_Timeout, X_Stdout [105], X_Stderr_End, X_Stdout_End]) 30 =
     Some (0, ''hi'', [], True)"
proof -
  let ?es = "[X_Stdout [104], X_Process (Some 0), X_Timeout, X_Stdout [105], X_Stderr_End, X_Stdout_End]"
  have "exec (Running ?es) 30 \<noteq> None" using exec_result [of "Running ?es" 30 ?es] by (auto simp: all_done_def)
  then obtain code pout perr flag where r: "exec (Running ?es) 30 = Some (code, pout, perr, flag)" by auto
  have "\<exists>pre post. ?es = pre @ X_Timeout # post \<and> \<not> all_done pre"
    by (rule exI [of _ "[X_Stdout [104], X_Process (Some 0)]"]) (simp add: all_done_def)
  with exec_result [of "Running ?es" 30 ?es] r have "code = 0 \<and> pout = map char_from [104, 105] \<and> perr = [] \<and> flag" by auto
  moreover have "map char_from [104, 105] = ''hi''" by code_simp
  ultimately show ?thesis using r by simp
qed

text \<open>C40: For a request to run a command, with the fresh result the client passes, no exception escapes the handler:
  a timeout is reported as 408, a failed command or an exception as 500, anything else as success, and the modes
  choose what is returned.\<close>

theorem cmd_handler_total:
  assumes "\<not> in_describe i" and "out = new_output JNull False"
    and "run_command exists tmp run (get_string (in_data i) ''cmd'' []) (get_string (in_data i) ''stdin'' [])
      (get_num (in_data i) ''timeout'' 30) files = (res, files1)"
  shows "\<exists>out'. cmd_handler exists tmp run i out files = (Some (i, out'), files1) \<and>
    (case res of
       Inl e \<Rightarrow> \<not> out_success out' \<and> out_code out' = 500 \<and>
         j_find ''error'' (out_data out') = Some (JStr (fst (exception_texts e)))
     | Inr (retcode, pout, perr, flag) \<Rightarrow>
         (flag \<longrightarrow> \<not> out_success out' \<and> out_code out' = 408) \<and>
         (\<not> flag \<and> retcode \<noteq> 0 \<longrightarrow> \<not> out_success out' \<and> out_code out' = 500) \<and>
         (\<not> flag \<and> retcode = 0 \<longrightarrow> out_success out' \<and> out_code out' = 0) \<and>
         (get_string (in_data i) ''mode'' [] \<in> {''api'', []} \<longrightarrow>
            j_find ''retcode'' (out_data out') = Some (JInt (word_of_int retcode)) \<and>
            j_find ''stdout'' (out_data out') = Some (JStr pout) \<and> j_find ''stderr'' (out_data out') = Some (JStr perr)) \<and>
         (get_string (in_data i) ''mode'' [] = ''text'' \<longrightarrow> out_data out' = JStr (if pout \<noteq> [] then pout else perr)))"
  using assms
  by (cases res) (auto simp: cmd_handler_def Let_def cmd_exception_def cmd_results_def set_error_code_def put_out_def
      output_put_def new_output_def split: prod.splits)

theorem cmd_handler_total_witness:
  "\<exists>out'. cmd_handler (\<lambda>_. True) [] (\<lambda>_ _ _ _. Inr (2, ''a'', [], False)) (new_input 0 JNull False)
      (new_output JNull False :: unit res_output) [] = (Some (new_input 0 JNull False, out'), []) \<and> out_code out' = 500"
proof -
  let ?i = "new_input 0 JNull False" and ?run = "\<lambda>_ _ _ _. Inr (2, ''a'', [], False)"
  have d: "in_data ?i = JNull" "get_string JNull ''cmd'' [] = []" "\<not> in_describe ?i" by (simp add: new_input_def, code_simp, code_simp)
  have r: "run_command (\<lambda>_. True) [] ?run (get_string (in_data ?i) ''cmd'' []) (get_string (in_data ?i) ''stdin'' [])
      (get_num (in_data ?i) ''timeout'' 30) [] = (Inr (2, ''a'', [], False), [])"
    unfolding d run_command_def by simp
  from cmd_handler_total [OF d(3) refl r, where ?'a = unit] show ?thesis by auto
qed

text \<open>
  Two corners. An exception while a script runs skips the removal of its temporary file; and a launch that fails
  returns 1, where the header promises -1.
\<close>

theorem script_left_behind:
  "take 2 command = ''#!'' \<Longrightarrow> run tmp [] stdin_data timeout = Inl what \<Longrightarrow>
     snd (run_command exists tmp run command stdin_data timeout files) = tmp # files"
  by (simp add: run_command_def)

theorem failed_launch_code: "exec (Not_Created message) timeout = Some (1, [], message, False)"
  by (simp add: exec_def EXIT_FAILURE_def)

end
