(* ===== verification/Fs_Path.thy ===== *)
theory Fs_Path
  imports Prelude "HOL-Library.Sublist" "HOL-Library.Monad_Syntax"
begin

text \<open>
  Paths of the file extension: the part of \<open>std::filesystem::path\<close> that
  \<^verbatim>\<open>extensions/fs/filesystem.cpp\<close> uses (on POSIX), the resolution of a request's path below the
  base path, and its validation. The questions about the file system, \<open>canonical\<close>,
  \<open>weakly_canonical\<close> and the current directory, are arguments; \<open>None\<close> is an exception.
\<close>

section \<open>Paths as strings\<close>

definition is_slash :: "char \<Rightarrow> bool" where
  "is_slash c \<longleftrightarrow> c = CHR ''/''"

definition is_absolute :: "string \<Rightarrow> bool" where
  "is_absolute p \<longleftrightarrow> p \<noteq> [] \<and> is_slash (hd p)"

text \<open>The elements after the root directory; a path that ends with a slash has a last element that is empty.\<close>

function path_names :: "string \<Rightarrow> string list" where
  "path_names p =
     (let q = dropWhile is_slash p;
          rest = dropWhile (\<lambda>c. \<not> is_slash c) q
      in if q = [] then []
         else takeWhile (\<lambda>c. \<not> is_slash c) q #
           (if rest = [] then [] else if list_all is_slash rest then [[]] else path_names rest))"
  by pat_completeness auto
termination path_names
proof (relation "measure length")
  show "wf (measure length)" by simp
next
  fix p q rest :: string
  assume q: "q = dropWhile is_slash p" and rest: "rest = dropWhile (\<lambda>c. \<not> is_slash c) q" and ne: "q \<noteq> []"
  from ne have "\<not> is_slash (hd q)" unfolding q by (metis hd_dropWhile)
  then have "length rest < length q" unfolding rest
    using ne by (cases q) (auto simp: le_imp_less_Suc length_dropWhile_le)
  also have "\<dots> \<le> length p" unfolding q by (rule length_dropWhile_le)
  finally show "(rest, p) \<in> measure length" by simp
qed

declare path_names.simps [simp del]

definition path_elems :: "string \<Rightarrow> string list" where
  "path_elems p = (if is_absolute p then [''/''] else []) @ path_names p"

text \<open>\<open>operator==\<close> compares the elements.\<close>

definition path_eq :: "string \<Rightarrow> string \<Rightarrow> bool" where
  "path_eq p q \<longleftrightarrow> path_elems p = path_elems q"

fun join_slash :: "string list \<Rightarrow> string" where
  "join_slash [] = []"
| "join_slash [n] = n"
| "join_slash (n # ns) = n @ ''/'' @ join_slash ns"

definition path_string :: "bool \<Rightarrow> string list \<Rightarrow> string" where
  "path_string root ns = (if root then ''/'' else []) @ join_slash ns"

text \<open>\<open>operator/\<close>\<close>

definition path_append :: "string \<Rightarrow> string \<Rightarrow> string" where
  "path_append p q =
     (if is_absolute q then q
      else if p \<noteq> [] \<and> \<not> is_slash (last p) then p @ ''/'' @ q else p @ q)"

definition path_filename :: "string \<Rightarrow> string" where
  "path_filename p = (if path_names p = [] then [] else last (path_names p))"

definition parent_path :: "string \<Rightarrow> string" where
  "parent_path p = (if path_names p = [] then p else path_string (is_absolute p) (butlast (path_names p)))"

text \<open>\<open>lexically_relative("/")\<close> of an absolute path.\<close>

definition relative_to_root :: "string \<Rightarrow> string" where
  "relative_to_root p = (if path_names p = [] then ''.'' else join_slash (path_names p))"

text \<open>
  \<open>lexically_normal\<close>: the names so far, latest first, and whether a separator is left at the end.
\<close>

fun normal_step :: "bool \<Rightarrow> string \<Rightarrow> string list \<times> bool \<Rightarrow> string list \<times> bool" where
  "normal_step root n (st, sep) =
     (if n = [] \<or> n = ''.'' then (st, True)
      else if n = ''..'' then
        (case st of
           [] \<Rightarrow> if root then ([], True) else ([''..''], False)
         | x # st' \<Rightarrow> if x = ''..'' then (''..'' # st, False) else (st', True))
      else (n # st, False))"

definition normal_names :: "bool \<Rightarrow> string list \<Rightarrow> string list" where
  "normal_names root ns =
     (case fold (normal_step root) ns ([], False) of
        (st, sep) \<Rightarrow> rev st @ (if sep \<and> st \<noteq> [] \<and> hd st \<noteq> ''..'' then [[]] else []))"

definition lexically_normal :: "string \<Rightarrow> string" where
  "lexically_normal p =
     (if p = [] then []
      else let ns = normal_names (is_absolute p) (path_names p) in
        if ns = [] \<and> \<not> is_absolute p then ''.'' else path_string (is_absolute p) ns)"

section \<open>Resolution and validation\<close>

definition resolve_path :: "string \<Rightarrow> string \<Rightarrow> string \<Rightarrow> string" where
  "resolve_path base cwd input_path =
     (if input_path = [] then (if base = [] then cwd else base)
      else if base \<noteq> [] then
        (let path = (if is_absolute input_path then relative_to_root input_path else input_path)
         in lexically_normal (path_append base path))
      else if \<not> is_absolute input_path then lexically_normal (path_append ''/'' input_path)
      else lexically_normal input_path)"

fun has_dotdot :: "string \<Rightarrow> bool" where
  "has_dotdot (a # b # s) = (a = CHR ''.'' \<and> b = CHR ''.'' \<or> has_dotdot (b # s))"
| "has_dotdot _ = False"

definition is_within_base_path :: "(string \<Rightarrow> string option) \<Rightarrow> (string \<Rightarrow> string option) \<Rightarrow> string \<Rightarrow> string \<Rightarrow> bool option" where
  "is_within_base_path canonical weakly_canonical base path =
     (if base = [] then Some True
      else do {
        canonical_base \<leftarrow> canonical base;
        canonical_path \<leftarrow> weakly_canonical path;
        Some (prefix (path_elems canonical_base) (path_elems canonical_path))
      })"

definition validate_resolved_path :: "(string \<Rightarrow> string option) \<Rightarrow> (string \<Rightarrow> string option) \<Rightarrow> string \<Rightarrow> string \<Rightarrow> bool option" where
  "validate_resolved_path canonical weakly_canonical base path =
     (if has_dotdot path then Some False
      else if base \<noteq> [] then is_within_base_path canonical weakly_canonical base path
      else Some True)"

section \<open>Names and strings\<close>

text \<open>The names that can stand inside a path, and lists of them with a separator at the end or not.\<close>

definition plain_name :: "string \<Rightarrow> bool" where
  "plain_name n \<longleftrightarrow> n \<noteq> [] \<and> list_all (\<lambda>c. \<not> is_slash c) n"

definition name_list :: "string list \<Rightarrow> bool" where
  "name_list ns \<longleftrightarrow> (ns = [] \<or> (list_all plain_name (butlast ns) \<and> butlast ns \<noteq> [] \<and> last ns = []) \<or> list_all plain_name ns)"

lemma not_slash_dot: "\<not> is_slash CHR ''.''" "is_slash CHR ''/''"
  by (simp_all add: is_slash_def)

lemma names_empty: "list_all is_slash p \<Longrightarrow> path_names p = []"
  by (subst path_names.simps) (simp add: list_all_iff)

lemma drop_plain: "plain_name n \<Longrightarrow> dropWhile is_slash (n @ s) = n @ s"
  by (cases n) (auto simp: plain_name_def)

lemma names_slash: "path_names (CHR ''/'' # p) = path_names p"
  by (subst (1 2) path_names.simps) (simp add: is_slash_def)

lemma span_plain:
  assumes "plain_name n"
  shows "takeWhile (\<lambda>c. \<not> is_slash c) (n @ CHR ''/'' # p) = n"
    and "dropWhile (\<lambda>c. \<not> is_slash c) (n @ CHR ''/'' # p) = CHR ''/'' # p"
    and "takeWhile (\<lambda>c. \<not> is_slash c) n = n" and "dropWhile (\<lambda>c. \<not> is_slash c) n = []"
  using assms by (auto simp: plain_name_def list_all_iff takeWhile_append2 dropWhile_append2 is_slash_def)

lemma names_one: "plain_name n \<Longrightarrow> path_names n = [n]"
  using drop_plain [of n "[]"] span_plain(3,4) [of n] by (subst path_names.simps) (auto simp: plain_name_def)

lemma names_sep: "plain_name n \<Longrightarrow> path_names (n @ ''/'') = [n, []]"
  using drop_plain [of n "''/''"] span_plain(1,2) [of n "[]"]
  by (subst path_names.simps) (auto simp: plain_name_def is_slash_def)

lemma names_cons:
  assumes n: "plain_name n" and p: "\<not> list_all is_slash p"
  shows "path_names (n @ CHR ''/'' # p) = n # path_names p"
proof -
  have "n @ CHR ''/'' # p \<noteq> []" by simp
  moreover have "\<not> list_all is_slash (CHR ''/'' # p)" using p by simp
  ultimately show ?thesis
    using drop_plain [OF n, of "CHR ''/'' # p"] span_plain(1,2) [OF n, of p]
    by (subst path_names.simps) (simp add: names_slash p)
qed

lemma join_not_slashes: "list_all plain_name ns \<Longrightarrow> ns \<noteq> [] \<Longrightarrow> \<not> list_all is_slash (join_slash ns @ s)"
  by (cases ns rule: join_slash.cases) (auto simp: plain_name_def neq_Nil_conv)

text \<open>Printing names and reading them again.\<close>

lemma names_join: "list_all plain_name ns \<Longrightarrow> path_names (join_slash ns) = ns"
proof (induction ns rule: join_slash.induct)
  case (3 n m ns)
  then have "\<not> list_all is_slash (join_slash (m # ns))" using join_not_slashes [of "m # ns" "[]"] by simp
  with 3 names_cons [of n "join_slash (m # ns)"] show ?case by simp
qed (simp_all add: names_empty names_one)

lemma join_sep: "ns \<noteq> [] \<Longrightarrow> join_slash (ns @ [[]]) = join_slash ns @ ''/''"
  by (induction ns rule: join_slash.induct) simp_all

lemma names_join_sep: "list_all plain_name ns \<Longrightarrow> ns \<noteq> [] \<Longrightarrow> path_names (join_slash ns @ ''/'') = ns @ [[]]"
proof (induction ns rule: join_slash.induct)
  case (3 n m ns)
  then have "\<not> list_all is_slash (join_slash (m # ns) @ ''/'')" by (intro join_not_slashes) simp_all
  with 3 names_cons [of n "join_slash (m # ns) @ ''/''"] show ?case by simp
qed (simp_all add: names_sep)

lemma names_join_list: "name_list ns \<Longrightarrow> path_names (join_slash ns) = ns"
  unfolding name_list_def
proof (elim disjE conjE)
  assume "list_all plain_name (butlast ns)" "butlast ns \<noteq> []" "last ns = []"
  moreover from this(2) have "ns = butlast ns @ [last ns]" by (cases ns) auto
  ultimately show ?thesis using names_join_sep [of "butlast ns"] join_sep [of "butlast ns"] by metis
qed (simp_all add: names_empty names_join)

lemma plain_hd: "plain_name n \<Longrightarrow> \<not> is_slash (hd (n @ s))"
  by (cases n) (auto simp: plain_name_def)

lemma join_relative: "name_list ns \<Longrightarrow> \<not> is_absolute (join_slash ns)"
  unfolding name_list_def
  by (cases ns rule: join_slash.cases) (auto simp: is_absolute_def plain_hd, auto simp: plain_name_def neq_Nil_conv)

lemma string_absolute: "is_absolute (path_string True ns)"
  by (simp add: path_string_def is_absolute_def is_slash_def)

lemma names_string: "name_list ns \<Longrightarrow> path_names (path_string root ns) = ns"
  by (auto simp: path_string_def names_slash names_join_list)

lemma takeWhile_plain: "takeWhile (\<lambda>c. \<not> is_slash c) q \<noteq> [] \<Longrightarrow> plain_name (takeWhile (\<lambda>c. \<not> is_slash c) q)"
  by (auto simp: plain_name_def list_all_iff dest: set_takeWhileD)

lemma first_plain:
  assumes "dropWhile is_slash p \<noteq> []"
  shows "plain_name (takeWhile (\<lambda>c. \<not> is_slash c) (dropWhile is_slash p))"
proof -
  from assms have "\<not> is_slash (hd (dropWhile is_slash p))" by (rule hd_dropWhile)
  with assms show ?thesis by (intro takeWhile_plain) (cases "dropWhile is_slash p"; simp)
qed

lemma name_list_cons: "plain_name n \<Longrightarrow> name_list ns \<Longrightarrow> ns \<noteq> [] \<Longrightarrow> name_list (n # ns)"
  by (auto simp: name_list_def)

text \<open>What reading gives always has this form.\<close>

lemma names_list: "name_list (path_names p)"
proof (induction p rule: path_names.induct)
  case (1 p)
  let ?q = "dropWhile is_slash p" and ?r = "dropWhile (\<lambda>c. \<not> is_slash c) (dropWhile is_slash p)"
  show ?case
  proof (cases "?q = []")
    case True
    then show ?thesis by (subst path_names.simps) (simp add: name_list_def)
  next
    case False
    note n = first_plain [OF False]
    consider "?r = []" | "?r \<noteq> []" "list_all is_slash ?r" | "?r \<noteq> []" "\<not> list_all is_slash ?r" by blast
    then show ?thesis
    proof cases
      case 3
      have "path_names p = takeWhile (\<lambda>c. \<not> is_slash c) ?q # path_names ?r"
        using 3 False by (subst path_names.simps) (simp only: Let_def if_False)
      moreover have "path_names ?r \<noteq> []" using 3 by (subst path_names.simps) (auto simp: Let_def list_all_iff)
      moreover have "name_list (path_names ?r)" using 1 [OF refl refl False] 3 by blast
      ultimately show ?thesis using n by (simp add: name_list_cons)
    qed (use False n in \<open>subst path_names.simps, simp add: Let_def name_list_def\<close>)+
  qed
qed

section \<open>Normal form\<close>

text \<open>The names of an absolute path in normal form: no dots, a separator at most at the end.\<close>

definition normal_list :: "string list \<Rightarrow> bool" where
  "normal_list ns \<longleftrightarrow> name_list ns \<and> ''.'' \<notin> set ns \<and> ''..'' \<notin> set ns"

definition stack_ok :: "bool \<Rightarrow> string list \<Rightarrow> bool" where
  "stack_ok root st \<longleftrightarrow> list_all plain_name st \<and> ''.'' \<notin> set st \<and> (root \<longrightarrow> ''..'' \<notin> set st)"

lemma plain_dots: "plain_name ''..''"
  by (simp add: plain_name_def is_slash_def)

lemma step_ok_stack:
  "stack_ok root st \<Longrightarrow> n = [] \<or> plain_name n \<Longrightarrow> stack_ok root (fst (normal_step root n (st, sep)))"
  by (auto simp: stack_ok_def plain_dots split: list.split)

lemma fold_ok_stack:
  "stack_ok root st \<Longrightarrow> list_all (\<lambda>n. n = [] \<or> plain_name n) ns \<Longrightarrow>
     stack_ok root (fst (fold (normal_step root) ns (st, sep)))"
proof (induction ns arbitrary: st sep)
  case (Cons n ns)
  obtain st1 sep1 where s: "normal_step root n (st, sep) = (st1, sep1)" by (rule prod.exhaust)
  with step_ok_stack [of root st n sep] Cons.prems have "stack_ok root st1" by (simp del: normal_step.simps)
  with Cons s show ?case by (simp del: normal_step.simps)
qed simp

lemma names_each: "list_all (\<lambda>n. n = [] \<or> plain_name n) (path_names p)"
  using names_list [of p] unfolding name_list_def list_all_iff
  by (metis append_butlast_last_id butlast.simps(1) in_set_butlast_appendI in_set_conv_decomp_last last_in_set set_ConsD
      Un_iff set_append list.set(1) empty_iff)

lemma normal_names_list: "normal_list (normal_names True (path_names p))"
proof -
  obtain st sep where s: "fold (normal_step True) (path_names p) ([], False) = (st, sep)" by (rule prod.exhaust)
  have "stack_ok True (fst (fold (normal_step True) (path_names p) ([], False)))"
    by (rule fold_ok_stack [OF _ names_each]) (simp add: stack_ok_def)
  then have "stack_ok True st" by (simp add: s)
  then show ?thesis
    by (cases "st = []") (auto simp: normal_names_def s normal_list_def name_list_def stack_ok_def)
qed

lemma normal_absolute:
  assumes "is_absolute p"
  shows "is_absolute (lexically_normal p)" and "path_names (lexically_normal p) = normal_names True (path_names p)"
    and "normal_list (path_names (lexically_normal p))"
proof -
  have n: "name_list (normal_names True (path_names p))" using normal_names_list [of p] by (simp add: normal_list_def)
  have e: "lexically_normal p = path_string True (normal_names True (path_names p))"
    using assms by (auto simp: lexically_normal_def is_absolute_def)
  show "is_absolute (lexically_normal p)" unfolding e by (rule string_absolute)
  show q: "path_names (lexically_normal p) = normal_names True (path_names p)" unfolding e by (rule names_string [OF n])
  show "normal_list (path_names (lexically_normal p))" unfolding q by (rule normal_names_list)
qed

text \<open>Names without dots only pile up.\<close>

lemma fold_plain:
  "list_all plain_name ns \<Longrightarrow> ''.'' \<notin> set ns \<Longrightarrow> ''..'' \<notin> set ns \<Longrightarrow>
     fold (normal_step root) ns (st, sep) = (rev ns @ st, if ns = [] then sep else False)"
  by (induction ns arbitrary: st sep) (auto simp: plain_name_def)

lemma normal_names_plain:
  "list_all plain_name ns \<Longrightarrow> ''.'' \<notin> set ns \<Longrightarrow> ''..'' \<notin> set ns \<Longrightarrow> normal_names root ns = ns"
  using fold_plain [of ns root "[]" False] by (simp add: normal_names_def)

lemma normal_names_sep:
  assumes "list_all plain_name ns" and "ns \<noteq> []" and "''.'' \<notin> set ns" and "''..'' \<notin> set ns"
  shows "normal_names root (ns @ [[]]) = ns @ [[]]"
  using fold_plain [of ns root "[]" False] assms by (simp add: normal_names_def) (metis last_in_set last_rev hd_rev rev_rev_ident)

lemma normal_names_id:
  assumes "normal_list ns"
  shows "normal_names root ns = ns"
proof -
  from assms consider "list_all plain_name ns" | "list_all plain_name (butlast ns)" "butlast ns \<noteq> []" "last ns = []"
    by (auto simp: normal_list_def name_list_def)
  then show ?thesis
  proof cases
    case 1
    with assms show ?thesis by (simp add: normal_list_def normal_names_plain)
  next
    case 2
    then have e: "ns = butlast ns @ [[]]" by (metis append_butlast_last_id butlast.simps(1))
    have "''.'' \<notin> set (butlast ns)" "''..'' \<notin> set (butlast ns)"
      using assms by (auto simp: normal_list_def dest: in_set_butlastD)
    with normal_names_sep [OF 2(1,2)] e show ?thesis by metis
  qed
qed

lemma normal_id: "is_absolute p \<Longrightarrow> normal_list (path_names p) \<Longrightarrow> path_elems (lexically_normal p) = path_elems p"
  using normal_absolute [of p] by (simp add: path_elems_def normal_names_id)

section \<open>Resolution below a base path\<close>

lemma names_sep_all: "plain_name n \<Longrightarrow> list_all is_slash p \<Longrightarrow> path_names (n @ CHR ''/'' # p) = [n, []]"
  using drop_plain [of n "CHR ''/'' # p"] span_plain(1,2) [of n p]
  by (subst path_names.simps) (auto simp: plain_name_def is_slash_def)

lemma names_nil_iff: "(path_names p = []) = list_all is_slash p"
proof
  assume "path_names p = []"
  then have "dropWhile is_slash p = []" by (subst (asm) path_names.simps) (auto simp: Let_def split: if_splits)
  then show "list_all is_slash p" by (simp add: list_all_iff)
qed (rule names_empty)

definition or_sep :: "string list \<Rightarrow> string list" where
  "or_sep ns = (if ns = [] then [[]] else ns)"

text \<open>The names of an appended path.\<close>

lemma names_below:
  "list_all plain_name bs \<Longrightarrow> bs \<noteq> [] \<Longrightarrow> path_names (join_slash bs @ CHR ''/'' # p) = bs @ or_sep (path_names p)"
proof (induction bs rule: join_slash.induct)
  case (2 n)
  then show ?case by (cases "list_all is_slash p") (simp_all add: or_sep_def names_nil_iff names_sep_all names_cons names_empty)
next
  case (3 n m ns)
  then have "\<not> list_all is_slash (join_slash (m # ns) @ CHR ''/'' # p)" by (intro join_not_slashes) simp_all
  with 3 names_cons [of n "join_slash (m # ns) @ CHR ''/'' # p"] show ?case by simp
qed simp

text \<open>A base path in normal form, with no separator at its end.\<close>

definition base_ok :: "string \<Rightarrow> string list \<Rightarrow> bool" where
  "base_ok base bs \<longleftrightarrow> base = path_string True bs \<and> bs \<noteq> [] \<and> list_all plain_name bs \<and> ''.'' \<notin> set bs \<and> ''..'' \<notin> set bs"

lemma join_last:
  "list_all plain_name bs \<Longrightarrow> bs \<noteq> [] \<Longrightarrow> join_slash bs \<noteq> [] \<and> \<not> is_slash (last (join_slash bs))"
proof (induction bs rule: join_slash.induct)
  case (2 n)
  then show ?case by (auto simp: plain_name_def list_all_iff)
next
  case (3 n m ns)
  then have "join_slash (m # ns) \<noteq> []" "\<not> is_slash (last (join_slash (m # ns)))" by simp_all
  then show ?case by simp
qed simp

lemma base_names:
  assumes "base_ok base bs"
  shows "is_absolute base" and "path_names base = bs" and "path_elems base = ''/'' # bs" and "base \<noteq> []"
    and "\<not> is_absolute p \<Longrightarrow> path_append base p = CHR ''/'' # join_slash bs @ CHR ''/'' # p"
proof -
  show a: "is_absolute base" using assms string_absolute by (simp add: base_ok_def)
  show n: "path_names base = bs" using assms by (auto simp: base_ok_def name_list_def intro: names_string)
  show "path_elems base = ''/'' # bs" by (simp add: path_elems_def a n)
  show "base \<noteq> []" using a by (simp add: is_absolute_def)
  show "path_append base p = CHR ''/'' # join_slash bs @ CHR ''/'' # p" if "\<not> is_absolute p"
    using assms join_last [of bs] that by (simp add: base_ok_def path_append_def path_string_def)
qed

lemma relative_names:
  assumes "is_absolute p"
  shows "\<not> is_absolute (relative_to_root p)"
    and "path_names (relative_to_root p) = (if path_names p = [] then [''.''] else path_names p)"
proof -
  have d: "path_names ''.'' = [''.'']" "\<not> is_absolute ''.''"
    by (rule names_one, simp_all add: plain_name_def is_slash_def is_absolute_def)
  show "\<not> is_absolute (relative_to_root p)"
    by (simp add: relative_to_root_def d join_relative [OF names_list])
  show "path_names (relative_to_root p) = (if path_names p = [] then [''.''] else path_names p)"
    by (simp add: relative_to_root_def d names_join_list [OF names_list])
qed

text \<open>The names of a request's path below the base, before normalisation.\<close>

definition request_names :: "string \<Rightarrow> string list" where
  "request_names input_path =
     (if is_absolute input_path \<and> path_names input_path = [] then [''.''] else or_sep (path_names input_path))"

lemma resolved_names:
  assumes base: "base_ok base bs" and "input_path \<noteq> []"
  shows "is_absolute (resolve_path base cwd input_path)"
    and "path_names (resolve_path base cwd input_path) = normal_names True (bs @ request_names input_path)"
    and "normal_list (path_names (resolve_path base cwd input_path))"
proof -
  define rel where "rel = (if is_absolute input_path then relative_to_root input_path else input_path)"
  have rel: "\<not> is_absolute rel" using relative_names by (auto simp: rel_def)
  define full where "full = path_append base rel"
  have full: "full = CHR ''/'' # join_slash bs @ CHR ''/'' # rel"
    unfolding full_def by (rule base_names(5) [OF base rel])
  have a: "is_absolute full" by (simp add: full is_absolute_def is_slash_def)
  have n: "path_names full = bs @ request_names input_path"
    using base relative_names(2) [of input_path]
    by (simp add: full names_slash names_below base_ok_def rel_def request_names_def or_sep_def)
  have r: "resolve_path base cwd input_path = lexically_normal full"
    using base_names(4) [OF base] assms(2) by (simp add: resolve_path_def rel_def full_def Let_def)
  show "is_absolute (resolve_path base cwd input_path)" unfolding r by (rule normal_absolute(1) [OF a])
  show "path_names (resolve_path base cwd input_path) = normal_names True (bs @ request_names input_path)"
    unfolding r normal_absolute(2) [OF a] n ..
  show "normal_list (path_names (resolve_path base cwd input_path))" unfolding r by (rule normal_absolute(3) [OF a])
qed

text \<open>The names of the place a path leads to: a separator at its end says nothing more.\<close>

definition denoted :: "string list \<Rightarrow> string list" where
  "denoted ns = (if ns \<noteq> [] \<and> last ns = [] then butlast ns else ns)"

lemma prefix_denoted: "list_all plain_name bs \<Longrightarrow> prefix bs (denoted ns) = prefix bs ns"
proof (cases "ns \<noteq> [] \<and> last ns = []")
  case True
  assume bs: "list_all plain_name bs"
  from True have ns: "ns = butlast ns @ [[]]" by (metis append_butlast_last_id)
  have "bs \<noteq> butlast ns @ [[]]" using bs by (auto simp: plain_name_def)
  then have "prefix bs (butlast ns @ [[]]) = prefix bs (butlast ns)" by simp
  with True ns show ?thesis by (simp add: denoted_def)
qed (auto simp: denoted_def)

lemma prefix_elems: "is_absolute p \<Longrightarrow> is_absolute q \<Longrightarrow> prefix (path_elems p) (path_elems q) = prefix (path_names p) (path_names q)"
  by (simp add: path_elems_def)

section \<open>Properties\<close>

text \<open>Normalising an absolute path gives an absolute path whose names have no dots, normalising again changes
  nothing, and a path that has no dots keeps its names.\<close>

theorem normal_form:
  assumes "is_absolute p"
  shows "is_absolute (lexically_normal p) \<and>
    ''.'' \<notin> set (path_names (lexically_normal p)) \<and> ''..'' \<notin> set (path_names (lexically_normal p)) \<and>
    path_eq (lexically_normal (lexically_normal p)) (lexically_normal p) \<and>
    (''.'' \<notin> set (path_names p) \<and> ''..'' \<notin> set (path_names p) \<longrightarrow> path_eq (lexically_normal p) p)"
proof -
  note n = normal_absolute [OF assms]
  have "path_eq (lexically_normal (lexically_normal p)) (lexically_normal p)"
    unfolding path_eq_def by (rule normal_id [OF n(1) n(3)])
  moreover have "path_eq (lexically_normal p) p" if "''.'' \<notin> set (path_names p)" "''..'' \<notin> set (path_names p)"
    unfolding path_eq_def using that names_list by (intro normal_id [OF assms]) (simp add: normal_list_def)
  ultimately show ?thesis using n by (simp add: normal_list_def)
qed

lemma demo_names: "path_names ''/a/../b'' = [''a'', ''..'', ''b'']" "is_absolute ''/a/../b''"
  by code_simp+

theorem normal_form_witness: "''..'' \<notin> set (path_names (lexically_normal ''/a/../b''))"
  using normal_form [OF demo_names(2)] by blast

text \<open>A path that passes validation has no two dots in a row, and, with a base path, its canonical form begins
  with the canonical base.\<close>

theorem validated_within:
  assumes "validate_resolved_path canonical weakly_canonical base path = Some True"
  shows "\<not> has_dotdot path \<and>
    (base \<noteq> [] \<longrightarrow> (\<exists>b p. canonical base = Some b \<and> weakly_canonical path = Some p \<and> prefix (path_elems b) (path_elems p)))"
  using assms
  by (auto simp: validate_resolved_path_def is_within_base_path_def Option.bind_eq_Some_conv split: if_splits)

lemma demo_base: "base_ok ''/srv/data'' [''srv'', ''data'']"
  by (simp add: base_ok_def path_string_def plain_name_def is_slash_def)

lemma demo_valid: "validate_resolved_path Some Some ''/srv/data'' ''/srv/data/x'' = Some True"
  by code_simp

theorem validated_within_witness:
  "\<exists>b p. Some ''/srv/data'' = Some b \<and> Some ''/srv/data/x'' = Some p \<and> prefix (path_elems b) (path_elems p)"
  using validated_within [OF demo_valid] by simp



text \<open>
  Corners. The test for two dots is on the text, so that a harmless name is refused; the path of the base
  itself, requested as \<^verbatim>\<open>/\<close>, resolves to the base with a separator at its end, which is not equal to
  the base; and a base path that climbs refuses everything.
\<close>

theorem harmless_dots_refused:
  "validate_resolved_path Some Some ''/srv/data'' (resolve_path ''/srv/data'' [] ''notes..txt'') = Some False"
  by code_simp

theorem root_request_not_base:
  "validate_resolved_path Some Some ''/srv/data'' (resolve_path ''/srv/data'' [] ''/'') = Some True \<and>
   \<not> path_eq (resolve_path ''/srv/data'' [] ''/'') ''/srv/data'' \<and>
   resolve_path ''/srv/data'' [] ''/'' = ''/srv/data/''"
  by code_simp

theorem climbing_base_refuses:
  "validate_resolved_path canonical weakly_canonical ''../data'' (resolve_path ''../data'' [] ''x'') = Some False"
proof -
  have "resolve_path ''../data'' [] ''x'' = ''../data/x''" by code_simp
  then show ?thesis by (simp add: validate_resolved_path_def)
qed

end
