(* ===== verification/Filesystem.thy ===== *)
theory Filesystem
  imports Fs_Path Resource Shell_Env
begin

text \<open>
  The handlers of the file extension, \<^verbatim>\<open>extensions/fs/filesystem.cpp\<close> and
  \<^verbatim>\<open>filesystem.hpp\<close>. The file system is a state of its own type with the operations that the code calls;
  what an operation answers is a value, with the text of an error where the code passes an
  \<open>error_code\<close>, and \<open>None\<close> for an exception where it does not.
\<close>

section \<open>The file system and other services\<close>

datatype file_type =
    regular_file | directory_file | symlink_file | block_file | character_file | fifo_file | socket_file | other_file

text \<open>Opening a file for reading: the error number, or the content and whether the stream went bad.\<close>

datatype open_result = Not_Opened int | Opened "byte list" bool

datatype write_result = Not_Created | Write_Failed | Written_All

datatype digest_result = No_Context | Init_Failed | Update_Failed | Final_Failed | Digest "byte list"

record 'f fs_ops =
  f_exists :: "'f \<Rightarrow> string \<Rightarrow> bool option"
  f_status :: "'f \<Rightarrow> string \<Rightarrow> string + file_type \<times> u32"
  f_size :: "'f \<Rightarrow> string \<Rightarrow> string + u64"
  f_mtime :: "'f \<Rightarrow> string \<Rightarrow> string + i64"
  f_entries :: "'f \<Rightarrow> string \<Rightarrow> string + string list"
  f_open :: "'f \<Rightarrow> string \<Rightarrow> open_result"
  f_create_directories :: "string \<Rightarrow> 'f \<Rightarrow> string option \<times> 'f"
  f_write :: "string \<Rightarrow> byte list \<Rightarrow> 'f \<Rightarrow> write_result \<times> 'f"
  f_remove :: "string \<Rightarrow> 'f \<Rightarrow> string option \<times> 'f"
  f_remove_all :: "string \<Rightarrow> 'f \<Rightarrow> string option \<times> 'f"
  f_rename :: "string \<Rightarrow> string \<Rightarrow> 'f \<Rightarrow> string option \<times> 'f"
  f_canonical :: "'f \<Rightarrow> string \<Rightarrow> string option"
  f_weakly_canonical :: "'f \<Rightarrow> string \<Rightarrow> string option"
  f_current_path :: "'f \<Rightarrow> string"
  f_space :: "'f \<Rightarrow> string \<Rightarrow> string + u64"
  f_strerror :: "int \<Rightarrow> string"
  f_digest :: "string \<Rightarrow> byte list \<Rightarrow> digest_result"

definition is_type :: "file_type \<Rightarrow> 'f fs_ops \<Rightarrow> 'f \<Rightarrow> string \<Rightarrow> bool" where
  "is_type t ops f p = (case f_status ops f p of Inl _ \<Rightarrow> False | Inr (t', _) \<Rightarrow> t' = t)"

section \<open>Constants and small functions\<close>

definition DEFAULT_CHUNK_SIZE :: u64 where "DEFAULT_CHUNK_SIZE = 64 * 1024"
definition MAX_INLINE_FILE_SIZE :: u64 where "MAX_INLINE_FILE_SIZE = 64 * 1024"
definition DEFAULT_WINDOW_SIZE :: u64 where "DEFAULT_WINDOW_SIZE = 2 * 1024 * 1024"
definition DEFAULT_MAX_BANDWIDTH_MBPS :: u64 where "DEFAULT_MAX_BANDWIDTH_MBPS = 0"
definition MAX_ACK_THRESHOLD :: u64 where "MAX_ACK_THRESHOLD = 1 * 1024 * 1024"

definition calculate_ack_threshold :: "u64 \<Rightarrow> u64 \<Rightarrow> u64" where
  "calculate_ack_threshold file_size chunk_size =
     (if file_size = 0 then chunk_size * 4
      else
        let t0 = file_size div 100;
            t1 = (if t0 < chunk_size then chunk_size else t0)
        in if t1 > MAX_ACK_THRESHOLD then MAX_ACK_THRESHOLD else t1)"

fun get_file_type :: "file_type \<Rightarrow> string" where
  "get_file_type regular_file = ''file''"
| "get_file_type directory_file = ''directory''"
| "get_file_type symlink_file = ''symlink''"
| "get_file_type block_file = ''block''"
| "get_file_type character_file = ''character''"
| "get_file_type fifo_file = ''fifo''"
| "get_file_type socket_file = ''socket''"
| "get_file_type other_file = ''unknown''"

text \<open>\<open>perms\<close> are the bits of a mode.\<close>

definition permission_chars :: "(u32 \<times> char) list" where
  "permission_chars =
     [(0x100, CHR ''r''), (0x80, CHR ''w''), (0x40, CHR ''x''), (0x20, CHR ''r''), (0x10, CHR ''w''), (0x8, CHR ''x''),
      (0x4, CHR ''r''), (0x2, CHR ''w''), (0x1, CHR ''x'')]"

definition format_permissions :: "u32 \<Rightarrow> string" where
  "format_permissions p = map (\<lambda>(perm, c). if p AND perm \<noteq> 0 then c else CHR ''-'') permission_chars"

definition hex_chars :: string where "hex_chars = ''0123456789abcdef''"

definition to_hex :: "byte list \<Rightarrow> string" where
  "to_hex digest =
     concat (map (\<lambda>b. [hex_chars ! unat (drop_bit 4 b AND 0xf), hex_chars ! unat (b AND 0xf)]) digest)"

section \<open>Path of a request\<close>

text \<open>
  \<open>Inl\<close> is the return value false with the error in the result, \<open>Inr\<close> the path; \<open>None\<close> an exception.
\<close>

definition resolve_and_validate_path :: "'f fs_ops \<Rightarrow> string \<Rightarrow> 'f \<Rightarrow> string \<Rightarrow> bool \<Rightarrow> input \<Rightarrow> 'v res_output
    \<Rightarrow> (input \<times> ('v res_output + string)) option" where
  "resolve_and_validate_path ops base f name check_exists i out = do {
     let path0 = input_path i name [];
     (i1, path_str) \<leftarrow>
       (if path0 = [] then do {
          (v, d) \<leftarrow> json_index name (in_data i);
          Some (i\<lparr>in_data := d\<rparr>, case v of JStr s \<Rightarrow> s | _ \<Rightarrow> [])
        } else Some (i, path0));
     let path = resolve_path base (f_current_path ops f) path_str;
     valid \<leftarrow> validate_resolved_path (f_canonical ops f) (f_weakly_canonical ops f) base path;
     if \<not> valid then do {
       out1 \<leftarrow> set_error_code 403 ''Access denied: path outside allowed directory'' out;
       Some (i1, Inl out1)
     } else if check_exists then do {
       found \<leftarrow> f_exists ops f path;
       if found then Some (i1, Inr path)
       else do {
         out1 \<leftarrow> set_error_code 404 ''Path does not exist'' out;
         Some (i1, Inl out1)
       }
     } else Some (i1, Inr path)
   }"

type_synonym ('v, 'f) handled = "(input \<times> 'v res_output) option \<times> 'f"

text \<open>A handler that ends with a result, or goes on with the path of the request.\<close>

definition finish :: "input \<Rightarrow> 'v res_output option \<Rightarrow> 'f \<Rightarrow> ('v, 'f) handled" where
  "finish i out f = (map_option (Pair i) out, f)"

definition with_path :: "'f fs_ops \<Rightarrow> string \<Rightarrow> string \<Rightarrow> bool \<Rightarrow> input \<Rightarrow> 'v res_output \<Rightarrow> 'f
    \<Rightarrow> (input \<Rightarrow> string \<Rightarrow> ('v, 'f) handled) \<Rightarrow> ('v, 'f) handled" where
  "with_path ops base name check_exists i out f k =
     (case resolve_and_validate_path ops base f name check_exists i out of
        None \<Rightarrow> (None, f)
      | Some (i1, Inl out1) \<Rightarrow> finish i1 (Some out1) f
      | Some (i1, Inr path) \<Rightarrow> k i1 path)"

definition describe_with :: "(string \<times> json) list \<Rightarrow> (string \<times> json) list \<Rightarrow> input \<Rightarrow> 'v res_output \<Rightarrow> 'f \<Rightarrow> ('v, 'f) handled" where
  "describe_with ins outs i out f =
     (case put_in ins i of None \<Rightarrow> (None, f) | Some i1 \<Rightarrow> finish i1 (put_out outs out) f)"

section \<open>Reading\<close>

definition list_entry :: "'f fs_ops \<Rightarrow> 'f \<Rightarrow> bool \<Rightarrow> string \<Rightarrow> string \<Rightarrow> json list" where
  "list_entry ops f include_hidden path filename =
     (if \<not> include_hidden \<and> filename \<noteq> [] \<and> hd filename = CHR ''.'' then []
      else
        let entry = path_append path filename in
        case f_status ops f entry of
          Inl _ \<Rightarrow> []
        | Inr (t, perms) \<Rightarrow>
            (case f_mtime ops f entry of
               Inl _ \<Rightarrow> []
             | Inr mtime \<Rightarrow>
                 (let file_size = (if t = regular_file then (case f_size ops f entry of Inl _ \<Rightarrow> 0 | Inr n \<Rightarrow> n) else 0) in
                  [j_obj [(''name'', JStr filename), (''type'', JStr (get_file_type t)), (''size'', JUInt file_size),
                    (''mode'', JStr (format_permissions perms)), (''modified'', JInt mtime)]])))"

text \<open>The error of the iterator comes after the result has become an array, where \<open>set_error\<close> throws.\<close>

definition handle_list :: "'f fs_ops \<Rightarrow> string \<Rightarrow> input \<Rightarrow> 'v res_output \<Rightarrow> 'f \<Rightarrow> ('v, 'f) handled" where
  "handle_list ops base i out f =
     (let include_hidden = get_bool (input_get_params i) ''include_hidden'' False in
      with_path ops base ''path'' True i out f (\<lambda>i path.
        if \<not> is_type directory_file ops f path then finish i (set_error_code 400 ''Path is not a directory'' out) f
        else case f_entries ops f path of
          Inl message \<Rightarrow> finish i (set_error message (out\<lparr>out_data := JArr []\<rparr>)) f
        | Inr names \<Rightarrow>
            finish i (Some (out\<lparr>out_data := JArr (concat (map (list_entry ops f include_hidden path) names))\<rparr>)) f))"

definition handle_download :: "'f fs_ops \<Rightarrow> string \<Rightarrow> input \<Rightarrow> 'v res_output \<Rightarrow> 'f \<Rightarrow> ('v, 'f) handled" where
  "handle_download ops base i out f =
     with_path ops base ''path'' True i out f (\<lambda>i path.
       if \<not> is_type regular_file ops f path then finish i (set_error_code 400 ''Not a regular file'' out) f
       else case f_size ops f path of
         Inl message \<Rightarrow> finish i (set_error message out) f
       | Inr file_size \<Rightarrow>
           if file_size > MAX_INLINE_FILE_SIZE then
             finish i (Option.bind (set_error_code 413 ''File too large for inline transfer'' out)
               (put_out [(''size'', JUInt file_size), (''max_size'', JUInt MAX_INLINE_FILE_SIZE)])) f
           else case f_open ops f path of
             Not_Opened _ \<Rightarrow> finish i (set_error ''Failed to open file'' out) f
           | Opened content bad \<Rightarrow>
               if bad \<or> length content < unat file_size then finish i (set_error ''Failed to read file'' out) f
               else finish i (Some (out\<lparr>out_data := JBin (take (unat file_size) content)\<rparr>)) f)"

definition handle_get :: "'f fs_ops \<Rightarrow> string \<Rightarrow> input \<Rightarrow> 'v res_output \<Rightarrow> 'f \<Rightarrow> ('v, 'f) handled" where
  "handle_get ops base i out f =
     (if in_describe i then
        (case put_in [(''path'', JStr [])] i of
           None \<Rightarrow> (None, f)
         | Some i1 \<Rightarrow> finish i1 (Some (out\<lparr>out_data := JArr []\<rparr>)) f)
      else with_path ops base ''path'' True i out f (\<lambda>i path.
        case f_status ops f path of
          Inl message \<Rightarrow> finish i (set_error message out) f
        | Inr (t, _) \<Rightarrow>
            if t = directory_file then handle_list ops base i out f
            else if t = regular_file then handle_download ops base i out f
            else finish i (set_error_code 400 ''Path is neither a regular file nor a directory'' out) f))"

definition handle_info :: "'f fs_ops \<Rightarrow> string \<Rightarrow> input \<Rightarrow> 'v res_output \<Rightarrow> 'f \<Rightarrow> ('v, 'f) handled" where
  "handle_info ops base i out f =
     (if in_describe i then
        describe_with [(''path'', JStr [])]
          [(''name'', JStr []), (''path'', JStr []), (''type'', JStr []), (''size'', JInt 0), (''mode'', JStr []),
           (''modified'', JInt 0)] i out f
      else with_path ops base ''path'' True i out f (\<lambda>i path.
        case f_status ops f path of
          Inl message \<Rightarrow> finish i (set_error message out) f
        | Inr (t, perms) \<Rightarrow>
            finish i (put_out
              ([(''name'', JStr (c_str (path_filename path))), (''path'', JStr (c_str path)), (''type'', JStr (get_file_type t))]
               @ (if t = regular_file then
                    [(''size'', JUInt (case f_size ops f path of Inl _ \<Rightarrow> 0 | Inr n \<Rightarrow> n))] else [])
               @ [(''mode'', JStr (format_permissions perms))]
               @ (case f_mtime ops f path of Inl _ \<Rightarrow> [] | Inr mtime \<Rightarrow> [(''modified'', JUInt mtime)])) out) f))"

definition handle_hash :: "'f fs_ops \<Rightarrow> string \<Rightarrow> input \<Rightarrow> 'v res_output \<Rightarrow> 'f \<Rightarrow> ('v, 'f) handled" where
  "handle_hash ops base i out f =
     (if in_describe i then
        describe_with [(''path'', JStr []), (''algorithm'', JStr ''sha256'')]
          [(''path'', JStr []), (''algorithm'', JStr ''sha256''), (''hash'', JStr []), (''size'', JInt 0), (''mtime'', JInt 0)]
          i out f
      else with_path ops base ''path'' True i out f (\<lambda>i path.
        case f_status ops f path of
          Inl message \<Rightarrow> finish i (set_error_code 500 message out) f
        | Inr (t, _) \<Rightarrow>
            if t \<noteq> regular_file then finish i (set_error_code 400 ''path is not a regular file'' out) f
            else
              let given = get_string (input_get_params i) ''algorithm'' [];
                  algorithm = map to_lower (if given = [] then ''sha256'' else given)
              in if algorithm \<notin> {''sha256'', ''sha1'', ''md5''} then
                   finish i (set_error_code 400 ''unsupported hash algorithm'' out) f
                 else case f_open ops f path of
                   Not_Opened errno \<Rightarrow>
                     (if errno = 13 \<or> errno = 1 then finish i (set_error_code 403 ''permission denied'' out) f
                      else finish i (set_error_code 500
                        (''failed to open file'' @ (if errno \<noteq> 0 then '': '' @ f_strerror ops errno else [])) out) f)
                 | Opened content bad \<Rightarrow>
                     (case f_digest ops algorithm content of
                        No_Context \<Rightarrow> finish i (set_error_code 500 ''failed to allocate digest context'' out) f
                      | Init_Failed \<Rightarrow> finish i (set_error_code 500 ''failed to initialize digest'' out) f
                      | Update_Failed \<Rightarrow> finish i (set_error_code 500 ''failed to update digest'' out) f
                      | Final_Failed \<Rightarrow>
                          finish i (set_error_code 500
                            (if bad then ''I/O error while reading file'' else ''failed to finalize digest'') out) f
                      | Digest digest \<Rightarrow>
                          if bad then finish i (set_error_code 500 ''I/O error while reading file'' out) f
                          else finish i (put_out
                            [(''path'', JStr (c_str path)), (''algorithm'', JStr (c_str algorithm)),
                             (''hash'', JStr (to_hex digest)),
                             (''size'', JUInt (case f_size ops f path of Inl _ \<Rightarrow> 0 | Inr n \<Rightarrow> n)),
                             (''mtime'', JUInt (case f_mtime ops f path of Inl _ \<Rightarrow> 0 | Inr m \<Rightarrow> m))] out) f)))"

section \<open>Changing\<close>

text \<open>A file or directory that was made or replaced.\<close>

definition put_file :: "'f fs_ops \<Rightarrow> string \<Rightarrow> byte list \<Rightarrow> input \<Rightarrow> 'v res_output \<Rightarrow> 'f \<Rightarrow> ('v, 'f) handled" where
  "put_file ops path data i out f =
     (case f_create_directories ops (parent_path path) f of
        (Some message, f1) \<Rightarrow> finish i (set_error message out) f1
      | (None, f1) \<Rightarrow>
          (case f_write ops path data f1 of
             (Not_Created, f2) \<Rightarrow> finish i (set_error ''Failed to create file'' out) f2
           | (Write_Failed, f2) \<Rightarrow> finish i (set_error ''Failed to write file'' out) (snd (f_remove ops path f2))
           | (Written_All, f2) \<Rightarrow>
               finish i (put_out [(''success'', JBool True), (''path'', JStr (c_str path)), (''type'', JStr ''file''),
                 (''size'', JUInt (of_nat (length data)))] out) f2))"

definition put_directory :: "'f fs_ops \<Rightarrow> string \<Rightarrow> input \<Rightarrow> 'v res_output \<Rightarrow> 'f \<Rightarrow> ('v, 'f) handled" where
  "put_directory ops path i out f =
     (case f_create_directories ops path f of
        (Some message, f1) \<Rightarrow> finish i (set_error message out) f1
      | (None, f1) \<Rightarrow>
          finish i (put_out [(''success'', JBool True), (''path'', JStr (c_str path)), (''type'', JStr ''directory'')] out) f1)"

text \<open>The parameter \<open>overwrite\<close>: absent or null is true; a value that is not boolean throws.\<close>

definition overwrite_param :: "json \<Rightarrow> bool option" where
  "overwrite_param prms =
     (case json_index ''overwrite'' prms of
        None \<Rightarrow> None
      | Some (v, _) \<Rightarrow> (case v of JNull \<Rightarrow> Some True | JBool b \<Rightarrow> Some b | _ \<Rightarrow> None))"

definition handle_put :: "'f fs_ops \<Rightarrow> string \<Rightarrow> input \<Rightarrow> 'v res_output \<Rightarrow> 'f \<Rightarrow> ('v, 'f) handled" where
  "handle_put ops base i out f =
     (if in_describe i then
        describe_with [(''path'', JStr [])] [(''success'', JBool True), (''path'', JStr []), (''type'', JStr [])] i out f
      else
        let path_str = input_path i ''path'' [];
            as_directory = (path_str \<noteq> [] \<and> last path_str = CHR ''/'')
        in with_path ops base ''path'' False i out f (\<lambda>i path.
          let data = (case in_data i of JBin bytes \<Rightarrow> bytes | _ \<Rightarrow> []) in
          if of_nat (length data) > MAX_INLINE_FILE_SIZE then
            finish i (Option.bind (set_error_code 413 ''File too large for inline transfer'' out)
              (put_out [(''size'', JUInt (of_nat (length data))), (''max_size'', JUInt MAX_INLINE_FILE_SIZE)])) f
          else case overwrite_param (input_get_params i) of
            None \<Rightarrow> (None, f)
          | Some overwrite \<Rightarrow>
              (let file_exists = (f_exists ops f path = Some True) in
               if file_exists \<and> as_directory then
                 (if is_type directory_file ops f path then
                    finish i (put_out [(''success'', JBool True), (''path'', JStr (c_str path)), (''type'', JStr ''directory''),
                      (''message'', JStr ''Directory already exists'')] out) f
                  else finish i (set_error_code 409 ''A file exists at this path'' out) f)
               else if file_exists \<and> \<not> overwrite then
                 finish i (set_error_code 409 ''File already exists (overwrite=false)'' out) f
               else if as_directory then put_directory ops path i out f
               else put_file ops path data i out f)))"

definition handle_delete :: "'f fs_ops \<Rightarrow> string \<Rightarrow> input \<Rightarrow> 'v res_output \<Rightarrow> 'f \<Rightarrow> ('v, 'f) handled" where
  "handle_delete ops base i out f =
     (if in_describe i then
        describe_with [(''path'', JStr [])] [(''success'', JBool True), (''deleted'', JStr [])] i out f
      else with_path ops base ''path'' True i out f (\<lambda>i path.
        if path_eq path base \<or> path_eq path (parent_path base) then
          finish i (set_error_code 403 ''Cannot delete base or parent directory'' out) f
        else
          let recursive = get_bool (input_get_params i) ''recursive'' False in
          case (if is_type directory_file ops f path \<and> recursive then f_remove_all ops path f else f_remove ops path f) of
            (Some message, f1) \<Rightarrow> finish i (set_error message out) f1
          | (None, f1) \<Rightarrow> finish i (put_out [(''success'', JBool True), (''deleted'', JStr (c_str path))] out) f1))"

definition handle_move :: "'f fs_ops \<Rightarrow> string \<Rightarrow> input \<Rightarrow> 'v res_output \<Rightarrow> 'f \<Rightarrow> ('v, 'f) handled" where
  "handle_move ops base i out f =
     (if in_describe i then
        describe_with [(''source'', JStr []), (''destination'', JStr [])]
          [(''success'', JBool True), (''source'', JStr []), (''destination'', JStr [])] i out f
      else with_path ops base ''source'' True i out f (\<lambda>i source_path.
        let destination = get_string (in_data i) ''path'' [] in
        if destination = [] then finish i (set_error_code 400 ''Destination path is required'' out) f
        else
          let dest_path = resolve_path base (f_current_path ops f) destination in
          case validate_resolved_path (f_canonical ops f) (f_weakly_canonical ops f) base dest_path of
            None \<Rightarrow> (None, f)
          | Some False \<Rightarrow>
              finish i (set_error_code 403 ''Access denied: destination path outside allowed directory'' out) f
          | Some True \<Rightarrow>
              if f_exists ops f dest_path = Some True \<and> \<not> get_bool (input_get_params i) ''overwrite'' False then
                finish i (set_error_code 409 ''Destination already exists'' out) f
              else case f_rename ops source_path dest_path f of
                (Some message, f1) \<Rightarrow> finish i (set_error message out) f1
              | (None, f1) \<Rightarrow>
                  finish i (put_out [(''success'', JBool True), (''source'', JStr (c_str source_path)),
                    (''destination'', JStr (c_str dest_path))] out) f1))"

section \<open>Configuration of the streamed transfers\<close>

record transfer_config =
  cf_stream_id :: stream_id
  cf_session_name :: string
  cf_file_path :: string
  cf_expected_size :: u64
  cf_chunk_size :: u64
  cf_window_size :: u64
  cf_max_bandwidth_mbps :: u64

definition new_transfer_config :: transfer_config where
  "new_transfer_config =
     \<lparr>cf_stream_id = 0, cf_session_name = [], cf_file_path = [], cf_expected_size = 0, cf_chunk_size = DEFAULT_CHUNK_SIZE,
      cf_window_size = DEFAULT_WINDOW_SIZE, cf_max_bandwidth_mbps = DEFAULT_MAX_BANDWIDTH_MBPS\<rparr>"

text \<open>The conversion of a value to \<open>size_t\<close>, which numbers and booleans have.\<close>

definition json_to_size :: "json \<Rightarrow> u64 option" where
  "json_to_size v =
     (if j_is_number v then Some (j_u64 v) else case v of JBool b \<Rightarrow> Some (of_bool b) | _ \<Rightarrow> None)"

definition bandwidth_param :: "json \<Rightarrow> u64 option" where
  "bandwidth_param parameters =
     Option.bind (json_index ''max_bandwidth_mbps'' parameters)
       (\<lambda>(v, _). if j_is_null v then Some DEFAULT_MAX_BANDWIDTH_MBPS else json_to_size v)"

text \<open>\<open>Some None\<close> is a null session, \<open>None\<close> an exception.\<close>

definition download_config :: "'f fs_ops \<Rightarrow> string \<Rightarrow> 'f \<Rightarrow> stream_id \<Rightarrow> string \<Rightarrow> json \<Rightarrow> transfer_config option option" where
  "download_config ops base f sid session parameters =
     (let path = get_string parameters ''path'' [] in
      if path = [] then Some None
      else
        let file_path = resolve_path base (f_current_path ops f) path in
        case validate_resolved_path (f_canonical ops f) (f_weakly_canonical ops f) base file_path of
          None \<Rightarrow> None
        | Some False \<Rightarrow> Some None
        | Some True \<Rightarrow>
            map_option (\<lambda>bandwidth. Some (new_transfer_config\<lparr>cf_stream_id := sid, cf_session_name := session,
                cf_file_path := file_path, cf_chunk_size := DEFAULT_CHUNK_SIZE,
                cf_window_size := get_num parameters ''window_size'' DEFAULT_WINDOW_SIZE,
                cf_max_bandwidth_mbps := bandwidth\<rparr>))
              (bandwidth_param parameters))"

definition upload_config :: "'f fs_ops \<Rightarrow> string \<Rightarrow> 'f \<Rightarrow> stream_id \<Rightarrow> string \<Rightarrow> json \<Rightarrow> transfer_config option option" where
  "upload_config ops base f sid session parameters =
     (let path = get_string parameters ''path'' [];
          expected_size = get_num parameters ''size'' 0
      in if path = [] \<or> expected_size = 0 then Some None
      else
        let file_path = resolve_path base (f_current_path ops f) path in
        case validate_resolved_path (f_canonical ops f) (f_weakly_canonical ops f) base file_path of
          None \<Rightarrow> None
        | Some False \<Rightarrow> Some None
        | Some True \<Rightarrow>
            (case f_space ops f (parent_path file_path) of
               Inl _ \<Rightarrow> Some None
             | Inr available \<Rightarrow>
                 if available < expected_size then Some None
                 else map_option (\<lambda>bandwidth. Some (new_transfer_config\<lparr>cf_stream_id := sid,
                     cf_session_name := session, cf_file_path := file_path, cf_expected_size := expected_size,
                     cf_chunk_size := DEFAULT_CHUNK_SIZE, cf_max_bandwidth_mbps := bandwidth\<rparr>))
                   (bandwidth_param parameters)))"

end
