(* ===== verification/Stream_Manager.thy ===== *)
theory Stream_Manager
  imports Resource "HOL-Library.Multiset"
begin

text \<open>
  The table of sessions of a streaming extension, \<^verbatim>\<open>core/iotmp_stream_manager.cpp\<close>, over the base
  class of the sessions, \<^verbatim>\<open>core/iotmp_stream_session.hpp\<close>. The virtual functions of a session are a
  record of operations on its state, as a vtable is; the table keeps weak references, so that the objects live in
  a store of their own and disappear when their last owner (a coroutine) does.
\<close>

section \<open>Sessions and the manager\<close>

record 'x session_ops =
  op_create :: "stream_id \<Rightarrow> string \<Rightarrow> json \<Rightarrow> 'x option"
  op_stop :: "'x \<Rightarrow> 'x"
  op_input :: "json \<Rightarrow> 'x \<Rightarrow> 'x"

record 'x session_object =
  so_stream_id :: stream_id
  so_session :: string
  so_on_end :: bool
  so_state :: 'x

text \<open>
  \<open>sm_starting\<close> holds the coroutines suspended in \<open>session->start()\<close>, each with the number of its
  handler; \<open>sm_replies\<close> what the handlers were called with; \<open>sm_closed\<close> the calls of the client's
  \<open>stop_stream\<close>; \<open>sm_active\<close> the counter behind \<open>active_count\<close>.
\<close>

record 'x manager =
  sm_sessions :: "(stream_id \<times> nat) list"
  sm_objects :: "(nat \<times> 'x session_object) list"
  sm_next :: nat
  sm_starting :: "(nat \<times> nat) list"
  sm_replies :: "(nat \<times> exec_result) list"
  sm_closed :: "stream_id list"
  sm_active :: u64

definition new_manager :: "'x manager" where
  "new_manager = \<lparr>sm_sessions = [], sm_objects = [], sm_next = 0, sm_starting = [], sm_replies = [],
     sm_closed = [], sm_active = 0\<rparr>"

section \<open>Operations\<close>

definition sm_reply :: "nat \<Rightarrow> exec_result \<Rightarrow> 'x manager \<Rightarrow> 'x manager" where
  "sm_reply h r m = m\<lparr>sm_replies := sm_replies m @ [(h, r)]\<rparr>"

text \<open>Calling the handler a caller passed; the lambdas that ignore the result are \<open>None\<close>.\<close>

fun sm_answer :: "nat option \<Rightarrow> exec_result \<Rightarrow> 'x manager \<Rightarrow> 'x manager" where
  "sm_answer None r m = m"
| "sm_answer (Some h) r m = sm_reply h r m"

definition update_object :: "nat \<Rightarrow> ('x \<Rightarrow> 'x) \<Rightarrow> 'x manager \<Rightarrow> 'x manager" where
  "update_object i f m =
     m\<lparr>sm_objects := map (\<lambda>(j, ob). (j, if j = i then ob\<lparr>so_state := f (so_state ob)\<rparr> else ob)) (sm_objects m)\<rparr>"

text \<open>\<open>weak_ptr::lock\<close>\<close>

definition lock :: "nat \<Rightarrow> 'x manager \<Rightarrow> 'x session_object option" where
  "lock i m = map_of (sm_objects m) i"

text \<open>\<open>stream_session::stream_session\<close>, as \<open>make_shared\<close> calls it.\<close>

definition new_session :: "stream_id \<Rightarrow> string \<Rightarrow> 'x \<Rightarrow> 'x manager \<Rightarrow> nat \<times> 'x manager" where
  "new_session sid name x m =
     (sm_next m,
      m\<lparr>sm_objects := (sm_next m, \<lparr>so_stream_id = sid, so_session = name, so_on_end = False, so_state = x\<rparr>)
          # sm_objects m,
        sm_next := Suc (sm_next m), sm_active := sm_active m + 1\<rparr>)"

text \<open>\<open>stream_manager::start\<close> up to the suspension of its coroutine.\<close>

definition sm_start :: "'x session_ops \<Rightarrow> stream_id \<Rightarrow> json \<Rightarrow> json \<Rightarrow> nat \<Rightarrow> 'x manager \<Rightarrow> 'x manager" where
  "sm_start ops sid path_parameters parameters h m =
     (if map_of (sm_sessions m) sid \<noteq> None then sm_reply h (exec_bool False) m
      else
        let name = get_string path_parameters ''session'' [] in
        case op_create ops sid name parameters of
          None \<Rightarrow> sm_reply h (exec_bool False) m
        | Some x \<Rightarrow>
            (let (i, m1) = new_session sid name x m in
             m1\<lparr>sm_starting := sm_starting m1 @ [(i, h)]\<rparr>))"

text \<open>\<open>emplace\<close> keeps an entry that is already there.\<close>

definition emplace :: "stream_id \<Rightarrow> nat \<Rightarrow> 'x manager \<Rightarrow> 'x manager" where
  "emplace sid i m =
     (if map_of (sm_sessions m) sid \<noteq> None then m else m\<lparr>sm_sessions := (sid, i) # sm_sessions m\<rparr>)"

definition set_on_end_listener :: "nat \<Rightarrow> 'x manager \<Rightarrow> 'x manager" where
  "set_on_end_listener i m =
     m\<lparr>sm_objects := map (\<lambda>(j, ob). (j, if j = i then ob\<lparr>so_on_end := True\<rparr> else ob)) (sm_objects m)\<rparr>"

text \<open>The rest of that coroutine, once \<open>session->start()\<close> gave its result.\<close>

definition sm_started :: "nat \<Rightarrow> exec_result \<Rightarrow> 'x manager \<Rightarrow> 'x manager" where
  "sm_started i r m =
     (case (map_of (sm_starting m) i, lock i m) of
        (Some h, Some ob) \<Rightarrow>
          (let m1 = m\<lparr>sm_starting := filter (\<lambda>(j, _). j \<noteq> i) (sm_starting m)\<rparr>;
               m2 = (if exec_ok r then set_on_end_listener i (emplace (so_stream_id ob) i m1) else m1)
           in sm_reply h r m2)
      | _ \<Rightarrow> m)"

text \<open>
  What is left when \<open>session->start()\<close> throws: the coroutine is detached and ends, and the handler it holds goes with it.
\<close>

definition sm_start_threw :: "nat \<Rightarrow> 'x manager \<Rightarrow> 'x manager" where
  "sm_start_threw i m = m\<lparr>sm_starting := filter (\<lambda>(j, _). j \<noteq> i) (sm_starting m)\<rparr>"

definition sm_stop :: "'x session_ops \<Rightarrow> stream_id \<Rightarrow> nat option \<Rightarrow> 'x manager \<Rightarrow> 'x manager" where
  "sm_stop ops sid h m =
     (case map_of (sm_sessions m) sid of
        None \<Rightarrow> sm_answer h (exec_bool False) m
      | Some i \<Rightarrow>
          (let m1 = m\<lparr>sm_sessions := filter (\<lambda>(s, _). s \<noteq> sid) (sm_sessions m)\<rparr>;
               m2 = (case lock i m of
                       Some ob \<Rightarrow> update_object i (op_stop ops) m1
                     | None \<Rightarrow> m1\<lparr>sm_closed := sm_closed m1 @ [sid]\<rparr>)
           in sm_answer h (exec_bool True) m2))"

text \<open>\<open>~stream_session\<close>: the weak references are expired before the listener runs.\<close>

definition sm_destroy :: "'x session_ops \<Rightarrow> nat \<Rightarrow> 'x manager \<Rightarrow> 'x manager" where
  "sm_destroy ops i m =
     (case lock i m of
        None \<Rightarrow> m
      | Some ob \<Rightarrow>
          (let m1 = m\<lparr>sm_objects := filter (\<lambda>(j, _). j \<noteq> i) (sm_objects m), sm_active := sm_active m - 1\<rparr>
           in if so_on_end ob then sm_stop ops (so_stream_id ob) None m1 else m1))"

definition sm_get_session :: "stream_id \<Rightarrow> 'x manager \<Rightarrow> 'x session_object option" where
  "sm_get_session sid m =
     (case map_of (sm_sessions m) sid of None \<Rightarrow> None | Some i \<Rightarrow> lock i m)"

text \<open>The scan goes through the table in its iteration order.\<close>

fun find_session :: "(stream_id \<times> nat) list \<Rightarrow> string \<Rightarrow> 'x manager \<Rightarrow> (nat \<times> 'x session_object) option" where
  "find_session [] name m = None"
| "find_session ((_, i) # rest) name m =
     (case lock i m of
        Some ob \<Rightarrow> if so_session ob = name then Some (i, ob) else find_session rest name m
      | None \<Rightarrow> find_session rest name m)"

definition sm_find :: "string \<Rightarrow> 'x manager \<Rightarrow> (nat \<times> 'x session_object) option" where
  "sm_find name m = find_session (sm_sessions m) name m"

text \<open>The callback of the resource: the data of a stream, or a stop when no session has it.\<close>

definition sm_receive :: "'x session_ops \<Rightarrow> stream_id \<Rightarrow> json \<Rightarrow> 'x manager \<Rightarrow> 'x manager" where
  "sm_receive ops sid data m =
     (case map_of (sm_sessions m) sid of
        Some i \<Rightarrow> (if lock i m \<noteq> None then update_object i (op_input ops data) m else sm_stop ops sid None m)
      | None \<Rightarrow> sm_stop ops sid None m)"

text \<open>A stop whose \<open>session->stop()\<close> throws: the entry is gone by then, and the handler is not reached.\<close>

definition sm_stop_threw :: "'x session_ops \<Rightarrow> stream_id \<Rightarrow> 'x manager \<Rightarrow> 'x manager" where
  "sm_stop_threw ops sid m =
     (case map_of (sm_sessions m) sid of
        None \<Rightarrow> m
      | Some i \<Rightarrow> update_object i (op_stop ops) (m\<lparr>sm_sessions := filter (\<lambda>(s, _). s \<noteq> sid) (sm_sessions m)\<rparr>))"

text \<open>The stream handler of the resource.\<close>

definition sm_stream_handler :: "'x session_ops \<Rightarrow> stream_id \<Rightarrow> json \<Rightarrow> json \<Rightarrow> bool \<Rightarrow> nat \<Rightarrow> 'x manager \<Rightarrow> 'x manager" where
  "sm_stream_handler ops sid path_parameters parameters enabled h m =
     (if enabled then sm_start ops sid path_parameters parameters h m else sm_stop ops sid (Some h) m)"

definition active_count :: "'x manager \<Rightarrow> u64" where
  "active_count m = sm_active m"

text \<open>
  \<open>stream_manager::stream_manager\<close>: what the constructor installs in the resource. A request's handler
  is numbered by the requests that came before it, each of which is answered or waits for its session.
\<close>

definition manager_resource :: "'x session_ops \<Rightarrow> 'x manager resource \<Rightarrow> 'x manager resource" where
  "manager_resource ops r =
     set_stream_handler
       (\<lambda>sid path_parameters parameters enabled m.
          let h = length (sm_replies m) + length (sm_starting m);
              m' = sm_stream_handler ops sid path_parameters parameters enabled h m
          in (Some (map snd (drop (length (sm_replies m)) (sm_replies m'))), m'))
       (set_stream_echo False
          (set_input (\<lambda>i m. (Some i, sm_receive ops (in_stream_id i) (in_data i) m)) r))"

section \<open>What can happen\<close>

text \<open>
  A request of the client, data on a stream, a step of a session's own coroutines, the end of a
  \<open>start()\<close>, the end of an object that no coroutine owns any more; a \<open>start()\<close> of a session, with the handler
  its coroutine holds, or a stop that was asked for, that ends with an exception.
\<close>

datatype 'x manager_event =
    Stream_Request stream_id json json bool nat
  | Stream_Input stream_id json
  | Session_Step nat "'x \<Rightarrow> 'x"
  | Session_Started nat exec_result
  | Session_Gone nat
  | Start_Threw nat nat
  | Stop_Threw stream_id nat

inductive manager_step :: "'x session_ops \<Rightarrow> 'x manager \<Rightarrow> 'x manager_event \<Rightarrow> 'x manager \<Rightarrow> bool"
  for ops :: "'x session_ops" where
  request: "manager_step ops m (Stream_Request sid path prms enabled h)
      (sm_stream_handler ops sid path prms enabled h m)"
| receive: "manager_step ops m (Stream_Input sid data) (sm_receive ops sid data m)"
| progress: "lock i m \<noteq> None \<Longrightarrow> manager_step ops m (Session_Step i f) (update_object i f m)"
| started: "i \<in> fst ` set (sm_starting m) \<Longrightarrow> manager_step ops m (Session_Started i r) (sm_started i r m)"
| gone: "lock i m \<noteq> None \<Longrightarrow> i \<notin> fst ` set (sm_starting m) \<Longrightarrow>
    manager_step ops m (Session_Gone i) (sm_destroy ops i m)"
| start_threw: "map_of (sm_starting m) i = Some h \<Longrightarrow> manager_step ops m (Start_Threw i h) (sm_start_threw i m)"
| stop_threw: "map_of (sm_sessions m) sid = Some i \<Longrightarrow> lock i m \<noteq> None \<Longrightarrow>
    manager_step ops m (Stop_Threw sid h) (sm_stop_threw ops sid m)"

inductive_cases manager_stepE: "manager_step ops m e m'"

inductive manager_run :: "'x session_ops \<Rightarrow> 'x manager_event list \<Rightarrow> 'x manager \<Rightarrow> bool"
  for ops :: "'x session_ops" where
  run_start: "manager_run ops [] new_manager"
| run_step: "manager_run ops es m \<Longrightarrow> manager_step ops m e m' \<Longrightarrow> manager_run ops (es @ [e]) m'"

lemmas manager_defs = sm_reply_def update_object_def lock_def new_session_def sm_start_def emplace_def
  set_on_end_listener_def sm_started_def sm_stop_def sm_destroy_def sm_get_session_def sm_receive_def
  sm_stream_handler_def new_manager_def

end
