(* ===== verification/Stream_Manager_Correct.thy ===== *)
theory Stream_Manager_Correct
  imports Stream_Manager
begin

text \<open>
  The table of sessions in every state the events can lead to: which entries it has, what the weak references
  lead to, which handlers have been called. The locale states what the manager asks of a kind of
  session, so that a property of the sessions carries over to all sessions of a manager.
\<close>

section \<open>Small facts about the operations\<close>

lemma map_of_map_snd: "map_of (map (\<lambda>(j, ob). (j, f j ob)) xs) i = map_option (f i) (map_of xs i)"
  by (induction xs) auto

lemma map_of_filter_fst: "map_of (filter (\<lambda>(j, _). j \<noteq> k) xs) i = (if i = k then None else map_of xs i)"
  by (induction xs) auto

lemma lock_update [simp]:
  "lock i (update_object j f m) = map_option (\<lambda>ob. if i = j then ob\<lparr>so_state := f (so_state ob)\<rparr> else ob) (lock i m)"
  by (simp add: lock_def update_object_def map_of_map_snd)

lemma lock_set_on_end [simp]:
  "lock i (set_on_end_listener j m) = map_option (\<lambda>ob. if i = j then ob\<lparr>so_on_end := True\<rparr> else ob) (lock i m)"
  by (simp add: lock_def set_on_end_listener_def map_of_map_snd)

lemma keys_update [simp]: "map fst (sm_objects (update_object j f m)) = map fst (sm_objects m)"
  by (simp add: update_object_def comp_def case_prod_beta)

lemma keys_set_on_end [simp]: "map fst (sm_objects (set_on_end_listener j m)) = map fst (sm_objects m)"
  by (simp add: set_on_end_listener_def comp_def case_prod_beta)

text \<open>What \<open>update_object\<close> and \<open>set_on_end_listener\<close> leave alone.\<close>

lemma update_frame [simp]:
  "sm_sessions (update_object i f m) = sm_sessions m" "sm_starting (update_object i f m) = sm_starting m"
  "sm_next (update_object i f m) = sm_next m" "sm_active (update_object i f m) = sm_active m"
  "sm_replies (update_object i f m) = sm_replies m" "sm_closed (update_object i f m) = sm_closed m"
  by (simp_all add: update_object_def)

lemma set_on_end_frame [simp]:
  "sm_sessions (set_on_end_listener i m) = sm_sessions m" "sm_starting (set_on_end_listener i m) = sm_starting m"
  "sm_next (set_on_end_listener i m) = sm_next m" "sm_active (set_on_end_listener i m) = sm_active m"
  "sm_replies (set_on_end_listener i m) = sm_replies m" "sm_closed (set_on_end_listener i m) = sm_closed m"
  by (simp_all add: set_on_end_listener_def)

lemma lock_frame [simp]:
  "lock i (m\<lparr>sm_sessions := x\<rparr>) = lock i m" "lock i (m\<lparr>sm_starting := y\<rparr>) = lock i m"
  "lock i (m\<lparr>sm_closed := z\<rparr>) = lock i m" "lock i (m\<lparr>sm_replies := u\<rparr>) = lock i m"
  by (simp_all add: lock_def)

lemma lock_remove [simp]:
  "lock j (m\<lparr>sm_objects := filter (\<lambda>(k, _). k \<noteq> i) (sm_objects m), sm_active := n\<rparr>) = (if j = i then None else lock j m)"
  by (simp add: lock_def map_of_filter_fst)

lemma filter_keys [simp]: "distinct (map fst xs) \<Longrightarrow> distinct (map fst (filter P xs))"
  by (induction xs) auto

lemma map_of_keys: "map_of xs i = Some v \<Longrightarrow> i \<in> fst ` set xs"
  by (force dest: map_of_SomeD)

lemma filter_absent: "i \<notin> fst ` set xs \<Longrightarrow> filter (\<lambda>(j, _). j \<noteq> i) xs = xs"
  by (induction xs) auto

lemma remove_length:
  "distinct (map fst xs) \<Longrightarrow> map_of xs i = Some v \<Longrightarrow> Suc (length (filter (\<lambda>(j, _). j \<noteq> i) xs)) = length xs"
  by (induction xs) (auto simp: filter_absent)

section \<open>The table\<close>

text \<open>
  Entries are unique and refer to living objects of that stream, which have the listener; a
  session that is starting is alive and has none; the counter counts the objects.
\<close>

definition entry_ok :: "'x manager \<Rightarrow> stream_id \<times> nat \<Rightarrow> bool" where
  "entry_ok m e = (case lock (snd e) m of Some ob \<Rightarrow> so_stream_id ob = fst e \<and> so_on_end ob | None \<Rightarrow> False)"

definition starting_ok :: "'x manager \<Rightarrow> nat \<Rightarrow> bool" where
  "starting_ok m i = (case lock i m of Some ob \<Rightarrow> \<not> so_on_end ob | None \<Rightarrow> False)"

definition table_ok :: "'x manager \<Rightarrow> bool" where
  "table_ok m \<longleftrightarrow>
     distinct (map fst (sm_objects m)) \<and> (\<forall>i \<in> set (map fst (sm_objects m)). i < sm_next m) \<and>
     distinct (map fst (sm_sessions m)) \<and> distinct (map fst (sm_starting m)) \<and>
     (\<forall>i \<in> fst ` set (sm_starting m). starting_ok m i) \<and> (\<forall>e \<in> set (sm_sessions m). entry_ok m e) \<and>
     sm_active m = of_nat (length (sm_objects m))"

lemma table_ok_new: "table_ok new_manager"
  by (simp add: table_ok_def new_manager_def)

lemma table_ok_reply [simp]: "table_ok (sm_reply h r m) = table_ok m"
  by (simp add: table_ok_def entry_ok_def starting_ok_def sm_reply_def lock_def)

lemma table_ok_answer [simp]: "table_ok (sm_answer h r m) = table_ok m"
  by (cases h) simp_all

lemma table_ok_update: "table_ok m \<Longrightarrow> table_ok (update_object i f m)"
proof -
  assume ok: "table_ok m"
  have "entry_ok (update_object i f m) e = entry_ok m e" for e
    by (auto simp: entry_ok_def split: option.splits)
  moreover have "starting_ok (update_object i f m) j = starting_ok m j" for j
    by (auto simp: starting_ok_def split: option.splits)
  moreover have "length (sm_objects (update_object i f m)) = length (sm_objects m)"
    by (simp add: update_object_def)
  ultimately show ?thesis using ok by (simp add: table_ok_def del: set_map)
qed

lemma table_ok_closed: "table_ok (m\<lparr>sm_closed := cs\<rparr>) = table_ok m"
  by (simp add: table_ok_def entry_ok_def starting_ok_def lock_def)

lemma table_ok_unlist: "table_ok m \<Longrightarrow> table_ok (m\<lparr>sm_sessions := filter P (sm_sessions m)\<rparr>)"
  by (auto simp: table_ok_def entry_ok_def starting_ok_def lock_def)

lemma table_ok_stop: "table_ok m \<Longrightarrow> table_ok (sm_stop ops sid h m)"
proof (cases "map_of (sm_sessions m) sid")
  case None
  then show "table_ok m \<Longrightarrow> ?thesis" by (simp add: sm_stop_def)
next
  case (Some i)
  assume ok: "table_ok m"
  from Some ok table_ok_unlist [OF ok] show ?thesis
    by (auto simp: sm_stop_def Let_def table_ok_update table_ok_closed split: option.split)
qed

lemma table_ok_start: "table_ok m \<Longrightarrow> table_ok (sm_start ops sid path p h m)"
proof -
  assume ok: "table_ok m"
  have fresh: "sm_next m \<notin> fst ` set (sm_starting m)" "sm_next m \<notin> fst ` set (sm_objects m)"
    "\<forall>e \<in> set (sm_sessions m). snd e \<noteq> sm_next m"
    using ok by (force simp: table_ok_def starting_ok_def entry_ok_def lock_def split: option.splits dest: map_of_keys)+
  have "table_ok (m\<lparr>sm_objects := (sm_next m, ob) # sm_objects m, sm_next := Suc (sm_next m),
      sm_active := sm_active m + 1, sm_starting := sm_starting m @ [(sm_next m, h)]\<rparr>)"
    if "\<not> so_on_end ob" for ob
    using ok fresh that by (auto simp: table_ok_def entry_ok_def starting_ok_def lock_def less_SucI)
  then show ?thesis
    using ok by (simp add: sm_start_def new_session_def Let_def split: option.split)
qed

lemma set_on_end_emplace:
  "set_on_end_listener i (emplace sid k m) = emplace sid k (set_on_end_listener i m)"
  by (simp add: set_on_end_listener_def emplace_def)

lemma table_ok_set_on_end:
  assumes ok: "table_ok m" and i: "i \<notin> fst ` set (sm_starting m)"
  shows "table_ok (set_on_end_listener i m)"
proof -
  have e: "\<forall>e \<in> set (sm_sessions m). entry_ok (set_on_end_listener i m) e"
    using ok by (auto simp: table_ok_def entry_ok_def split: option.splits)
  have "starting_ok (set_on_end_listener i m) j = starting_ok m j" if "j \<noteq> i" for j
    using that by (cases "lock j m") (simp_all add: starting_ok_def)
  then have s: "\<forall>j \<in> fst ` set (sm_starting m). starting_ok (set_on_end_listener i m) j"
    using ok i unfolding table_ok_def by metis
  have "length (sm_objects (set_on_end_listener i m)) = length (sm_objects m)"
    by (simp add: set_on_end_listener_def)
  with e s ok show ?thesis unfolding table_ok_def by (simp del: set_map)
qed

lemma table_ok_emplace:
  assumes ok: "table_ok m" and e: "entry_ok m (sid, i)"
  shows "table_ok (emplace sid i m)"
  using assms map_of_eq_None_iff [of "sm_sessions m" sid]
  by (simp add: emplace_def table_ok_def entry_ok_def starting_ok_def lock_def)

lemma table_ok_unstart: "table_ok m \<Longrightarrow> table_ok (m\<lparr>sm_starting := filter P (sm_starting m)\<rparr>)"
  by (auto simp: table_ok_def entry_ok_def starting_ok_def lock_def)

lemma table_ok_started: "table_ok m \<Longrightarrow> table_ok (sm_started i r m)"
proof (cases "map_of (sm_starting m) i")
  case None
  then show "table_ok m \<Longrightarrow> ?thesis" by (simp add: sm_started_def)
next
  case (Some h)
  assume ok: "table_ok m"
  from map_of_keys [OF Some] ok obtain ob where ob: "lock i m = Some ob"
    by (auto simp: table_ok_def starting_ok_def split: option.splits)
  let ?m1 = "m\<lparr>sm_starting := filter (\<lambda>(j, _). j \<noteq> i) (sm_starting m)\<rparr>"
  have "table_ok (set_on_end_listener i ?m1)"
    by (rule table_ok_set_on_end [OF table_ok_unstart [OF ok]]) auto
  then have "table_ok (set_on_end_listener i (emplace (so_stream_id ob) i ?m1))"
    unfolding set_on_end_emplace by (rule table_ok_emplace) (simp add: entry_ok_def ob)
  with table_ok_unstart [OF ok] Some ob show ?thesis by (simp add: sm_started_def Let_def)
qed

lemma stop_threw_is_stop: "lock (the (map_of (sm_sessions m) sid)) m \<noteq> None \<Longrightarrow> sm_stop_threw ops sid m = sm_stop ops sid None m"
  by (auto simp: sm_stop_threw_def sm_stop_def Let_def split: option.split)

text \<open>
  When an object goes, its listener runs. Unless another object has the entry of its stream, that entry is
  dropped; the entries of the other streams stay.
\<close>

lemma table_ok_destroy:
  assumes ok: "table_ok m" and i: "i \<notin> fst ` set (sm_starting m)"
  shows "table_ok (sm_destroy ops i m)"
proof (cases "lock i m")
  case None
  with ok show ?thesis by (simp add: sm_destroy_def)
next
  case (Some ob)
  let ?m1 = "m\<lparr>sm_objects := filter (\<lambda>(j, _). j \<noteq> i) (sm_objects m), sm_active := sm_active m - 1\<rparr>"
  have len: "of_nat (length (sm_objects ?m1)) = sm_active m - 1"
    using remove_length [of "sm_objects m" i ob, symmetric] ok Some by (simp add: table_ok_def lock_def)
  have base: "table_ok (?m1\<lparr>sm_sessions := filter (\<lambda>(s, _). s \<noteq> so_stream_id ob \<or> \<not> so_on_end ob) (sm_sessions m)\<rparr>)"
    (is "table_ok ?m2")
  proof -
    have "entry_ok ?m2 e" if e: "e \<in> set (sm_sessions ?m2)" for e
    proof -
      from e ok have "entry_ok m e" by (auto simp: table_ok_def)
      with e Some show ?thesis by (auto simp: entry_ok_def lock_def map_of_filter_fst split: option.splits if_splits)
    qed
    moreover have "starting_ok ?m2 j" if "j \<in> fst ` set (sm_starting m)" for j
      using that i ok by (auto simp: table_ok_def starting_ok_def lock_def map_of_filter_fst)
    ultimately show ?thesis using ok len by (auto simp: table_ok_def)
  qed
  show ?thesis
  proof (cases "so_on_end ob")
    case False
    from ok have "filter (\<lambda>(s, _). s \<noteq> so_stream_id ob \<or> \<not> so_on_end ob) (sm_sessions m) = sm_sessions m"
      using False by (simp add: filter_id_conv case_prod_beta)
    with base False Some show ?thesis by (simp add: sm_destroy_def)
  next
    case True
    have f: "filter (\<lambda>(s, _). s \<noteq> so_stream_id ob \<or> \<not> so_on_end ob) (sm_sessions m) =
        filter (\<lambda>(s, _). s \<noteq> so_stream_id ob) (sm_sessions m)" using True by simp
    show ?thesis
    proof (cases "map_of (sm_sessions m) (so_stream_id ob)")
      case None
      then have "filter (\<lambda>(s, _). s \<noteq> so_stream_id ob) (sm_sessions m) = sm_sessions m"
        by (auto simp: filter_id_conv map_of_eq_None_iff image_iff case_prod_beta)
      with base f None Some True show ?thesis by (simp add: sm_destroy_def sm_stop_def)
    next
      case e: (Some k)
      from base f have "table_ok (?m1\<lparr>sm_sessions := filter (\<lambda>(s, _). s \<noteq> so_stream_id ob) (sm_sessions m)\<rparr>)"
        by simp
      with Some True e show ?thesis
        by (auto simp: sm_destroy_def sm_stop_def Let_def table_ok_update table_ok_closed split: option.split)
    qed
  qed
qed

lemma table_ok_step: "manager_step ops m e m' \<Longrightarrow> table_ok m \<Longrightarrow> table_ok m'"
proof (induction rule: manager_step.induct)
  case (receive sid data m)
  then show ?case
    by (auto simp: sm_receive_def table_ok_update table_ok_stop split: option.split)
qed (simp_all add: sm_stream_handler_def table_ok_start table_ok_stop table_ok_update table_ok_started table_ok_destroy
      sm_start_threw_def table_ok_unstart stop_threw_is_stop)

lemma table_ok_run: "manager_run ops es m \<Longrightarrow> table_ok m"
  by (induction rule: manager_run.induct) (auto intro: table_ok_new table_ok_step)

section \<open>Handlers\<close>

definition request_handlers :: "'x manager_event \<Rightarrow> nat multiset" where
  "request_handlers e =
     (case e of Stream_Request sid path prms enabled h \<Rightarrow> {#h#} | Stop_Threw sid h \<Rightarrow> {#h#} | _ \<Rightarrow> {#})"

text \<open>The handlers an exception loses.\<close>

definition lost_handlers :: "'x manager_event \<Rightarrow> nat multiset" where
  "lost_handlers e = (case e of Start_Threw i h \<Rightarrow> {#h#} | Stop_Threw sid h \<Rightarrow> {#h#} | _ \<Rightarrow> {#})"

text \<open>Every other handler passed in was called, or belongs to a session that is starting.\<close>

definition handlers :: "'x manager \<Rightarrow> nat multiset" where
  "handlers m = mset (map fst (sm_replies m)) + mset (map snd (sm_starting m))"

lemma handlers_reply: "handlers (sm_reply h r m) = handlers m + {#h#}"
  by (simp add: handlers_def sm_reply_def)

lemma handlers_stop: "handlers (sm_stop ops sid h m) = handlers m + mset (case h of None \<Rightarrow> [] | Some i \<Rightarrow> [i])"
  by (cases h) (simp_all add: sm_stop_def Let_def handlers_def sm_reply_def split: option.split)

lemma handlers_update [simp]: "handlers (update_object i f m) = handlers m"
  by (simp add: handlers_def)

lemma handlers_start: "handlers (sm_start ops sid path p h m) = handlers m + {#h#}"
  by (simp add: sm_start_def handlers_def sm_reply_def new_session_def Let_def split: option.split)

lemma mset_take_out:
  "distinct (map fst xs) \<Longrightarrow> map_of xs i = Some h \<Longrightarrow>
     mset xs = add_mset (i, h) (mset (filter (\<lambda>(j, _). j \<noteq> i) xs))"
  by (induction xs) (auto simp: filter_absent simp del: mset_filter)

lemma handlers_objects [simp]: "handlers (m\<lparr>sm_objects := xs, sm_active := n\<rparr>) = handlers m"
  by (simp add: handlers_def)

lemma starting_take_out:
  assumes "table_ok m" and "map_of (sm_starting m) i = Some h"
  shows "image_mset snd (mset (sm_starting m)) =
    add_mset h (image_mset snd (mset (filter (\<lambda>(j, _). j \<noteq> i) (sm_starting m))))"
  using arg_cong [OF mset_take_out [OF _ assms(2)], of "image_mset snd"] assms(1)
  by (simp add: table_ok_def del: mset_filter)

lemma handlers_started: "table_ok m \<Longrightarrow> handlers (sm_started i r m) = handlers m"
  using starting_take_out [of m i]
  by (simp add: sm_started_def Let_def handlers_def sm_reply_def emplace_def del: mset_filter split: option.split)

lemma handlers_start_threw:
  "table_ok m \<Longrightarrow> map_of (sm_starting m) i = Some h \<Longrightarrow> handlers (sm_start_threw i m) + {#h#} = handlers m"
  using starting_take_out [of m i h] by (simp add: handlers_def sm_start_threw_def del: mset_filter)

lemma handlers_step:
  "manager_step ops m e m' \<Longrightarrow> table_ok m \<Longrightarrow> handlers m' + lost_handlers e = handlers m + request_handlers e"
proof (induction rule: manager_step.induct)
  case (gone i m)
  then show ?case
    by (auto simp: sm_destroy_def Let_def request_handlers_def lost_handlers_def handlers_stop)
next
  case (start_threw m i h)
  then show ?case using handlers_start_threw [of m i h] by (simp add: request_handlers_def lost_handlers_def)
next
  case (stop_threw m sid i h)
  then show ?case by (simp add: stop_threw_is_stop handlers_stop request_handlers_def lost_handlers_def)
qed (simp_all add: request_handlers_def lost_handlers_def sm_stream_handler_def handlers_start handlers_stop sm_receive_def
      handlers_started split: option.split)

lemma handlers_run:
  "manager_run ops es m \<Longrightarrow> handlers m + (\<Sum>e \<leftarrow> es. lost_handlers e) = (\<Sum>e \<leftarrow> es. request_handlers e)"
proof (induction rule: manager_run.induct)
  case run_start
  then show ?case by (simp add: handlers_def new_manager_def)
next
  case (run_step es m e m')
  then show ?case using handlers_step [OF run_step.hyps(2) table_ok_run [OF run_step.hyps(1)]]
    by (simp add: add.assoc add.left_commute add.commute) (metis add.left_commute add.commute)
qed

section \<open>Streams used once\<close>

fun started_ids :: "'x manager_event list \<Rightarrow> stream_id list" where
  "started_ids [] = []"
| "started_ids (Stream_Request sid _ _ True _ # es) = sid # started_ids es"
| "started_ids (_ # es) = started_ids es"

fun stopped_ids :: "'x manager_event list \<Rightarrow> stream_id list" where
  "stopped_ids [] = []"
| "stopped_ids (Stream_Request sid _ _ False _ # es) = sid # stopped_ids es"
| "stopped_ids (Stop_Threw sid _ # es) = sid # stopped_ids es"
| "stopped_ids (_ # es) = stopped_ids es"

lemma started_ids_append [simp]: "started_ids (es @ fs) = started_ids es @ started_ids fs"
  by (induction es rule: started_ids.induct) simp_all

lemma stopped_ids_append [simp]: "stopped_ids (es @ fs) = stopped_ids es @ stopped_ids fs"
  by (induction es rule: stopped_ids.induct) simp_all

text \<open>What an object is for: its stream, and whether it has the listener.\<close>

definition facts :: "'x manager \<Rightarrow> nat \<Rightarrow> (stream_id \<times> bool) option" where
  "facts m i = map_option (\<lambda>ob. (so_stream_id ob, so_on_end ob)) (lock i m)"

text \<open>
  What holds when no stream identifier is started a second time: the living objects are of different streams,
  and one that has started and was not told to stop is the one its stream leads to.
\<close>

definition once_ok :: "'x manager_event list \<Rightarrow> 'x manager \<Rightarrow> bool" where
  "once_ok es m \<longleftrightarrow>
     (\<forall>i s b. facts m i = Some (s, b) \<longrightarrow> s \<in> set (started_ids es)) \<and>
     (\<forall>i j s b c. facts m i = Some (s, b) \<and> facts m j = Some (s, c) \<longrightarrow> i = j) \<and>
     (\<forall>i s. facts m i = Some (s, True) \<and> s \<notin> set (stopped_ids es) \<longrightarrow> map_of (sm_sessions m) s = Some i)"

lemma once_ids: "once_ok es m \<Longrightarrow> facts m i = Some (s, b) \<Longrightarrow> s \<in> set (started_ids es)"
  by (auto simp: once_ok_def)

lemma once_uniq: "once_ok es m \<Longrightarrow> facts m i = Some (s, b) \<Longrightarrow> facts m j = Some (s, c) \<Longrightarrow> i = j"
  unfolding once_ok_def by blast

lemma once_own:
  "once_ok es m \<Longrightarrow> facts m i = Some (s, True) \<Longrightarrow> s \<notin> set (stopped_ids es) \<Longrightarrow> map_of (sm_sessions m) s = Some i"
  by (auto simp: once_ok_def)

lemma once_okI:
  assumes "\<And>i s b. facts m i = Some (s, b) \<Longrightarrow> s \<in> set (started_ids es)"
    and "\<And>i j s b c. facts m i = Some (s, b) \<Longrightarrow> facts m j = Some (s, c) \<Longrightarrow> i = j"
    and "\<And>i s. facts m i = Some (s, True) \<Longrightarrow> s \<notin> set (stopped_ids es) \<Longrightarrow> map_of (sm_sessions m) s = Some i"
  shows "once_ok es m"
  unfolding once_ok_def using assms by blast

lemma table_entry:
  "table_ok m \<Longrightarrow> map_of (sm_sessions m) sid = Some i \<Longrightarrow> facts m i = Some (sid, True)"
  by (drule map_of_SomeD) (auto simp: table_ok_def entry_ok_def facts_def split: option.splits)

lemma table_starting:
  "table_ok m \<Longrightarrow> i \<in> fst ` set (sm_starting m) \<Longrightarrow> \<exists>s. facts m i = Some (s, False)"
  by (auto simp: table_ok_def starting_ok_def facts_def split: option.splits)

lemma facts_lock: "facts m i = Some (s, b) \<Longrightarrow> \<exists>ob. lock i m = Some ob \<and> so_stream_id ob = s \<and> so_on_end ob = b"
  by (auto simp: facts_def)

text \<open>The operations on the two views \<open>facts\<close> and \<open>map_of (sm_sessions _)\<close> of the state.\<close>

lemma views_reply [simp]: "lock i (sm_reply h r m) = lock i m" "sm_sessions (sm_reply h r m) = sm_sessions m"
  by (simp_all add: lock_def sm_reply_def)

lemma views_answer [simp]: "lock i (sm_answer h r m) = lock i m" "sm_sessions (sm_answer h r m) = sm_sessions m"
  by (cases h, simp_all)+

lemma facts_update [simp]: "facts (update_object i f m) = facts m"
proof
  fix j show "facts (update_object i f m) j = facts m j" by (cases "lock j m") (simp_all add: facts_def)
qed

lemma facts_cong: "(\<And>i. lock i m = lock i m') \<Longrightarrow> facts m = facts m'"
  by (simp add: facts_def fun_eq_iff)

lemma facts_stop [simp]: "facts (sm_stop ops sid h m) = facts m"
proof -
  have "facts (sm_answer h r (m\<lparr>sm_sessions := xs\<rparr>)) = facts m"
    "facts (sm_answer h r (m\<lparr>sm_sessions := xs, sm_closed := c\<rparr>)) = facts m"
    "facts (sm_answer h r (update_object i f (m\<lparr>sm_sessions := xs\<rparr>))) = facts (update_object i f m)"
    "facts (sm_answer h r m) = facts m" for r xs c i f
    by (rule facts_cong, simp)+
  then show ?thesis by (auto simp: sm_stop_def Let_def split: option.split)
qed

lemma stop_sessions:
  "map_of (sm_sessions (sm_stop ops sid h m)) = (map_of (sm_sessions m))(sid := None)"
  by (auto simp: sm_stop_def Let_def map_of_filter_fst fun_eq_iff split: option.split)

lemma started_views:
  assumes "i \<in> fst ` set (sm_starting m)" and "facts m i = Some (s, False)"
  shows "facts (sm_started i r m) = (if exec_ok r then (facts m)(i \<mapsto> (s, True)) else facts m)"
    and "exec_ok r \<Longrightarrow> map_of (sm_sessions m) s = None \<Longrightarrow>
      map_of (sm_sessions (sm_started i r m)) = (map_of (sm_sessions m))(s \<mapsto> i)"
    and "\<not> exec_ok r \<Longrightarrow> sm_sessions (sm_started i r m) = sm_sessions m"
proof -
  from assms(1) obtain h where h: "map_of (sm_starting m) i = Some h"
    by (metis map_of_eq_None_iff not_Some_eq)
  from facts_lock [OF assms(2)] obtain ob where ob: "lock i m = Some ob" "so_stream_id ob = s" by blast
  note u = sm_started_def Let_def emplace_def h ob
  show "facts (sm_started i r m) = (if exec_ok r then (facts m)(i \<mapsto> (s, True)) else facts m)"
    by (auto simp: u facts_def fun_eq_iff option.map_ident)
  show "map_of (sm_sessions (sm_started i r m)) = (map_of (sm_sessions m))(s \<mapsto> i)"
    if "exec_ok r" "map_of (sm_sessions m) s = None" using that by (simp add: u)
  show "sm_sessions (sm_started i r m) = sm_sessions m" if "\<not> exec_ok r" using that by (simp add: u)
qed

lemma destroy_views:
  assumes "facts m i = Some (s, b)"
  shows "map_of (sm_sessions (sm_destroy ops i m)) =
       (if b then (map_of (sm_sessions m))(s := None) else map_of (sm_sessions m))"
    and "facts (sm_destroy ops i m) = (facts m)(i := None)"
proof -
  from facts_lock [OF assms] obtain ob where ob: "lock i m = Some ob" "so_stream_id ob = s" "so_on_end ob = b" by blast
  have f: "facts (m\<lparr>sm_objects := filter (\<lambda>(j, _). j \<noteq> i) (sm_objects m), sm_active := n\<rparr>) = (facts m)(i := None)"
    for n by (simp add: facts_def fun_eq_iff)
  show "map_of (sm_sessions (sm_destroy ops i m)) =
       (if b then (map_of (sm_sessions m))(s := None) else map_of (sm_sessions m))"
    using ob by (simp add: sm_destroy_def Let_def stop_sessions)
  show "facts (sm_destroy ops i m) = (facts m)(i := None)"
    using ob by (simp add: sm_destroy_def Let_def f)
qed

lemma start_views:
  "sm_sessions (sm_start ops sid path p h m) = sm_sessions m"
  "facts (sm_start ops sid path p h m) = facts m \<or>
   facts (sm_start ops sid path p h m) = (facts m)(sm_next m \<mapsto> (sid, False))"
proof -
  have "facts (m\<lparr>sm_objects := (k, ob) # sm_objects m, sm_next := n, sm_active := a, sm_starting := st\<rparr>) =
      (facts m)(k \<mapsto> (so_stream_id ob, so_on_end ob))" for k n a ob st
    by (simp add: facts_def lock_def fun_eq_iff)
  moreover have "facts (sm_reply h r m) = facts m" for r by (rule facts_cong) simp
  ultimately show "facts (sm_start ops sid path p h m) = facts m \<or>
     facts (sm_start ops sid path p h m) = (facts m)(sm_next m \<mapsto> (sid, False))"
    by (simp add: sm_start_def new_session_def Let_def split: option.split)
  show "sm_sessions (sm_start ops sid path p h m) = sm_sessions m"
    by (simp add: sm_start_def new_session_def Let_def split: option.split)
qed

text \<open>With a consistent table, data reaches the session of the stream, and is dropped when there is none.\<close>

lemma receive_views:
  assumes "table_ok m"
  shows "sm_receive ops sid data m =
    (case map_of (sm_sessions m) sid of Some i \<Rightarrow> update_object i (op_input ops data) m | None \<Rightarrow> m)"
proof (cases "map_of (sm_sessions m) sid")
  case None
  then show ?thesis by (simp add: sm_receive_def sm_stop_def)
next
  case (Some i)
  with facts_lock [OF table_entry [OF assms Some]] show ?thesis by (auto simp: sm_receive_def)
qed

lemma once_ok_start:
  assumes once: "once_ok es m" and new: "sid \<notin> set (started_ids es)"
  shows "once_ok (es @ [Stream_Request sid path p True h]) (sm_start ops sid path p h m)"
  using start_views(2) [of ops sid path p h m]
proof
  assume "facts (sm_start ops sid path p h m) = facts m"
  with once show ?thesis by (auto simp: once_ok_def start_views(1))
next
  assume v: "facts (sm_start ops sid path p h m) = (facts m)(sm_next m \<mapsto> (sid, False))"
  show ?thesis
    by (rule once_okI, use new in \<open>auto simp: v start_views(1) split: if_splits dest: once_ids [OF once] once_uniq [OF once]
        intro: once_own [OF once]\<close>)
qed

lemma once_ok_started:
  assumes ok: "table_ok m" and once: "once_ok es m" and i: "i \<in> fst ` set (sm_starting m)"
  shows "once_ok (es @ [Session_Started i r]) (sm_started i r m)"
proof -
  from table_starting [OF ok i] obtain s where s: "facts m i = Some (s, False)" by blast
  have free: "map_of (sm_sessions m) s = None"
  proof (rule ccontr)
    assume "map_of (sm_sessions m) s \<noteq> None"
    then obtain j where "map_of (sm_sessions m) s = Some j" by blast
    from table_entry [OF ok this] once s have "j = i" unfolding once_ok_def by blast
    with table_entry [OF ok \<open>map_of (sm_sessions m) s = Some j\<close>] s show False by simp
  qed
  note v = started_views [OF i s]
  show ?thesis
  proof (cases "exec_ok r")
    case True
    have "s' \<noteq> s" if "facts m j = Some (s', c)" "j \<noteq> i" for j s' c
      using once_uniq [OF once s] that by metis
    with True free once_ids [OF once s] show ?thesis
      by (intro once_okI) (auto simp: v split: if_splits dest: once_ids [OF once] once_uniq [OF once]
        intro: once_own [OF once])
  next
    case False
    with once show ?thesis by (simp add: once_ok_def v)
  qed
qed

lemma once_ok_step:
  assumes "manager_step ops m e m'" and ok: "table_ok m" and once: "once_ok es m"
    and "distinct (started_ids (es @ [e]))"
  shows "once_ok (es @ [e]) m'"
  using assms(1)
proof cases
  case (request sid path prms enabled h)
  show ?thesis
  proof (cases enabled)
    case True
    with request assms(4) once_ok_start [OF once] show ?thesis by (simp add: sm_stream_handler_def)
  next
    case False
    with request once show ?thesis by (auto simp: once_ok_def sm_stream_handler_def stop_sessions)
  qed
next
  case (receive sid data)
  with once show ?thesis by (auto simp: once_ok_def receive_views [OF ok] split: option.split)
next
  case (progress i f)
  with once show ?thesis by (simp add: once_ok_def)
next
  case (started i r)
  with once_ok_started [OF ok once] show ?thesis by simp
next
  case (gone i)
  then obtain s b where f: "facts m i = Some (s, b)" by (auto simp: facts_def)
  note v = destroy_views [OF f, where ops = ops]
  have "s' \<noteq> s" if "facts m j = Some (s', c)" "j \<noteq> i" for j s' c
    using once_uniq [OF once f] that by metis
  then show ?thesis
    unfolding gone by (intro once_okI) (auto simp: v split: if_splits dest: once_ids [OF once] once_uniq [OF once]
        intro: once_own [OF once])
next
  case (start_threw i h)
  have "facts (sm_start_threw i m) = facts m" by (rule facts_cong) (simp add: sm_start_threw_def)
  moreover have "sm_sessions (sm_start_threw i m) = sm_sessions m" by (simp add: sm_start_threw_def)
  ultimately show ?thesis using once start_threw by (simp add: once_ok_def)
next
  case (stop_threw sid i h)
  with once show ?thesis by (auto simp: once_ok_def stop_threw_is_stop stop_sessions)
qed

lemma once_ok_run: "manager_run ops es m \<Longrightarrow> distinct (started_ids es) \<Longrightarrow> once_ok es m"
proof (induction rule: manager_run.induct)
  case run_start
  then show ?case by (simp add: once_ok_def facts_def new_manager_def lock_def)
next
  case (run_step es m e m')
  then show ?case using once_ok_step [OF run_step.hyps(2) table_ok_run [OF run_step.hyps(1)]] by simp
qed

section \<open>The contract of a kind of session\<close>

locale session_class =
  fixes ops :: "'x session_ops" and good :: "'x \<Rightarrow> bool"
  assumes create_good: "op_create ops sid name prms = Some x \<Longrightarrow> good x"
    and stop_good: "good x \<Longrightarrow> good (op_stop ops x)"
    and input_good: "good x \<Longrightarrow> good (op_input ops data x)"
begin

definition all_good :: "'x manager \<Rightarrow> bool" where
  "all_good m \<longleftrightarrow> (\<forall>i ob. lock i m = Some ob \<longrightarrow> good (so_state ob))"

definition steps_good :: "'x manager_event list \<Rightarrow> bool" where
  "steps_good es \<longleftrightarrow> (\<forall>i f. Session_Step i f \<in> set es \<longrightarrow> (\<forall>x. good x \<longrightarrow> good (f x)))"

lemma all_good_cong: "all_good m \<Longrightarrow> (\<And>i. lock i m' = lock i m) \<Longrightarrow> all_good m'"
  by (simp add: all_good_def)

lemma all_good_update: "all_good m \<Longrightarrow> (\<And>x. good x \<Longrightarrow> good (f x)) \<Longrightarrow> all_good (update_object i f m)"
  by (auto simp: all_good_def)

lemma all_good_answer: "all_good (sm_answer h r m) = all_good m"
  by (simp add: all_good_def)

lemma all_good_stop: "all_good m \<Longrightarrow> all_good (sm_stop ops sid h m)"
  by (auto simp: sm_stop_def Let_def all_good_answer stop_good intro!: all_good_update
      intro: all_good_cong split: option.split)

lemma all_good_start: "all_good m \<Longrightarrow> all_good (sm_start ops sid path p h m)"
  using create_good
  by (auto simp: sm_start_def new_session_def Let_def all_good_def lock_def sm_reply_def split: option.split)

lemma all_good_started: "all_good m \<Longrightarrow> all_good (sm_started i r m)"
  by (auto simp: sm_started_def Let_def all_good_def emplace_def split: option.split)

lemma all_good_step:
  "manager_step ops m e m' \<Longrightarrow> all_good m \<Longrightarrow> steps_good [e] \<Longrightarrow> all_good m'"
proof (induction rule: manager_step.induct)
  case (gone i m)
  have "all_good (m\<lparr>sm_objects := filter (\<lambda>(j, _). j \<noteq> i) (sm_objects m), sm_active := sm_active m - 1\<rparr>)"
    using gone.prems(1) by (auto simp: all_good_def)
  with gone.prems(1) show ?case by (auto simp: sm_destroy_def Let_def all_good_stop split: option.split)
next
  case (progress i m f)
  then show ?case by (simp add: steps_good_def all_good_update)
next
  case (start_threw m i h)
  then show ?case by (simp add: sm_start_threw_def all_good_def)
next
  case (stop_threw m sid i h)
  then show ?case by (simp add: stop_threw_is_stop all_good_stop)
qed (auto simp: sm_stream_handler_def sm_receive_def all_good_start all_good_stop all_good_started input_good
      intro!: all_good_update split: option.split)

theorem run_good: "manager_run ops es m \<Longrightarrow> steps_good es \<Longrightarrow> all_good m"
proof (induction rule: manager_run.induct)
  case run_start
  then show ?case by (simp add: all_good_def new_manager_def lock_def)
next
  case (run_step es m e m')
  then show ?case by (auto simp: steps_good_def intro: all_good_step)
qed

end

section \<open>Properties\<close>

text \<open>A kind of session that is only running or stopped, to run the properties on.\<close>

definition flag_ops :: "bool session_ops" where
  "flag_ops = \<lparr>op_create = (\<lambda>sid name prms. Some True), op_stop = (\<lambda>_. False), op_input = (\<lambda>_ x. x)\<rparr>"

interpretation flag: session_class flag_ops "\<lambda>_. True"
  by unfold_locales (simp_all add: flag_ops_def)

definition flag_manager :: "bool manager" where
  "flag_manager = sm_started 0 (exec_bool True) (sm_start flag_ops 7 JNull JNull 1 new_manager)"

lemma flag_run:
  "manager_run flag_ops [Stream_Request 7 JNull JNull True 1, Session_Started 0 (exec_bool True)] flag_manager"
proof -
  have "manager_run flag_ops ([] @ [Stream_Request 7 JNull JNull True 1])
      (sm_stream_handler flag_ops 7 JNull JNull True 1 new_manager)"
    by (rule run_step [OF run_start request])
  then have "manager_run flag_ops (([] @ [Stream_Request 7 JNull JNull True 1]) @ [Session_Started 0 (exec_bool True)])
      (sm_started 0 (exec_bool True) (sm_stream_handler flag_ops 7 JNull JNull True 1 new_manager))"
    by (rule run_step) (rule started, simp add: sm_stream_handler_def sm_start_def flag_ops_def new_session_def
        new_manager_def)
  then show ?thesis by (simp add: flag_manager_def sm_stream_handler_def)
qed

lemmas flag_simps = flag_manager_def flag_ops_def sm_start_def new_session_def new_manager_def sm_started_def
  set_on_end_listener_def emplace_def lock_def sm_reply_def exec_ok_def exec_bool_def new_message_def sm_get_session_def

lemma no_session_name [simp]: "get_string JNull ''session'' [] = []"
  by code_simp

text \<open>In every state a manager can reach, a lookup by stream finds a session exactly when the table has an
  entry, the session found is of that stream, and the count of active sessions is the number of session objects
  that are alive.\<close>

theorem sessions_found:
  assumes "manager_run ops es m"
  shows "(sm_get_session sid m \<noteq> None) = (sid \<in> fst ` set (sm_sessions m)) \<and>
    (\<forall>ob. sm_get_session sid m = Some ob \<longrightarrow> so_stream_id ob = sid \<and> so_on_end ob) \<and>
    active_count m = of_nat (length (sm_objects m))"
proof -
  note ok = table_ok_run [OF assms]
  have "\<exists>ob. lock i m = Some ob \<and> so_stream_id ob = sid \<and> so_on_end ob" if "map_of (sm_sessions m) sid = Some i" for i
    using facts_lock [OF table_entry [OF ok that]] by simp
  then show ?thesis
    using map_of_eq_None_iff [of "sm_sessions m" sid] ok
    by (cases "map_of (sm_sessions m) sid") (auto simp: sm_get_session_def active_count_def table_ok_def)
qed

theorem sessions_found_witness: "\<exists>ob. sm_get_session 7 flag_manager = Some ob \<and> so_stream_id ob = 7"
proof -
  have "7 \<in> fst ` set (sm_sessions flag_manager)" by (simp add: flag_simps)
  with sessions_found [OF flag_run, of 7] show ?thesis by blast
qed



text \<open>A start that throws leaves its handler uncalled, with nothing pending that would call it.\<close>

lemma start_threw_silent:
  "\<exists>m. manager_run flag_ops [Stream_Request 7 JNull JNull True 1, Start_Threw 0 1] m \<and> sm_replies m = [] \<and> sm_starting m = []"
proof -
  let ?m = "sm_start flag_ops 7 JNull JNull 1 new_manager"
  have "manager_run flag_ops ([] @ [Stream_Request 7 JNull JNull True 1]) (sm_stream_handler flag_ops 7 JNull JNull True 1 new_manager)"
    by (rule run_step [OF run_start request])
  moreover have "map_of (sm_starting ?m) 0 = Some 1" by (simp add: flag_simps)
  ultimately have "manager_run flag_ops (([] @ [Stream_Request 7 JNull JNull True 1]) @ [Start_Threw 0 1]) (sm_start_threw 0 ?m)"
    by (intro run_step [OF _ start_threw]) (simp_all add: sm_stream_handler_def)
  moreover have "sm_replies (sm_start_threw 0 ?m) = [] \<and> sm_starting (sm_start_threw 0 ?m) = []"
    by (simp add: flag_simps sm_start_threw_def)
  ultimately show ?thesis by (intro exI [of _ "sm_start_threw 0 ?m"]) simp
qed

text \<open>C16: While no stream identifier is used for a second session, a session that has started and was not told to
  stop is the one its stream leads to, and when it ends by itself its entry goes and the server is told to close
  that stream.\<close>

theorem own_end_closes_stream:
  assumes "manager_run ops es m" and "distinct (started_ids es)"
    and "lock i m = Some ob" and "so_on_end ob" and "so_stream_id ob \<notin> set (stopped_ids es)"
  shows "sm_get_session (so_stream_id ob) m = Some ob \<and>
    sm_get_session (so_stream_id ob) (sm_destroy ops i m) = None \<and>
    sm_closed (sm_destroy ops i m) = sm_closed m @ [so_stream_id ob]"
proof -
  have "facts m i = Some (so_stream_id ob, True)" using assms(3,4) by (simp add: facts_def)
  from once_own [OF once_ok_run [OF assms(1,2)] this assms(5)] destroy_views(1) [OF this, where ops = ops] assms(3,4)
  show ?thesis by (simp add: sm_get_session_def sm_destroy_def sm_stop_def Let_def)
qed

theorem own_end_closes_stream_witness: "sm_closed (sm_destroy flag_ops 0 flag_manager) = [7]"
proof -
  let ?ob = "\<lparr>so_stream_id = 7, so_session = [], so_on_end = True, so_state = True\<rparr>"
  have "lock 0 flag_manager = Some ?ob" "sm_closed flag_manager = []" by (simp_all add: flag_simps)
  with own_end_closes_stream [OF flag_run, of 0 ?ob] show ?thesis by simp
qed

text \<open>
  Without that premise it fails. A session that was told to stop lives on until its coroutines are done;
  when the stream identifier is in use again by then, its listener, which knows its stream only by
  the identifier, stops the new session.
\<close>

theorem old_end_stops_successor:
  "\<exists>m ob. manager_run flag_ops
      [Stream_Request 7 JNull JNull True 1, Session_Started 0 (exec_bool True), Stream_Request 7 JNull JNull False 2,
       Stream_Request 7 JNull JNull True 3, Session_Started 1 (exec_bool True), Session_Gone 0] m \<and>
    lock 1 m = Some ob \<and> so_state ob = False \<and> sm_get_session 7 m = None"
proof -
  let ?stop = "sm_stop flag_ops 7 (Some 2) flag_manager"
  let ?again = "sm_start flag_ops 7 JNull JNull 3 ?stop"
  let ?up = "sm_started 1 (exec_bool True) ?again"
  have r1: "manager_run flag_ops ([Stream_Request 7 JNull JNull True 1, Session_Started 0 (exec_bool True)] @
      [Stream_Request 7 JNull JNull False 2]) ?stop"
    using run_step [OF flag_run request, of 7 JNull JNull False 2] by (simp add: sm_stream_handler_def)
  have r2: "manager_run flag_ops (([Stream_Request 7 JNull JNull True 1, Session_Started 0 (exec_bool True)] @
      [Stream_Request 7 JNull JNull False 2]) @ [Stream_Request 7 JNull JNull True 3]) ?again"
    using run_step [OF r1 request, of 7 JNull JNull True 3] by (simp add: sm_stream_handler_def)
  have "1 \<in> fst ` set (sm_starting ?again)"
    by (simp add: flag_simps sm_stop_def Let_def update_object_def)
  from run_step [OF r2 started [OF this]]
  have r3: "manager_run flag_ops ((([Stream_Request 7 JNull JNull True 1, Session_Started 0 (exec_bool True)] @
      [Stream_Request 7 JNull JNull False 2]) @ [Stream_Request 7 JNull JNull True 3]) @
      [Session_Started 1 (exec_bool True)]) ?up" .
  have up: "lock 0 ?up \<noteq> None" "0 \<notin> fst ` set (sm_starting ?up)"
    by (simp_all add: flag_simps sm_stop_def Let_def update_object_def)
  have "lock 1 (sm_destroy flag_ops 0 ?up) =
      Some \<lparr>so_stream_id = 7, so_session = [], so_on_end = True, so_state = False\<rparr>"
    "sm_get_session 7 (sm_destroy flag_ops 0 ?up) = None"
    by (simp_all add: flag_simps sm_stop_def Let_def update_object_def sm_destroy_def)
  with run_step [OF r3 gone [OF up]] show ?thesis by fastforce
qed

end
