(* ===== verification/File_Download.thy ===== *)
theory File_Download
  imports Client_State Filesystem Stream_Manager_Correct
begin

text \<open>
  Streamed downloads, \<^verbatim>\<open>extensions/fs/file_download_session.cpp\<close>: a file is sent in chunks while less
  than a window of octets is unacknowledged. Continuations posted to the event loop and timers are counters and flags of the
  state; whether the bandwidth limit asks for a delay is an argument. A disk that stops giving octets is an event.
\<close>

section \<open>State\<close>

datatype session_state = IDLE | STARTING | IN_PROGRESS | COMPLETED | CANCELLED | FAILED | TIMED_OUT

datatype stop_reason = SERVER_STOP | CLIENT_STOP | LINK_LOST

text \<open>
  \<open>d_rest\<close> is what is still to be read from the file; \<open>d_eof\<close> and \<open>d_bad\<close> are the flags of the stream, the second
  for a read that failed; \<open>d_chunks\<close> is what was handed to the client; \<open>d_posted\<close> counts the posted calls of
  \<open>send_next_chunk\<close>.
\<close>

record download =
  d_stream_id :: stream_id
  d_path :: string
  d_open :: bool
  d_rest :: "byte list"
  d_eof :: bool
  d_bad :: bool
  d_file_size :: u64
  d_transferred :: u64
  d_chunk_size :: u64
  d_in_flight :: u64
  d_window_size :: u64
  d_waiting :: bool
  d_ack_timer :: bool
  d_completion_timer :: bool
  d_rate_timer :: bool
  d_bandwidth :: u64
  d_state :: session_state
  d_stopping :: bool
  d_self :: bool
  d_posted :: nat
  d_chunks :: "byte list list"
  d_received :: u64

definition file_download_session :: "transfer_config \<Rightarrow> download" where
  "file_download_session cfg =
     \<lparr>d_stream_id = cf_stream_id cfg, d_path = cf_file_path cfg, d_open = False, d_rest = [], d_eof = False, d_bad = False,
      d_file_size = 0, d_transferred = 0, d_chunk_size = cf_chunk_size cfg, d_in_flight = 0,
      d_window_size = cf_window_size cfg, d_waiting = False, d_ack_timer = False, d_completion_timer = False,
      d_rate_timer = False, d_bandwidth = cf_max_bandwidth_mbps cfg, d_state = IDLE, d_stopping = False, d_self = False,
      d_posted = 0, d_chunks = [], d_received = 0\<rparr>"

section \<open>Operations\<close>

text \<open>What the checks of \<open>start\<close> find: the content and the size are those of the file at that moment.\<close>

datatype file_found = Missing | Irregular | Not_Readable | Found "byte list"

definition start_response :: "u64 \<Rightarrow> exec_result" where
  "start_response chunk_size =
     set_field PAYLOAD (j_obj [(''chunk_size'', JUInt chunk_size)])
       (set_field PARAMETERS (j_obj [(''chunk_size'', JUInt chunk_size)]) (new_message OK))"

definition d_start :: "file_found \<Rightarrow> download \<Rightarrow> exec_result \<times> download" where
  "d_start found d =
     (case found of
        Missing \<Rightarrow> (exec_error False ''File not found'', d\<lparr>d_state := FAILED\<rparr>)
      | Irregular \<Rightarrow> (exec_error False ''Not a regular file'', d\<lparr>d_state := FAILED\<rparr>)
      | Not_Readable \<Rightarrow> (exec_error False ''Failed to open file for reading'', d\<lparr>d_state := FAILED\<rparr>)
      | Found content \<Rightarrow>
          (start_response (d_chunk_size d),
           d\<lparr>d_open := True, d_rest := content, d_eof := False, d_bad := False, d_file_size := of_nat (length content),
             d_state := IN_PROGRESS, d_self := True, d_posted := Suc (d_posted d)\<rparr>))"

definition d_stop :: "stop_reason \<Rightarrow> download \<Rightarrow> bool \<times> download" where
  "d_stop reason d =
     (if d_stopping d then (False, d)
      else
        (True, d\<lparr>d_stopping := True, d_ack_timer := False, d_completion_timer := False, d_rate_timer := False,
           d_self := False, d_open := False,
           d_state := (case reason of
             SERVER_STOP \<Rightarrow> (if d_transferred d \<ge> d_file_size d \<and> d_file_size d > 0 then COMPLETED else CANCELLED)
           | CLIENT_STOP \<Rightarrow> (if d_state d = FAILED \<or> d_state d = TIMED_OUT then d_state d else CANCELLED)
           | LINK_LOST \<Rightarrow> CANCELLED)\<rparr>))"

definition start_ack_timeout :: "download \<Rightarrow> download" where
  "start_ack_timeout d = d\<lparr>d_ack_timer := True\<rparr>"

definition d_post :: "download \<Rightarrow> download" where
  "d_post d = d\<lparr>d_posted := Suc (d_posted d)\<rparr>"

definition d_complete :: "download \<Rightarrow> download" where
  "d_complete d = d\<lparr>d_state := COMPLETED, d_completion_timer := True\<rparr>"

text \<open>
  \<open>read\<close> of a chunk: what it gives, and the stream afterwards. A failing read gives nothing and is no end of the file, and
  so do all later ones.
\<close>

definition d_read :: "download \<Rightarrow> byte list \<times> download" where
  "d_read d =
     (if d_bad d then ([], d)
      else let n = unat (d_chunk_size d) in
      (take n (d_rest d), d\<lparr>d_rest := drop n (d_rest d), d_eof := length (d_rest d) < n\<rparr>))"

text \<open>The steps are those of the comments in the code.\<close>

definition send_next_chunk :: "bool \<Rightarrow> download \<Rightarrow> download" where
  "send_next_chunk delayed d =
     (if d_state d \<noteq> IN_PROGRESS \<or> \<not> d_open d \<or> d_eof d then
        (if d_in_flight d = 0 then
           (if d_state d = IN_PROGRESS then d_complete d
            else if d_state d = COMPLETED then d
            else snd (d_stop CLIENT_STOP d))
         else start_ack_timeout (d\<lparr>d_waiting := True\<rparr>))
      else if d_in_flight d \<ge> d_window_size d then start_ack_timeout (d\<lparr>d_waiting := True\<rparr>)
      else
        let (bytes, d1) = d_read d in
        if bytes \<noteq> [] then
          (let n = of_nat (length bytes);
               d2 = d1\<lparr>d_chunks := d_chunks d1 @ [bytes], d_transferred := d_transferred d1 + n,
                       d_in_flight := d_in_flight d1 + n\<rparr>
           in if d_in_flight d2 < d_window_size d2 then
                (if d_bandwidth d2 > 0 \<and> delayed then d2\<lparr>d_rate_timer := True\<rparr> else d_post d2)
              else start_ack_timeout (d2\<lparr>d_waiting := True\<rparr>))
        else if d_in_flight d1 = 0 then (if d_state d1 = IN_PROGRESS then d_complete d1 else d1)
        else start_ack_timeout (d1\<lparr>d_waiting := True\<rparr>))"

definition on_chunk_acknowledged :: "u64 \<Rightarrow> download \<Rightarrow> download" where
  "on_chunk_acknowledged ack_bytes d =
     (if d_in_flight d \<ge> ack_bytes then
        let d1 = d\<lparr>d_in_flight := d_in_flight d - ack_bytes\<rparr> in
        if d_waiting d1 \<and> d_in_flight d1 < d_window_size d1 then
          (let d2 = d1\<lparr>d_waiting := False, d_ack_timer := False\<rparr> in
           if \<not> d_eof d2 \<and> d_state d2 = IN_PROGRESS then d_post d2
           else if d_in_flight d2 = 0 then
             (if d_state d2 = IN_PROGRESS \<and> d_transferred d2 \<ge> d_file_size d2 then d_complete d2
              else if d_state d2 \<noteq> COMPLETED then snd (d_stop CLIENT_STOP d2)
              else d2)
           else d2)
        else d1
      else d)"

text \<open>\<open>value("bytes", 0)\<close> throws for a member that is no number; what is not an object is ignored.\<close>

definition d_handle_input :: "json \<Rightarrow> download \<Rightarrow> download option" where
  "d_handle_input body d =
     (if \<not> j_is_object body then Some d
      else case (case j_find ''bytes'' body of None \<Rightarrow> Some 0 | Some v \<Rightarrow> json_to_size v) of
        None \<Rightarrow> None
      | Some ack_bytes \<Rightarrow>
          (let d1 = d\<lparr>d_received := d_received d + ack_bytes\<rparr> in
           Some (on_chunk_acknowledged (if ack_bytes > 0 then ack_bytes else d_chunk_size d1) d1)))"

text \<open>The handlers of the three timers.\<close>

definition d_ack_timeout :: "download \<Rightarrow> download" where
  "d_ack_timeout d =
     (if d_waiting d then snd (d_stop CLIENT_STOP (d\<lparr>d_state := TIMED_OUT, d_ack_timer := False\<rparr>))
      else d\<lparr>d_ack_timer := False\<rparr>)"

definition d_completion_timeout :: "download \<Rightarrow> download" where
  "d_completion_timeout d =
     (let d1 = d\<lparr>d_completion_timer := False\<rparr> in
      if d_self d1 then snd (d_stop CLIENT_STOP (d1\<lparr>d_state := TIMED_OUT\<rparr>)) else d1)"

definition d_rate_timeout :: "bool \<Rightarrow> download \<Rightarrow> download" where
  "d_rate_timeout delayed d = send_next_chunk delayed (d\<lparr>d_rate_timer := False\<rparr>)"

definition download_ops :: "'f fs_ops \<Rightarrow> string \<Rightarrow> 'f \<Rightarrow> download session_ops" where
  "download_ops ops base f =
     \<lparr>op_create = (\<lambda>sid name prms.
        case download_config ops base f sid name prms of
          Some (Some cfg) \<Rightarrow> Some (file_download_session cfg) | _ \<Rightarrow> None),
      op_stop = (\<lambda>d. snd (d_stop SERVER_STOP d)),
      op_input = (\<lambda>body d. case d_handle_input body d of None \<Rightarrow> d | Some d' \<Rightarrow> d')\<rparr>"

section \<open>Runs\<close>

datatype download_event =
    D_Posted bool
  | D_Rate_Timer bool
  | D_Ack json
  | D_Ack_Timer
  | D_Completion_Timer
  | D_Stop stop_reason
  | D_Read_Fails

definition d_step :: "download_event \<Rightarrow> download \<Rightarrow> download" where
  "d_step e d =
     (case e of
        D_Posted delayed \<Rightarrow>
          (case d_posted d of 0 \<Rightarrow> d | Suc n \<Rightarrow> send_next_chunk delayed (d\<lparr>d_posted := n\<rparr>))
      | D_Rate_Timer delayed \<Rightarrow> (if d_rate_timer d then d_rate_timeout delayed d else d)
      | D_Ack body \<Rightarrow> (case d_handle_input body d of None \<Rightarrow> d | Some d' \<Rightarrow> d')
      | D_Ack_Timer \<Rightarrow> (if d_ack_timer d then d_ack_timeout d else d)
      | D_Completion_Timer \<Rightarrow> (if d_completion_timer d then d_completion_timeout d else d)
      | D_Stop reason \<Rightarrow> snd (d_stop reason d)
      | D_Read_Fails \<Rightarrow> d\<lparr>d_bad := True\<rparr>)"

definition d_run :: "download_event list \<Rightarrow> download \<Rightarrow> download" where
  "d_run es d = fold d_step es d"

section \<open>Invariant\<close>

text \<open>
  Of a started download of a file with this content: what was sent and what is left make up the file; no
  more than a window and a chunk are in flight; it is complete only with everything sent or after a failed read, and when not
  yet stopped with everything acknowledged; the flags that say it is over agree.
\<close>

definition download_ok :: "byte list \<Rightarrow> download \<Rightarrow> bool" where
  "download_ok content d \<longleftrightarrow>
     concat (d_chunks d) @ d_rest d = content \<and>
     unat (d_transferred d) = length (concat (d_chunks d)) \<and>
     unat (d_file_size d) = length content \<and> 0 < unat (d_chunk_size d) \<and>
     unat (d_in_flight d) < unat (d_window_size d) + unat (d_chunk_size d) \<and> d_in_flight d \<le> d_transferred d \<and>
     (d_eof d \<longrightarrow> d_rest d = []) \<and>
     (d_state d = COMPLETED \<longrightarrow> (d_rest d = [] \<or> d_bad d) \<and> (d_stopping d \<or> d_in_flight d = 0)) \<and>
     (d_stopping d \<longrightarrow> \<not> d_open d \<and> \<not> d_self d \<and> d_state d \<noteq> IN_PROGRESS) \<and>
     (\<not> d_stopping d \<longrightarrow> d_open d \<and> d_self d)"

lemma download_ok_start:
  assumes "d = file_download_session cfg" and "cf_chunk_size cfg \<noteq> 0" and "length content < 2 ^ 64"
  shows "download_ok content (snd (d_start (Found content) d))"
  using assms unat_word_of_nat_eq [of "length content", where 'a = 64] word_neq_0_conv [of "cf_chunk_size cfg"]
  by (simp add: download_ok_def d_start_def file_download_session_def unat_gt_0)

text \<open>Changes of what the invariant does not speak of.\<close>

lemma download_ok_cong:
  assumes "download_ok content d"
    and "d_chunks d' = d_chunks d" "d_rest d' = d_rest d" "d_transferred d' = d_transferred d" "d_file_size d' = d_file_size d"
      "d_chunk_size d' = d_chunk_size d" "d_window_size d' = d_window_size d" "d_in_flight d' = d_in_flight d"
      "d_eof d' = d_eof d" "d_bad d' = d_bad d" "d_state d' = d_state d" "d_stopping d' = d_stopping d" "d_open d' = d_open d"
      "d_self d' = d_self d"
  shows "download_ok content d'"
  using assms(1) unfolding download_ok_def assms(2-14) .

lemma parts_length: "download_ok content d \<Longrightarrow> length (concat (d_chunks d)) + length (d_rest d) = length content"
  by (metis download_ok_def length_append)

lemma all_sent:
  assumes "download_ok content d" and "d_file_size d \<le> d_transferred d"
  shows "d_rest d = []"
proof -
  have "length content \<le> length (concat (d_chunks d))" using assms by (simp add: download_ok_def word_le_nat_alt)
  with parts_length [OF assms(1)] have "length (d_rest d) = 0" by linarith
  then show ?thesis by simp
qed

lemma download_ok_stop: "download_ok content d \<Longrightarrow> download_ok content (snd (d_stop reason d))"
proof -
  assume ok: "download_ok content d"
  from all_sent [OF ok] ok show ?thesis by (auto simp: d_stop_def download_ok_def split: stop_reason.split)
qed

lemma download_ok_flags:
  assumes "download_ok content d"
  shows "download_ok content (start_ack_timeout (d\<lparr>d_waiting := b\<rparr>))" "download_ok content (d_post d)"
    "download_ok content (d\<lparr>d_rate_timer := b\<rparr>)" "download_ok content (d\<lparr>d_posted := n\<rparr>)"
    "download_ok content (d\<lparr>d_waiting := b, d_ack_timer := b'\<rparr>)" "download_ok content (d\<lparr>d_ack_timer := b\<rparr>)"
    "download_ok content (d\<lparr>d_completion_timer := b\<rparr>)" "download_ok content (d\<lparr>d_received := r\<rparr>)"
  by (rule download_ok_cong [OF assms]; simp add: start_ack_timeout_def d_post_def)+

lemma download_ok_bad: "download_ok content d \<Longrightarrow> download_ok content (d\<lparr>d_bad := True\<rparr>)"
  by (auto simp: download_ok_def)

lemma download_ok_complete:
  "download_ok content d \<Longrightarrow> d_state d = IN_PROGRESS \<Longrightarrow> d_rest d = [] \<or> d_bad d \<Longrightarrow> d_in_flight d = 0 \<Longrightarrow>
    download_ok content (d_complete d)"
  by (auto simp: download_ok_def d_complete_def)

text \<open>A chunk is read and sent.\<close>

lemma read_some:
  assumes "d_read d = (bytes, d1)" and "bytes \<noteq> []"
  shows "bytes = take (unat (d_chunk_size d)) (d_rest d)" and "\<not> d_bad d"
    and "d1 = d\<lparr>d_rest := drop (unat (d_chunk_size d)) (d_rest d), d_eof := length (d_rest d) < unat (d_chunk_size d)\<rparr>"
  using assms by (auto simp: d_read_def Let_def split: if_splits)

lemma download_ok_read:
  assumes ok: "download_ok content d" and "d_state d = IN_PROGRESS" and "d_in_flight d < d_window_size d"
    and r: "d_read d = (bytes, d1)" "bytes \<noteq> []" and d2: "d2 = d1\<lparr>d_chunks := d_chunks d1 @ [bytes],
      d_transferred := d_transferred d1 + of_nat (length bytes), d_in_flight := d_in_flight d1 + of_nat (length bytes)\<rparr>"
  shows "download_ok content d2"
proof -
  note b = read_some(1,3) [OF r]
  note len = parts_length [OF ok]
  have "unat (d_file_size d) < 2 ^ LENGTH(64)" by (rule unsigned_less)
  with ok have "length content < 2 ^ 64" by (simp add: download_ok_def)
  with ok len b have t: "unat (d_transferred d + of_nat (length bytes)) = unat (d_transferred d) + length bytes"
    by (intro unat_add_of_nat) (simp add: download_ok_def)
  have le: "unat (d_in_flight d) \<le> unat (d_transferred d)" using ok by (simp add: download_ok_def word_le_nat_alt)
  with \<open>length content < 2 ^ 64\<close> ok len b
  have f: "unat (d_in_flight d + of_nat (length bytes)) = unat (d_in_flight d) + length bytes"
    by (intro unat_add_of_nat) (simp add: download_ok_def)
  have "unat (d_in_flight d) < unat (d_window_size d)" using assms(3) by (simp add: word_less_nat_alt)
  with ok t f le assms(2) show ?thesis
    by (auto simp: download_ok_def d2 b word_le_nat_alt)
qed

lemma download_ok_exhausted:
  assumes ok: "download_ok content d" and "d_state d = IN_PROGRESS" and r: "d_read d = ([], d1)"
  shows "download_ok content d1" "d_rest d1 = [] \<or> d_bad d1" "d_state d1 = IN_PROGRESS"
    "d1 = d\<lparr>d_eof := d_eof d1\<rparr>" "d_eof d1 \<longrightarrow> d_rest d1 = []"
proof -
  have "0 < unat (d_chunk_size d)" using ok by (simp add: download_ok_def)
  with r have d1: "d_bad d \<and> d1 = d \<or> d_rest d = [] \<and> d1 = d\<lparr>d_eof := True\<rparr>"
    by (auto simp: d_read_def Let_def split: if_splits)
  with ok assms(2) show "download_ok content d1" "d_rest d1 = [] \<or> d_bad d1" "d_state d1 = IN_PROGRESS"
    "d1 = d\<lparr>d_eof := d_eof d1\<rparr>" "d_eof d1 \<longrightarrow> d_rest d1 = []"
    by (auto simp: download_ok_def)
qed

lemma download_ok_send: "download_ok content d \<Longrightarrow> download_ok content (send_next_chunk delayed d)"
proof -
  assume ok: "download_ok content d"
  show ?thesis
  proof (cases "d_state d \<noteq> IN_PROGRESS \<or> \<not> d_open d \<or> d_eof d")
    case True
    have "d_rest d = []" if "d_state d = IN_PROGRESS" using True that ok by (auto simp: download_ok_def)
    with True ok show ?thesis
      by (auto simp: send_next_chunk_def download_ok_flags(1) download_ok_complete download_ok_stop)
  next
    case False
    obtain bytes d1 where r: "d_read d = (bytes, d1)" by (rule prod.exhaust)
    show ?thesis
    proof (cases "d_in_flight d \<ge> d_window_size d")
      case True
      with False ok show ?thesis by (simp add: send_next_chunk_def download_ok_flags(1))
    next
      case w: False
      show ?thesis
      proof (cases "bytes = []")
        case True
        have p: "d_state d = IN_PROGRESS" using False by simp
        note e = download_ok_exhausted(1-3) [OF ok p r [unfolded True]]
        with False w r True show ?thesis
          by (simp add: send_next_chunk_def download_ok_flags(1) download_ok_complete)
      next
        case ne: False
        note r2 = download_ok_read [OF ok _ _ r ne refl]
        from False w have "d_state d = IN_PROGRESS" "d_in_flight d < d_window_size d" by auto
        note ok2 = r2 [OF this]
        from False w r ne show ?thesis
          by (simp add: send_next_chunk_def Let_def ok2 download_ok_flags del: take_eq_Nil)
      qed
    qed
  qed
qed

lemma download_ok_ack: "download_ok content d \<Longrightarrow> download_ok content (on_chunk_acknowledged n d)"
proof (cases "n \<le> d_in_flight d")
  case True
  assume ok: "download_ok content d"
  let ?d1 = "d\<lparr>d_in_flight := d_in_flight d - n\<rparr>"
  have s: "unat (d_in_flight d - n) = unat (d_in_flight d) - unat n"
    using True by (simp add: unat_sub word_le_nat_alt)
  have "n = 0" if "d_in_flight d = 0" using True that by simp
  with ok s have ok1: "download_ok content ?d1" by (auto simp: download_ok_def word_le_nat_alt)
  note rest = all_sent [OF ok]
  have ok2: "download_ok content (?d1\<lparr>d_waiting := False, d_ack_timer := False\<rparr>)" by (rule download_ok_flags(5) [OF ok1])
  show ?thesis
    using True ok1 ok2 rest
    by (auto simp: on_chunk_acknowledged_def Let_def download_ok_flags(2) download_ok_stop intro!: download_ok_complete)
qed (simp add: on_chunk_acknowledged_def)

lemma download_ok_input: "download_ok content d \<Longrightarrow> d_handle_input body d = Some d' \<Longrightarrow> download_ok content d'"
  by (auto simp: d_handle_input_def Let_def download_ok_ack download_ok_flags(8) split: if_splits option.splits)

lemma download_ok_step: "download_ok content d \<Longrightarrow> download_ok content (d_step e d)"
proof (cases e)
  case (D_Ack_Timer)
  assume ok: "download_ok content d"
  have "download_ok content (d\<lparr>d_state := TIMED_OUT, d_ack_timer := False\<rparr>)"
    using ok by (auto simp: download_ok_def)
  with ok D_Ack_Timer show ?thesis by (simp add: d_step_def d_ack_timeout_def download_ok_stop download_ok_flags(6))
next
  case D_Completion_Timer
  assume ok: "download_ok content d"
  have "download_ok content (d\<lparr>d_completion_timer := False, d_state := TIMED_OUT\<rparr>)"
    using ok by (auto simp: download_ok_def)
  with ok D_Completion_Timer show ?thesis
    by (simp add: d_step_def d_completion_timeout_def Let_def download_ok_stop download_ok_flags(7))
qed (auto simp: d_step_def d_rate_timeout_def download_ok_send download_ok_flags download_ok_input download_ok_stop download_ok_bad
      split: nat.split option.split)

lemma download_ok_run: "download_ok content d \<Longrightarrow> download_ok content (d_run es d)"
  unfolding d_run_def by (induction es arbitrary: d) (simp_all add: download_ok_step)

section \<open>Progress\<close>

text \<open>An acknowledgement of everything in flight, as the server sends it.\<close>

definition ack_all :: "download \<Rightarrow> download_event" where
  "ack_all d = D_Ack (j_obj [(''bytes'', JUInt (d_in_flight d))])"

lemma ack_all_step:
  "d_in_flight d \<noteq> 0 \<Longrightarrow> d_step (ack_all d) d =
     on_chunk_acknowledged (d_in_flight d) (d\<lparr>d_received := d_received d + d_in_flight d\<rparr>)"
  by (simp add: d_step_def ack_all_def d_handle_input_def j_obj_def json_to_size_def Let_def word_neq_0_conv)

text \<open>The state between a posted continuation and the next, when the server keeps up.\<close>

definition ready_to_send :: "download \<Rightarrow> bool" where
  "ready_to_send d \<longleftrightarrow>
     d_state d = IN_PROGRESS \<and> d_open d \<and> d_posted d = (if d_rate_timer d then 0 else 1) \<and> d_in_flight d = 0 \<and>
     \<not> d_waiting d \<and> 0 < d_window_size d"

lemma run_Cons: "d_run (e # es) d = d_run es (d_step e d)"
  by (simp add: d_run_def)

lemma read_facts:
  assumes ok: "download_ok content d" and r: "d_read d = (bytes, d1)" and "bytes \<noteq> []"
  shows "0 < (of_nat (length bytes) :: u64)" and "length (d_rest d1) < length (d_rest d)"
    and "d1 = d\<lparr>d_rest := d_rest d1, d_eof := d_eof d1\<rparr>"
proof -
  note b = read_some(1,3) [OF r assms(3)]
  have "unat (d_file_size d) < 2 ^ LENGTH(64)" by (rule unsigned_less)
  with ok parts_length [OF ok] b have "length bytes < 2 ^ 64" by (simp add: download_ok_def)
  then have "unat (of_nat (length bytes) :: u64) = length bytes" by (intro unat_word_of_nat_eq) simp
  with assms(3) show "0 < (of_nat (length bytes) :: u64)" by (simp add: word_less_nat_alt)
  show "length (d_rest d1) < length (d_rest d)" "d1 = d\<lparr>d_rest := d_rest d1, d_eof := d_eof d1\<rparr>"
    using b assms(3) by auto
qed

text \<open>
  A round of the transfer: the continuation or the timer of the bandwidth limit, whether or not the limit asks for another delay,
  and the acknowledgement of what it sent.
\<close>

definition next_turn :: "bool \<Rightarrow> download \<Rightarrow> download_event" where
  "next_turn delayed d = (if d_rate_timer d then D_Rate_Timer delayed else D_Posted delayed)"

definition serve_round :: "bool \<Rightarrow> download \<Rightarrow> download" where
  "serve_round delayed d =
     (let d1 = d_step (next_turn delayed d) d in if d_in_flight d1 = 0 then d1 else d_step (ack_all d1) d1)"

primrec serve :: "bool list \<Rightarrow> download \<Rightarrow> download" where
  "serve [] d = d"
| "serve (delayed # ds) d = (if d_state d = COMPLETED then d else serve ds (serve_round delayed d))"

lemma serve_completed: "d_state d = COMPLETED \<Longrightarrow> serve ds d = d"
  by (cases ds) simp_all

lemma turn_reads: "D_Read_Fails \<noteq> next_turn delayed d" "D_Read_Fails \<noteq> ack_all d"
  by (simp_all add: next_turn_def ack_all_def)

lemma serve_is_run: "\<exists>es. D_Read_Fails \<notin> set es \<and> serve ds d = d_run es d"
proof (induction ds arbitrary: d)
  case Nil
  show ?case by (intro exI [of _ "[]"]) (simp add: d_run_def)
next
  case (Cons delayed ds)
  let ?e = "next_turn delayed d"
  have "serve_round delayed d = d_run (if d_in_flight (d_step ?e d) = 0 then [?e] else [?e, ack_all (d_step ?e d)]) d"
    by (simp add: serve_round_def d_run_def Let_def)
  moreover have "D_Read_Fails \<notin> set (if d_in_flight (d_step ?e d) = 0 then [?e] else [?e, ack_all (d_step ?e d)])"
    using turn_reads by simp
  ultimately have "\<exists>es. D_Read_Fails \<notin> set es \<and> serve_round delayed d = d_run es d" by blast
  then obtain es where es: "D_Read_Fails \<notin> set es" "serve_round delayed d = d_run es d" by blast
  moreover obtain es' where es': "D_Read_Fails \<notin> set es'" "serve ds (serve_round delayed d) = d_run es' (serve_round delayed d)"
    using Cons by blast
  ultimately have "serve ds (serve_round delayed d) = d_run (es @ es') d" by (simp add: d_run_def)
  moreover have "d = d_run [] d" by (simp add: d_run_def)
  ultimately show ?case using es(1) es'(1)
    by (cases "d_state d = COMPLETED") (auto intro: exI [of _ "[]"] exI [of _ "es @ es'"])
qed

lemma download_round:
  assumes ok: "download_ok content d" and ready: "ready_to_send d" and "\<not> d_eof d"
    and r: "d_read d = (bytes, d1)" and ne: "bytes \<noteq> []"
  shows "d_state (serve_round delayed d) = COMPLETED \<or> ready_to_send (serve_round delayed d) \<and>
    download_ok content (serve_round delayed d) \<and> length (d_rest (serve_round delayed d)) < length (d_rest d)"
proof -
  let ?n = "of_nat (length bytes) :: u64"
  let ?d0 = "d\<lparr>d_posted := 0, d_rate_timer := False\<rparr>" and ?r = "serve_round delayed d"
  have ok0: "download_ok content ?d0" by (rule download_ok_flags(3) [OF download_ok_flags(4) [OF ok]])
  obtain d1' where r0: "d_read ?d0 = (bytes, d1')" using r by (cases "d_bad d") (simp_all add: d_read_def Let_def)
  note f = read_facts [OF ok0 r0 ne]
  let ?d2 = "d1'\<lparr>d_chunks := d_chunks d1' @ [bytes], d_transferred := d_transferred d1' + ?n, d_in_flight := d_in_flight d1' + ?n\<rparr>"
  have d1': "d_state d1' = IN_PROGRESS" "d_open d1'" "d_in_flight d1' = 0" "\<not> d_waiting d1'" "d_window_size d1' = d_window_size d"
    "d_posted d1' = 0" "\<not> d_rate_timer d1'"
    using ready by (subst f(3), simp add: ready_to_send_def)+
  have w: "0 < d_window_size d" using ready by (simp add: ready_to_send_def)
  have turn: "d_step (next_turn delayed d) d = send_next_chunk delayed ?d0"
    using ready by (auto simp: d_step_def next_turn_def d_rate_timeout_def ready_to_send_def intro!: arg_cong [where f = "send_next_chunk delayed"])
  have step: "send_next_chunk delayed ?d0 =
      (if ?n < d_window_size d then if d_bandwidth ?d2 > 0 \<and> delayed then ?d2\<lparr>d_rate_timer := True\<rparr> else d_post ?d2
       else start_ack_timeout (?d2\<lparr>d_waiting := True\<rparr>))"
    using ready assms(3) r0 ne d1' w by (simp add: ready_to_send_def send_next_chunk_def Let_def not_le)
  have ok2: "download_ok content ?d2"
    by (rule download_ok_read [OF ok0 _ _ r0 ne refl]) (use ready in \<open>simp_all add: ready_to_send_def\<close>)
  have all: "d_file_size ?d2 \<le> d_transferred ?d2" if "d_eof d1'"
  proof -
    have "d_rest ?d2 = []" using ok2 that by (simp add: download_ok_def)
    with parts_length [OF ok2] have "length content \<le> length (concat (d_chunks ?d2))" by (simp del: concat_append)
    with ok2 show ?thesis unfolding word_le_nat_alt download_ok_def by presburger
  qed
  define sent where "sent = (if ?n < d_window_size d then if d_bandwidth ?d2 > 0 \<and> delayed then ?d2\<lparr>d_rate_timer := True\<rparr> else d_post ?d2
       else start_ack_timeout (?d2\<lparr>d_waiting := True\<rparr>))"
  have round: "?r = (if d_in_flight sent = 0 then sent else d_step (ack_all sent) sent)"
    unfolding serve_round_def turn step sent_def Let_def ..
  have "download_ok content ?r" by (simp add: serve_round_def Let_def download_ok_step [OF ok] download_ok_step)
  then show ?thesis
    using f(1,2) d1' w all unfolding round sent_def
    by (cases "?n < d_window_size d"; cases "d_eof d1'"; cases "d_bandwidth ?d2 > 0 \<and> delayed")
      (simp_all add: ack_all_step d_post_def start_ack_timeout_def on_chunk_acknowledged_def Let_def
        d_complete_def ready_to_send_def word_neq_0_conv)
qed

lemma download_last_round:
  assumes ok: "download_ok content d" and ready: "ready_to_send d" and r: "d_read d = (bytes, d1)" and over: "d_eof d \<or> bytes = []"
  shows "d_state (serve_round delayed d) = COMPLETED"
proof -
  let ?d0 = "d\<lparr>d_posted := 0, d_rate_timer := False\<rparr>"
  have turn: "d_step (next_turn delayed d) d = send_next_chunk delayed ?d0"
    using ready by (auto simp: d_step_def next_turn_def d_rate_timeout_def ready_to_send_def intro!: arg_cong [where f = "send_next_chunk delayed"])
  obtain d2 where r0: "d_read ?d0 = (bytes, d2)" using r by (cases "d_bad d") (simp_all add: d_read_def Let_def)
  have ready0: "d_state ?d0 = IN_PROGRESS" "d_open ?d0" "d_in_flight ?d0 = 0" "d_window_size ?d0 \<noteq> 0" "d_eof ?d0 = d_eof d"
    using ready by (simp_all add: ready_to_send_def word_neq_0_conv)
  have "d_state (send_next_chunk delayed ?d0) = COMPLETED \<and> d_in_flight (send_next_chunk delayed ?d0) = 0"
  proof (cases "d_eof d")
    case True
    with ready0 show ?thesis by (simp add: send_next_chunk_def d_complete_def)
  next
    case False
    with over r0 have r0: "d_read ?d0 = ([], d2)" by simp
    have ok0: "download_ok content ?d0" by (rule download_ok_flags(3) [OF download_ok_flags(4) [OF ok]])
    note e = download_ok_exhausted(3,4) [OF ok0 ready0(1) r0]
    from e(2) ready0(3) have "d_in_flight d2 = 0" by (metis (no_types, lifting) download.select_convs(10) download.surjective download.update_convs(5))
    with False ready0 r0 e(1) show ?thesis by (simp add: send_next_chunk_def d_complete_def)
  qed
  then show ?thesis by (simp add: serve_round_def turn)
qed

lemma serve_completes:
  "download_ok content d \<Longrightarrow> ready_to_send d \<Longrightarrow> length (d_rest d) < length ds \<Longrightarrow> d_state (serve ds d) = COMPLETED"
proof (induction ds arbitrary: d)
  case (Cons delayed ds)
  obtain bytes d1 where r: "d_read d = (bytes, d1)" by (rule prod.exhaust)
  show ?case
  proof (cases "d_eof d \<or> bytes = []")
    case True
    have "d_state (serve_round delayed d) = COMPLETED" by (rule download_last_round [OF Cons.prems(1,2) r True])
    then show ?thesis by (simp add: serve_completed)
  next
    case False
    then have "\<not> d_eof d" "bytes \<noteq> []" by auto
    from download_round [OF Cons.prems(1,2) this(1) r this(2), of delayed] Cons.IH [of "serve_round delayed d"] Cons.prems(3)
    show ?thesis by (auto simp: serve_completed)
  qed
qed simp

text \<open>
  Before the end of the file a running download is never stuck: its next turn is posted, or set on the timer of the bandwidth
  limit, or a full window waits for acknowledgements, and not for ever.
\<close>

definition going_on :: "download \<Rightarrow> bool" where
  "going_on d \<longleftrightarrow>
     (d_state d = IN_PROGRESS \<and> \<not> d_eof d \<and> \<not> d_bad d \<longrightarrow>
        0 < d_posted d \<or> d_rate_timer d \<or> d_waiting d \<and> d_ack_timer d \<and> d_window_size d \<le> d_in_flight d) \<and>
     (\<not> d_stopping d \<longrightarrow> d_state d = IN_PROGRESS \<or> d_state d = COMPLETED)"

lemma going_on_stop: "(\<not> d_stopping d \<or> d_state d \<noteq> IN_PROGRESS) \<Longrightarrow> going_on (snd (d_stop reason d))"
  by (auto simp: going_on_def d_stop_def split: stop_reason.split)

lemma read_empty: "d_read d = ([], d1) \<Longrightarrow> 0 < unat (d_chunk_size d) \<Longrightarrow> d_bad d1 \<or> d_eof d1"
  by (auto simp: d_read_def Let_def split: if_splits)

lemma going_on_send:
  assumes ok: "download_ok content d" and "d_stopping d \<or> d_state d = IN_PROGRESS \<or> d_state d = COMPLETED"
  shows "going_on (send_next_chunk delayed d)"
proof -
  have s: "d_stopping d \<longrightarrow> d_state d \<noteq> IN_PROGRESS" "\<not> d_stopping d \<longrightarrow> d_open d" "0 < unat (d_chunk_size d)"
    using ok by (auto simp: download_ok_def)
  obtain bytes d1 where r: "d_read d = (bytes, d1)" by (rule prod.exhaust)
  have k: "d_state d1 = d_state d" "d_stopping d1 = d_stopping d" "d_in_flight d1 = d_in_flight d" "d_window_size d1 = d_window_size d"
    using r by (auto simp: d_read_def Let_def split: if_splits)
  have e: "bytes = [] \<longrightarrow> d_bad d1 \<or> d_eof d1" using read_empty [OF _ s(3)] r by blast
  show ?thesis
    using s(1,2) k e assms(2) r going_on_stop [of d CLIENT_STOP]
    by (auto simp: send_next_chunk_def Let_def going_on_def start_ack_timeout_def d_post_def d_complete_def)
qed

lemma going_on_ack:
  assumes g: "going_on d" and st: "d_stopping d \<longrightarrow> d_state d \<noteq> IN_PROGRESS"
  shows "going_on (on_chunk_acknowledged n d)"
proof (cases "n \<le> d_in_flight d")
  case True
  define d1 where "d1 = d\<lparr>d_in_flight := d_in_flight d - n\<rparr>"
  define d2 where "d2 = d1\<lparr>d_waiting := False, d_ack_timer := False\<rparr>"
  have full: "\<not> (d_waiting d1 \<and> d_in_flight d1 < d_window_size d1) \<Longrightarrow> going_on d1"
    using g by (auto simp: d1_def going_on_def not_less)
  have eof: "\<not> (\<not> d_eof d2 \<and> d_state d2 = IN_PROGRESS) \<Longrightarrow> going_on d2"
    using g by (auto simp: d1_def d2_def going_on_def)
  have post: "going_on (d_post d2)" and complete: "going_on (d_complete d2)"
    using g by (simp_all add: d1_def d2_def going_on_def d_post_def d_complete_def)
  have "\<not> d_stopping d2 \<or> d_state d2 \<noteq> IN_PROGRESS" using st by (simp add: d1_def d2_def)
  note stop = going_on_stop [OF this, of CLIENT_STOP]
  have "on_chunk_acknowledged n d =
      (if d_waiting d1 \<and> d_in_flight d1 < d_window_size d1 then
         if \<not> d_eof d2 \<and> d_state d2 = IN_PROGRESS then d_post d2
         else if d_in_flight d2 = 0 then
           if d_state d2 = IN_PROGRESS \<and> d_transferred d2 \<ge> d_file_size d2 then d_complete d2
           else if d_state d2 \<noteq> COMPLETED then snd (d_stop CLIENT_STOP d2) else d2
         else d2
       else d1)"
    unfolding on_chunk_acknowledged_def Let_def d2_def d1_def using True by simp
  with full eof post complete stop show ?thesis by presburger
qed (use g in \<open>simp add: on_chunk_acknowledged_def\<close>)

lemma going_on_step:
  assumes ok: "download_ok content d" and g: "going_on d"
  shows "going_on (d_step e d)"
proof -
  have st: "d_stopping d \<or> d_state d = IN_PROGRESS \<or> d_state d = COMPLETED" using g by (auto simp: going_on_def)
  have s: "d_stopping d \<longrightarrow> d_state d \<noteq> IN_PROGRESS" using ok by (simp add: download_ok_def)
  have send: "going_on (send_next_chunk delayed (d\<lparr>d_posted := n\<rparr>))" "going_on (send_next_chunk delayed (d\<lparr>d_rate_timer := b\<rparr>))"
    for delayed n b
    using st by (auto intro!: going_on_send [OF download_ok_flags(4) [OF ok]] going_on_send [OF download_ok_flags(3) [OF ok]])
  have received: "going_on (d\<lparr>d_received := n\<rparr>)" for n using g by (simp add: going_on_def)
  have "going_on d'" if "d_handle_input body d = Some d'" for body d'
    using that g going_on_ack [OF received] going_on_ack [OF g] s by (auto simp: d_handle_input_def Let_def split: if_splits option.splits)
  then have input: "going_on (case d_handle_input body d of None \<Rightarrow> d | Some d' \<Rightarrow> d')" for body
    using g by (simp split: option.split)
  have stop: "going_on (snd (d_stop reason d))" for reason by (rule going_on_stop) (use s in blast)
  have timed: "going_on (snd (d_stop CLIENT_STOP (d\<lparr>d_state := TIMED_OUT, d_ack_timer := b\<rparr>)))"
    "going_on (snd (d_stop CLIENT_STOP (d\<lparr>d_completion_timer := b, d_state := TIMED_OUT\<rparr>)))" for b
    by (rule going_on_stop; simp)+
  show ?thesis
    using g send input stop timed
    by (cases e) (auto simp: d_step_def d_rate_timeout_def d_ack_timeout_def d_completion_timeout_def Let_def going_on_def
        split: nat.split)
qed

lemma going_on_run: "download_ok content d \<Longrightarrow> going_on d \<Longrightarrow> going_on (d_run es d)"
  unfolding d_run_def by (induction es arbitrary: d) (simp_all add: going_on_step download_ok_step)

section \<open>What no event changes\<close>

text \<open>A read fails only when the disk does.\<close>

lemma bad_step: "D_Read_Fails \<noteq> e \<Longrightarrow> d_bad (d_step e d) = d_bad d"
  by (cases e) (auto simp: d_step_def send_next_chunk_def start_ack_timeout_def d_complete_def d_stop_def d_rate_timeout_def
      d_read_def d_handle_input_def on_chunk_acknowledged_def Let_def d_ack_timeout_def d_completion_timeout_def d_post_def
      split: nat.split option.split)

lemma bad_run: "D_Read_Fails \<notin> set es \<Longrightarrow> d_bad (d_run es d) = d_bad d"
  unfolding d_run_def by (induction es arbitrary: d) (simp_all add: bad_step)

lemma stopped_step: "d_stopping d \<Longrightarrow> \<not> d_open d \<Longrightarrow>
    d_stopping (d_step e d) \<and> \<not> d_open (d_step e d) \<and> d_chunks (d_step e d) = d_chunks d"
  by (cases e) (auto simp: d_step_def send_next_chunk_def start_ack_timeout_def d_complete_def d_stop_def d_rate_timeout_def
      d_handle_input_def on_chunk_acknowledged_def Let_def d_ack_timeout_def d_completion_timeout_def d_post_def
      split: nat.split option.split)

lemma stopped_run: "d_stopping d \<Longrightarrow> \<not> d_open d \<Longrightarrow> d_chunks (d_run es d) = d_chunks d"
  unfolding d_run_def by (induction es arbitrary: d) (simp_all add: stopped_step)

text \<open>Of the stops only that of the server leaves a download completed.\<close>

lemma not_server_stopped:
  "D_Stop SERVER_STOP \<notin> set es \<Longrightarrow> (d_stopping d \<longrightarrow> d_state d \<notin> {IN_PROGRESS, COMPLETED}) \<Longrightarrow>
    d_stopping (d_run es d) \<longrightarrow> d_state (d_run es d) \<notin> {IN_PROGRESS, COMPLETED}"
proof (induction es arbitrary: d)
  case (Cons e es)
  have stop: "d_state (snd (d_stop reason d1)) \<notin> {IN_PROGRESS, COMPLETED}"
    if "reason \<noteq> SERVER_STOP" "d_stopping d1 \<longrightarrow> d_state d1 \<notin> {IN_PROGRESS, COMPLETED}" for reason d1
    using that by (cases reason) (auto simp: d_stop_def)
  have "d_stopping (d_step e d) \<longrightarrow> d_state (d_step e d) \<notin> {IN_PROGRESS, COMPLETED}"
    using Cons.prems stop
    by (cases e) (auto simp: d_step_def send_next_chunk_def start_ack_timeout_def d_complete_def d_rate_timeout_def d_read_def
        d_handle_input_def on_chunk_acknowledged_def Let_def d_ack_timeout_def d_completion_timeout_def d_post_def
        split: nat.split option.split)
  with Cons show ?case by (simp add: run_Cons)
qed (simp add: d_run_def)

definition limits :: "download \<Rightarrow> u64 \<times> u64" where
  "limits d = (d_window_size d, d_chunk_size d)"

lemma limits_updates [simp]:
  "limits (d\<lparr>d_rest := r\<rparr>) = limits d" "limits (d\<lparr>d_eof := b\<rparr>) = limits d" "limits (d\<lparr>d_chunks := cs\<rparr>) = limits d"
  "limits (d\<lparr>d_transferred := n\<rparr>) = limits d" "limits (d\<lparr>d_in_flight := n\<rparr>) = limits d" "limits (d\<lparr>d_waiting := b\<rparr>) = limits d"
  "limits (d\<lparr>d_ack_timer := b\<rparr>) = limits d" "limits (d\<lparr>d_rate_timer := b\<rparr>) = limits d" "limits (d\<lparr>d_posted := k\<rparr>) = limits d"
  "limits (d\<lparr>d_state := st\<rparr>) = limits d" "limits (d\<lparr>d_completion_timer := b\<rparr>) = limits d" "limits (d\<lparr>d_received := n\<rparr>) = limits d"
  "limits (snd (d_stop reason d)) = limits d" "limits (start_ack_timeout d) = limits d" "limits (d_post d) = limits d"
  "limits (d_complete d) = limits d" "limits (snd (d_read d)) = limits d" "limits (d\<lparr>d_bad := b\<rparr>) = limits d"
  by (simp_all add: limits_def d_stop_def start_ack_timeout_def d_post_def d_complete_def d_read_def Let_def)

lemma limits_send: "limits (send_next_chunk delayed d) = limits d"
  using limits_updates(17) [of d] by (auto simp: send_next_chunk_def Let_def simp del: limits_updates(17) split: prod.splits)

lemma limits_step: "limits (d_step e d) = limits d"
proof -
  have ack: "limits (on_chunk_acknowledged n d) = limits d" for n d by (simp add: on_chunk_acknowledged_def Let_def)
  show ?thesis
    by (cases e) (auto simp: d_step_def d_rate_timeout_def limits_send d_handle_input_def ack d_ack_timeout_def
        d_completion_timeout_def Let_def split: nat.split option.split)
qed

lemma limits_run: "limits (d_run es d) = limits d"
  unfolding d_run_def by (induction es arbitrary: d) (simp_all add: limits_step)

section \<open>Sessions of the stream manager\<close>

text \<open>What holds from the creation of a session on, whether it is started or not.\<close>

definition download_flags :: "download \<Rightarrow> bool" where
  "download_flags d \<longleftrightarrow>
     d_chunk_size d = DEFAULT_CHUNK_SIZE \<and> d_self d = d_open d \<and> (d_stopping d \<longrightarrow> \<not> d_open d \<and> d_state d \<noteq> IN_PROGRESS)"

lemma download_flags_stop: "download_flags d \<Longrightarrow> download_flags (snd (d_stop reason d))"
  by (auto simp: download_flags_def d_stop_def split: stop_reason.split)

lemma download_flags_input: "download_flags d \<Longrightarrow> d_handle_input body d = Some d' \<Longrightarrow> download_flags d'"
proof -
  assume flags: "download_flags d" and h: "d_handle_input body d = Some d'"
  have "download_flags (on_chunk_acknowledged n d)" if "download_flags d" for n d
    using that
    by (auto simp: on_chunk_acknowledged_def Let_def download_flags_def d_post_def d_complete_def d_stop_def)
  moreover have "download_flags (d\<lparr>d_received := r\<rparr>)" for r using flags by (simp add: download_flags_def)
  ultimately show ?thesis using flags h by (auto simp: d_handle_input_def Let_def split: if_splits option.splits)
qed

lemma download_config_chunk: "download_config ops base f sid name prms = Some (Some cfg) \<Longrightarrow> cf_chunk_size cfg = DEFAULT_CHUNK_SIZE"
  by (auto simp: download_config_def Let_def new_transfer_config_def split: if_splits option.splits bool.splits)

interpretation downloads: session_class "download_ops ops base f" download_flags for ops base f
proof unfold_locales
  fix sid name prms d
  assume "op_create (download_ops ops base f) sid name prms = Some d"
  then obtain cfg where "download_config ops base f sid name prms = Some (Some cfg)" "d = file_download_session cfg"
    by (auto simp: download_ops_def split: option.splits)
  then show "download_flags d" by (auto simp: download_flags_def file_download_session_def dest: download_config_chunk)
qed (auto simp: download_ops_def download_flags_stop download_flags_input split: option.split)

section \<open>Properties\<close>

definition started_download :: "transfer_config \<Rightarrow> byte list \<Rightarrow> download" where
  "started_download cfg content = snd (d_start (Found content) (file_download_session cfg))"

lemma started_ok:
  assumes "cf_chunk_size cfg \<noteq> 0" and "length content < 2 ^ 64"
  shows "download_ok content (started_download cfg content)"
  using download_ok_start [OF refl assms] by (simp add: started_download_def)

lemma started_limits: "limits (started_download cfg content) = (cf_window_size cfg, cf_chunk_size cfg)"
  by (simp add: limits_def started_download_def d_start_def file_download_session_def)

text \<open>C7: A download of a readable file, whatever continuations, acknowledgements, timers, stops and failing reads follow, has
  handed the client a beginning of the file, in order; never are a window and a chunk of octets unacknowledged; and when it
  is marked completed the whole file was sent, unless a read failed, and all of it is acknowledged, unless the server
  stopped it.\<close>

theorem download_faithful:
  assumes "cf_chunk_size cfg \<noteq> 0" and "length content < 2 ^ 64"
  shows "let d = d_run es (started_download cfg content) in
    prefix (concat (d_chunks d)) content \<and>
    unat (d_in_flight d) < unat (cf_window_size cfg) + unat (cf_chunk_size cfg) \<and>
    (d_state d = COMPLETED \<longrightarrow> (concat (d_chunks d) = content \<or> D_Read_Fails \<in> set es) \<and>
      (d_in_flight d = 0 \<or> D_Stop SERVER_STOP \<in> set es))"
proof -
  let ?start = "started_download cfg content"
  let ?d = "d_run es ?start"
  have start: "\<not> d_bad ?start" "\<not> d_stopping ?start" by (simp_all add: started_download_def d_start_def file_download_session_def)
  then have bad: "d_bad ?d \<longrightarrow> D_Read_Fails \<in> set es"
    and stop: "d_stopping ?d \<and> d_state ?d = COMPLETED \<longrightarrow> D_Stop SERVER_STOP \<in> set es"
    using bad_run [of es ?start] not_server_stopped [of es ?start] by auto
  have ok: "download_ok content ?d" by (rule download_ok_run [OF started_ok [OF assms]])
  have "limits ?d = (cf_window_size cfg, cf_chunk_size cfg)" by (simp add: limits_run started_limits)
  then have lim: "d_window_size ?d = cf_window_size cfg" "d_chunk_size ?d = cf_chunk_size cfg" by (simp_all add: limits_def)
  from ok have "concat (d_chunks ?d) @ d_rest ?d = content" by (simp add: download_ok_def)
  then have "prefix (concat (d_chunks ?d)) content" by (rule prefixI [OF sym])
  with ok lim bad stop show ?thesis by (auto simp: Let_def download_ok_def)
qed

definition small_download :: transfer_config where
  "small_download = new_transfer_config\<lparr>cf_chunk_size := 2, cf_window_size := 3\<rparr>"

theorem download_faithful_witness:
  "let d = d_run [D_Posted False, D_Posted False] (started_download small_download [1, 2, 3]) in
     prefix (concat (d_chunks d)) [1, 2, 3] \<and> unat (d_in_flight d) < unat (cf_window_size small_download) + unat (cf_chunk_size small_download) \<and>
     (d_state d = COMPLETED \<longrightarrow> concat (d_chunks d) = [1, 2, 3] \<and> d_in_flight d = 0)"
  using download_faithful [of small_download "[1, 2, 3]" "[D_Posted False, D_Posted False]"]
  by (simp add: small_download_def)

lemmas corner_simps = started_download_def d_start_def file_download_session_def small_download_def new_transfer_config_def
  d_run_def d_step_def send_next_chunk_def d_read_def d_post_def start_ack_timeout_def d_complete_def d_stop_def d_handle_input_def
  on_chunk_acknowledged_def j_obj_def json_to_size_def

text \<open>C26: A download gets to the end of its file. Whatever happens, as long as no read fails, a download that is not stopped, has
  no turn pending and waits for no acknowledgement has sent the whole file. And a server that acknowledges after each turn
  all that is in flight has the download marked completed, every octet sent, in at most one turn more than the file has octets,
  whichever turns the bandwidth limit delays.\<close>

theorem download_completes:
  assumes "cf_chunk_size cfg \<noteq> 0" and "cf_window_size cfg \<noteq> 0" and "length content < 2 ^ 64"
    and "D_Read_Fails \<notin> set es" and "length content < length turns"
  shows "(let d = d_run es (started_download cfg content) in
      d_posted d = 0 \<and> \<not> d_rate_timer d \<and> d_in_flight d = 0 \<and> \<not> d_stopping d \<longrightarrow> concat (d_chunks d) = content) \<and>
    (let d = serve turns (started_download cfg content) in d_state d = COMPLETED \<and> concat (d_chunks d) = content)"
proof -
  let ?start = "started_download cfg content" and ?d = "d_run es (started_download cfg content)"
  have fresh: "\<not> d_bad ?start" "going_on ?start"
    by (simp_all add: started_download_def d_start_def file_download_session_def going_on_def)
  have ok: "download_ok content ?start" by (rule started_ok [OF assms(1,3)])
  have ready: "ready_to_send ?start" "d_rest ?start = content"
    using assms(2) by (simp_all add: ready_to_send_def started_download_def d_start_def file_download_session_def word_neq_0_conv)
  have "d_state (serve turns ?start) = COMPLETED" by (rule serve_completes [OF ok ready(1)]) (simp add: ready(2) assms(5))
  moreover obtain es' where "D_Read_Fails \<notin> set es'" "serve turns ?start = d_run es' ?start" using serve_is_run by blast
  ultimately have served: "d_state (serve turns ?start) = COMPLETED \<and> concat (d_chunks (serve turns ?start)) = content"
    using download_ok_run [OF ok, of es'] bad_run [of es' ?start] fresh(1) by (auto simp: download_ok_def)
  have "concat (d_chunks ?d) = content" if "d_posted ?d = 0" "\<not> d_rate_timer ?d" "d_in_flight ?d = 0" "\<not> d_stopping ?d"
  proof -
    have "\<not> d_bad ?d" using bad_run [OF assms(4), of ?start] fresh(1) by simp
    moreover have "d_window_size ?d \<noteq> 0" using limits_run [of es ?start] assms(2) unfolding started_limits by (simp add: limits_def)
    ultimately have "d_rest ?d = []"
      using going_on_run [OF ok fresh(2), of es] download_ok_run [OF ok, of es] that
      by (auto simp: going_on_def download_ok_def)
    then show ?thesis using download_ok_run [OF ok, of es] by (simp add: download_ok_def)
  qed
  with served show ?thesis by (simp add: Let_def)
qed

theorem download_completes_witness:
  "concat (d_chunks (d_run [D_Posted False, D_Posted False, D_Ack (j_obj [(''bytes'', JUInt 1)]), D_Ack (j_obj [(''bytes'', JUInt 2)])]
      (started_download small_download [1, 2, 3]))) = [1, 2, 3] \<and>
   d_state (serve [True, False, True, False] (started_download small_download [1, 2, 3])) = COMPLETED"
proof -
  let ?es = "[D_Posted False, D_Posted False, D_Ack (j_obj [(''bytes'', JUInt 1)]), D_Ack (j_obj [(''bytes'', JUInt 2)])]"
  let ?d = "d_run ?es (started_download small_download [1, 2, 3])"
  have "d_posted ?d = 0 \<and> \<not> d_rate_timer ?d \<and> d_in_flight ?d = 0 \<and> \<not> d_stopping ?d" by (simp add: corner_simps)
  moreover have "cf_chunk_size small_download \<noteq> 0" "cf_window_size small_download \<noteq> 0" by (simp_all add: small_download_def)
  ultimately show ?thesis
    using download_completes [of small_download "[1, 2, 3]" ?es "[True, False, True, False]"] by (simp add: Let_def)
qed

text \<open>A stop of a running download closes the file, cancels every timer and lets go of the session, and whatever is
  still delivered to it sends nothing more; a second stop is refused.\<close>

theorem download_stop_final:
  assumes "\<not> d_stopping d"
  shows "let d' = snd (d_stop reason d) in
    \<not> d_open d' \<and> \<not> d_self d' \<and> \<not> (d_ack_timer d' \<or> d_completion_timer d' \<or> d_rate_timer d') \<and>
    d_chunks (d_run es d') = d_chunks d \<and> d_stop reason2 d' = (False, d')"
  using assms stopped_run [of "snd (d_stop reason d)" es] by (simp add: d_stop_def Let_def)

theorem download_stop_final_witness:
  "let d' = snd (d_stop SERVER_STOP (started_download small_download [1, 2, 3])) in
    \<not> d_open d' \<and> \<not> d_self d' \<and> \<not> (d_ack_timer d' \<or> d_completion_timer d' \<or> d_rate_timer d') \<and>
    d_chunks (d_run [D_Posted False] d') = d_chunks (started_download small_download [1, 2, 3]) \<and> d_stop CLIENT_STOP d' = (False, d')"
  by (rule download_stop_final)
    (simp add: started_download_def d_start_def file_download_session_def small_download_def new_transfer_config_def)

section \<open>Corners\<close>

text \<open>
  The last chunks were sent and one of two acknowledgements came: the window is open, so nothing waits any more, and no
  second look at the end of the file follows. The download has nothing pending and never ends.
\<close>

lemma unfinished_at_end_of_file:
  "let d = d_run [D_Posted False, D_Posted False, D_Posted False, D_Ack (j_obj [(''bytes'', JUInt 2)]), D_Ack (j_obj [(''bytes'', JUInt 1)])]
      (started_download (small_download\<lparr>cf_window_size := 100\<rparr>) [1, 2, 3])
   in d_state d = IN_PROGRESS \<and> concat (d_chunks d) = [1, 2, 3] \<and> d_in_flight d = 0 \<and>
      d_posted d = 0 \<and> \<not> d_ack_timer d \<and> \<not> d_completion_timer d \<and> \<not> d_rate_timer d"
  by (simp add: corner_simps)

text \<open>A read error ends the download as completed, with a part of the file sent.\<close>

lemma read_error_completes:
  "let d = d_run [D_Posted False, D_Read_Fails, D_Ack (j_obj [(''bytes'', JUInt 2)]), D_Posted False] (started_download small_download [1, 2, 3])
   in d_state d = COMPLETED \<and> concat (d_chunks d) = [1, 2] \<and> \<not> d_eof d"
  by (simp add: corner_simps)

text \<open>A server stop marks a download completed whose last octets nobody acknowledged.\<close>

lemma stopped_unacknowledged:
  "let d = d_run [D_Posted False, D_Posted False, D_Stop SERVER_STOP] (started_download small_download [1, 2, 3])
   in d_state d = COMPLETED \<and> d_in_flight d = 3"
  by (simp add: corner_simps)

text \<open>A continuation posted before a stop is still delivered, and nothing keeps the session it refers to.\<close>

lemma posted_outlives_session:
  "let d = snd (d_stop SERVER_STOP (d_run [D_Posted False] (started_download small_download [1, 2, 3])))
   in d_posted d = 1 \<and> \<not> d_self d"
  by (simp add: corner_simps)

text \<open>An empty file is sent completely, and the stop of the server ends it as cancelled.\<close>

lemma empty_file_cancelled:
  "let d = d_run [D_Posted False] (started_download small_download [])
   in d_state d = COMPLETED \<and> d_state (snd (d_stop SERVER_STOP d)) = CANCELLED"
  by (simp add: corner_simps)

end
