(* ===== verification/File_Upload.thy ===== *)
theory File_Upload
  imports File_Download
begin

text \<open>
  Streamed uploads, \<^verbatim>\<open>extensions/fs/file_upload_session.cpp\<close>: chunks are written to a file and acknowledged in
  batches. Whether a write succeeds and whether the bandwidth limit delays an acknowledgement are arguments; that the disk keeps octets
  of the stream's buffer from the file, or the file from being removed, are events. What is counted for an
  acknowledgement is in \<open>Session_Traffic\<close>; the progress in the log is not modelled.
\<close>

section \<open>State\<close>

text \<open>
  \<open>u_written\<close> is what the stream took for the file, and after the stream was closed what is in it; \<open>u_exists\<close> whether the file
  is there; \<open>u_lost\<close> how many octets in the buffer of the stream the disk will refuse when the stream is closed; \<open>u_locked\<close> whether
  removing the file fails; \<open>u_acks\<close> what was handed to the client; \<open>u_rate_timer\<close> the octets an acknowledgement waiting for its
  timer was made for.
\<close>

record upload =
  u_stream_id :: stream_id
  u_path :: string
  u_open :: bool
  u_written :: "byte list"
  u_exists :: bool
  u_lost :: nat
  u_locked :: bool
  u_expected :: u64
  u_bytes :: u64
  u_chunk_size :: u64
  u_since_ack :: u64
  u_ack_number :: u32
  u_threshold :: u64
  u_bandwidth :: u64
  u_rate_timer :: "u64 option"
  u_receive_timeout :: nat
  u_receive_timer :: bool
  u_state :: session_state
  u_stopping :: bool
  u_self :: bool
  u_acks :: "json list"

definition DEFAULT_RECEIVE_TIMEOUT :: nat where
  "DEFAULT_RECEIVE_TIMEOUT = 30"

definition file_upload_session :: "transfer_config \<Rightarrow> upload" where
  "file_upload_session cfg =
     \<lparr>u_stream_id = cf_stream_id cfg, u_path = cf_file_path cfg, u_open = False, u_written = [], u_exists = False, u_lost = 0, u_locked = False,
      u_expected = cf_expected_size cfg, u_bytes = 0, u_chunk_size = cf_chunk_size cfg, u_since_ack = 0,
      u_ack_number = 0, u_threshold = 0, u_bandwidth = cf_max_bandwidth_mbps cfg, u_rate_timer = None,
      u_receive_timeout = DEFAULT_RECEIVE_TIMEOUT, u_receive_timer = False, u_state = IDLE, u_stopping = False,
      u_self = False, u_acks = []\<rparr>"

section \<open>Operations\<close>

datatype file_opened = Directory_Failed | Open_Failed | Opened_File

text \<open>
  The time for a chunk at the configured bandwidth and half of it again, in whole seconds, computed exactly where the code
  uses doubles. For the chunk size that sessions are created with it is below a second for every bandwidth.
\<close>

definition receive_timeout_for :: "u64 \<Rightarrow> u64 \<Rightarrow> nat" where
  "receive_timeout_for chunk_size mbps =
     (if mbps > 0 then max DEFAULT_RECEIVE_TIMEOUT ((unat chunk_size * 12) div (unat mbps * 1000000) + 10)
      else DEFAULT_RECEIVE_TIMEOUT)"

definition start_receive_timeout :: "upload \<Rightarrow> upload" where
  "start_receive_timeout u = u\<lparr>u_receive_timer := True\<rparr>"

text \<open>\<open>create_directories\<close> throws when the directory cannot be made.\<close>

definition u_start :: "file_opened \<Rightarrow> upload \<Rightarrow> exec_result option \<times> upload" where
  "u_start opened u =
     (case opened of
        Directory_Failed \<Rightarrow> (None, u\<lparr>u_state := STARTING\<rparr>)
      | Open_Failed \<Rightarrow> (Some (exec_error False ''Failed to open file for writing''), u\<lparr>u_state := FAILED\<rparr>)
      | Opened_File \<Rightarrow>
          (Some (start_response (u_chunk_size u)),
           start_receive_timeout
             (u\<lparr>u_open := True, u_exists := True, u_written := [],
                u_receive_timeout := receive_timeout_for (u_chunk_size u) (u_bandwidth u),
                u_threshold := calculate_ack_threshold (u_expected u) (u_chunk_size u),
                u_state := IN_PROGRESS, u_self := True\<rparr>)))"

text \<open>\<open>close\<close> of the stream: what the disk refuses of its buffer is lost, which the session does not look at.\<close>

definition u_close :: "upload \<Rightarrow> upload" where
  "u_close u =
     (if u_open u then u\<lparr>u_open := False, u_written := take (length (u_written u) - u_lost u) (u_written u)\<rparr> else u)"

text \<open>\<open>std::filesystem::exists\<close> and \<open>remove\<close> without an error code: when they fail they throw.\<close>

definition u_remove :: "upload \<Rightarrow> bool option \<times> upload" where
  "u_remove u = (if u_locked u then (None, u) else (Some True, u\<lparr>u_exists := False\<rparr>))"

text \<open>
  Every way to stop removes the file, but the stop of the server after the upload is complete. \<open>None\<close> is the exception of the
  removal, which is the last thing a stop does.
\<close>

definition u_stop :: "stop_reason \<Rightarrow> upload \<Rightarrow> bool option \<times> upload" where
  "u_stop reason u =
     (if u_stopping u then (Some False, u)
      else
        let u1 = u_close (u\<lparr>u_stopping := True, u_receive_timer := False, u_rate_timer := None, u_self := False\<rparr>) in
        case reason of
           SERVER_STOP \<Rightarrow> (if u_state u1 = COMPLETED then (Some True, u1) else u_remove (u1\<lparr>u_state := CANCELLED\<rparr>))
         | CLIENT_STOP \<Rightarrow>
             u_remove (u1\<lparr>u_state := (if u_state u1 = FAILED \<or> u_state u1 = TIMED_OUT then u_state u1 else CANCELLED)\<rparr>)
         | LINK_LOST \<Rightarrow> u_remove (u1\<lparr>u_state := CANCELLED\<rparr>))"

lemmas u_stop_defs = u_stop_def u_close_def u_remove_def Let_def

definition ack_message :: "u32 \<Rightarrow> u64 \<Rightarrow> json" where
  "ack_message number bytes = j_obj [(''ack'', JUInt (ucast number)), (''bytes'', JUInt bytes)]"

definition push_ack :: "u64 \<Rightarrow> upload \<Rightarrow> upload" where
  "push_ack bytes u =
     u\<lparr>u_ack_number := u_ack_number u + 1, u_acks := u_acks u @ [ack_message (u_ack_number u + 1) bytes], u_since_ack := 0\<rparr>"

definition send_ack :: "bool \<Rightarrow> bool \<Rightarrow> upload \<Rightarrow> upload" where
  "send_ack delayed is_final u =
     (if u_bandwidth u > 0 \<and> \<not> is_final \<and> delayed then u\<lparr>u_rate_timer := Some (u_since_ack u)\<rparr>
      else push_ack (u_since_ack u) u)"

definition handle_upload_chunk :: "byte list \<Rightarrow> bool \<Rightarrow> bool \<Rightarrow> upload \<Rightarrow> upload" where
  "handle_upload_chunk data write_ok delayed u =
     (if u_state u \<noteq> IN_PROGRESS \<or> \<not> u_open u then u
      else if \<not> write_ok then snd (u_stop CLIENT_STOP (u\<lparr>u_state := FAILED\<rparr>))
      else
        let n = of_nat (length data);
            u1 = start_receive_timeout
              (u\<lparr>u_written := u_written u @ data, u_bytes := u_bytes u + n, u_since_ack := u_since_ack u + n\<rparr>);
            is_last_chunk = (u_expected u1 > 0 \<and> u_bytes u1 \<ge> u_expected u1);
            u2 = (if u_since_ack u1 \<ge> u_threshold u1 \<or> is_last_chunk then send_ack delayed is_last_chunk u1 else u1)
        in if is_last_chunk then u2\<lparr>u_state := COMPLETED\<rparr> else u2)"

definition u_handle_input :: "json \<Rightarrow> bool \<Rightarrow> bool \<Rightarrow> upload \<Rightarrow> upload" where
  "u_handle_input body write_ok delayed u =
     (case body of JBin data \<Rightarrow> if data \<noteq> [] then handle_upload_chunk data write_ok delayed u else u | _ \<Rightarrow> u)"

text \<open>The handlers of the two timers.\<close>

definition u_rate_timeout :: "upload \<Rightarrow> upload" where
  "u_rate_timeout u = (case u_rate_timer u of None \<Rightarrow> u | Some bytes \<Rightarrow> push_ack bytes (u\<lparr>u_rate_timer := None\<rparr>))"

definition u_receive_expired :: "upload \<Rightarrow> upload" where
  "u_receive_expired u =
     (if u_receive_timer u then snd (u_stop CLIENT_STOP (u\<lparr>u_state := TIMED_OUT, u_receive_timer := False\<rparr>)) else u)"

definition upload_ops :: "'f fs_ops \<Rightarrow> string \<Rightarrow> 'f \<Rightarrow> bool \<Rightarrow> bool \<Rightarrow> upload session_ops" where
  "upload_ops ops base f write_ok delayed =
     \<lparr>op_create = (\<lambda>sid name prms.
        case upload_config ops base f sid name prms of
          Some (Some cfg) \<Rightarrow> Some (file_upload_session cfg) | _ \<Rightarrow> None),
      op_stop = (\<lambda>u. snd (u_stop SERVER_STOP u)),
      op_input = (\<lambda>body u. u_handle_input body write_ok delayed u)\<rparr>"

section \<open>Runs\<close>

datatype upload_event =
    U_Data json bool bool
  | U_Rate_Timer
  | U_Receive_Timer
  | U_Stop stop_reason
  | U_Flush_Fails nat
  | U_Remove_Fails

definition u_step :: "upload_event \<Rightarrow> upload \<Rightarrow> upload" where
  "u_step e u =
     (case e of
        U_Data body write_ok delayed \<Rightarrow> u_handle_input body write_ok delayed u
      | U_Rate_Timer \<Rightarrow> u_rate_timeout u
      | U_Receive_Timer \<Rightarrow> u_receive_expired u
      | U_Stop reason \<Rightarrow> snd (u_stop reason u)
      | U_Flush_Fails n \<Rightarrow> (if u_open u then u\<lparr>u_lost := n\<rparr> else u)
      | U_Remove_Fails \<Rightarrow> u\<lparr>u_locked := True\<rparr>)"

definition u_run :: "upload_event list \<Rightarrow> upload \<Rightarrow> upload" where
  "u_run es u = fold u_step es u"

text \<open>What the events carry.\<close>

fun event_data :: "upload_event \<Rightarrow> byte list" where
  "event_data (U_Data (JBin data) _ _) = data"
| "event_data _ = []"

text \<open>The events in which the disk does what it is asked.\<close>

fun disk_works :: "upload_event \<Rightarrow> bool" where
  "disk_works (U_Flush_Fails n) = (n = 0)"
| "disk_works U_Remove_Fails = False"
| "disk_works _ = True"

section \<open>Invariant\<close>

text \<open>
  The octets counted are those written; while the session is in progress less than the expected size was written, and
  it is completed only with the expected size; once it is stopped the file is there just when it was completed, unless
  it could not be removed.
\<close>

definition upload_ok :: "upload \<Rightarrow> bool" where
  "upload_ok u \<longleftrightarrow>
     (u_open u \<or> u_lost u = 0 \<longrightarrow> u_bytes u = of_nat (length (u_written u))) \<and>
     (u_state u = IN_PROGRESS \<longrightarrow> u_expected u > 0 \<longrightarrow> u_bytes u < u_expected u) \<and>
     (u_state u = COMPLETED \<longrightarrow> u_expected u > 0 \<and> u_expected u \<le> u_bytes u) \<and>
     (u_stopping u \<longrightarrow> \<not> u_open u \<and> \<not> u_self u \<and> \<not> u_receive_timer u \<and> u_rate_timer u = None \<and>
        u_state u \<noteq> IN_PROGRESS \<and> (u_locked u \<or> u_exists u = (u_state u = COMPLETED))) \<and>
     (u_state u = IN_PROGRESS \<or> u_state u = COMPLETED \<longrightarrow> u_exists u) \<and> u_open u = u_self u"

lemma upload_ok_new: "upload_ok (file_upload_session cfg)"
  by (simp add: upload_ok_def file_upload_session_def)

lemma upload_ok_start: "upload_ok (snd (u_start opened (file_upload_session cfg)))"
  by (auto simp: upload_ok_def u_start_def file_upload_session_def start_receive_timeout_def split: file_opened.split)

lemma upload_ok_stop: "upload_ok u \<Longrightarrow> upload_ok (snd (u_stop reason u))"
  by (auto simp: upload_ok_def u_stop_defs Let_def split: stop_reason.split)

lemma send_ack_frame [simp]:
  "u_bytes (send_ack delayed final u) = u_bytes u" "u_written (send_ack delayed final u) = u_written u"
  "u_expected (send_ack delayed final u) = u_expected u" "u_state (send_ack delayed final u) = u_state u"
  "u_stopping (send_ack delayed final u) = u_stopping u" "u_open (send_ack delayed final u) = u_open u"
  "u_self (send_ack delayed final u) = u_self u" "u_exists (send_ack delayed final u) = u_exists u"
  "u_receive_timer (send_ack delayed final u) = u_receive_timer u" "u_threshold (send_ack delayed final u) = u_threshold u"
  "u_bandwidth (send_ack delayed final u) = u_bandwidth u"
  by (simp_all add: send_ack_def push_ack_def)

text \<open>A chunk that is accepted.\<close>

lemma accepted_chunk:
  assumes "u_state u = IN_PROGRESS" and "u_open u" and u': "u' = handle_upload_chunk data True delayed u"
  shows "u_written u' = u_written u @ data" "u_bytes u' = u_bytes u + of_nat (length data)" "u_expected u' = u_expected u"
    "u_state u' = (if u_expected u > 0 \<and> u_expected u \<le> u_bytes u + of_nat (length data) then COMPLETED else IN_PROGRESS)"
    "u_open u'" "u_stopping u' = u_stopping u" "u_self u' = u_self u" "u_exists u' = u_exists u"
    "u_bandwidth u' = u_bandwidth u"
  using assms(1,2) by (simp_all add: u' handle_upload_chunk_def start_receive_timeout_def Let_def)

lemma upload_ok_chunk: "upload_ok u \<Longrightarrow> upload_ok (handle_upload_chunk data write_ok delayed u)"
proof -
  assume ok: "upload_ok u"
  consider "u_state u \<noteq> IN_PROGRESS \<or> \<not> u_open u" | "u_state u = IN_PROGRESS" "u_open u" "\<not> write_ok"
    | "u_state u = IN_PROGRESS" "u_open u" "write_ok" by blast
  then show ?thesis
  proof cases
    case 1
    with ok show ?thesis by (simp add: handle_upload_chunk_def)
  next
    case 2
    with ok show ?thesis by (auto simp: handle_upload_chunk_def upload_ok_def u_stop_defs Let_def)
  next
    case 3
    note c = accepted_chunk [OF 3(1,2) refl, of data delayed]
    from 3 ok show ?thesis by (auto simp: upload_ok_def c not_le)
  qed
qed

lemma upload_ok_step: "upload_ok u \<Longrightarrow> upload_ok (u_step e u)"
proof (cases e)
  case (U_Data body write_ok delayed)
  assume "upload_ok u"
  with U_Data show ?thesis by (cases body) (simp_all add: u_step_def u_handle_input_def upload_ok_chunk)
next
  case U_Rate_Timer
  assume "upload_ok u"
  with U_Rate_Timer show ?thesis by (auto simp: u_step_def u_rate_timeout_def upload_ok_def push_ack_def split: option.split)
next
  case U_Receive_Timer
  assume "upload_ok u"
  with U_Receive_Timer show ?thesis
    by (auto simp: u_step_def u_receive_expired_def upload_ok_def u_stop_defs Let_def)
qed (auto simp: u_step_def upload_ok_stop, auto simp: upload_ok_def)

lemma upload_ok_run: "upload_ok u \<Longrightarrow> upload_ok (u_run es u)"
  unfolding u_run_def by (induction es arbitrary: u) (simp_all add: upload_ok_step)

interpretation uploads: session_class "upload_ops ops base f write_ok delayed" upload_ok for ops base f write_ok delayed
proof unfold_locales
  fix u body
  assume "upload_ok u"
  then have "upload_ok (u_step (U_Data body write_ok delayed) u)" by (rule upload_ok_step)
  then show "upload_ok (op_input (upload_ops ops base f write_ok delayed) body u)" by (simp add: upload_ops_def u_step_def)
qed (auto simp: upload_ops_def upload_ok_new upload_ok_stop split: option.splits)

section \<open>What is on the disk\<close>

definition active :: "upload \<Rightarrow> bool" where
  "active u \<longleftrightarrow> u_state u = IN_PROGRESS \<and> u_open u"

lemma u_run_snoc: "u_run (es @ [e]) u = u_step e (u_run es u)"
  by (simp add: u_run_def)

lemma not_accepted: "\<not> active u \<Longrightarrow> handle_upload_chunk data write_ok delayed u = u"
  by (simp add: active_def handle_upload_chunk_def)

lemma refused_chunk:
  "prefix (u_written (handle_upload_chunk data False delayed u)) (u_written u)" "\<not> active (handle_upload_chunk data False delayed u)"
  by (auto simp: active_def handle_upload_chunk_def u_stop_defs take_is_prefix)

lemma written_step:
  "active (u_step e u) \<and> active u \<and> u_written (u_step e u) = u_written u @ event_data e \<or>
   \<not> active (u_step e u) \<and> (prefix (u_written (u_step e u)) (u_written u) \<or> active u \<and> u_written (u_step e u) = u_written u @ event_data e)"
proof (cases "\<exists>data write_ok delayed. e = U_Data (JBin data) write_ok delayed \<and> data \<noteq> []")
  case True
  then obtain data write_ok delayed where e: "e = U_Data (JBin data) write_ok delayed" "data \<noteq> []" by blast
  then have s: "u_step e u = handle_upload_chunk data write_ok delayed u" by (simp add: u_step_def u_handle_input_def)
  consider "\<not> active u" | "active u" "write_ok" | "\<not> write_ok" by blast
  then show ?thesis
  proof cases
    case 2
    then have a: "u_state u = IN_PROGRESS" "u_open u" by (simp_all add: active_def)
    from accepted_chunk [OF a refl, of data delayed] 2 s e show ?thesis by (simp add: active_def)
  qed (use s e in \<open>simp_all add: not_accepted refused_chunk\<close>)
next
  case False
  then show ?thesis
    by (cases e rule: event_data.cases)
      (auto simp: u_step_def u_handle_input_def active_def u_rate_timeout_def push_ack_def u_receive_expired_def u_stop_defs
        take_is_prefix split: option.split stop_reason.split)
qed

lemma written_run:
  assumes "u_written u = []"
  shows "prefix (u_written (u_run es u)) (concat (map event_data es)) \<and>
    (active (u_run es u) \<longrightarrow> u_written (u_run es u) = concat (map event_data es))"
proof (induction es rule: rev_induct)
  case Nil
  show ?case using assms by (simp add: u_run_def)
next
  case (snoc e es)
  with written_step [of e "u_run es u"] show ?case
    by (auto simp: u_run_snoc intro: prefix_order.trans prefix_order.trans [OF _ prefixI [OF refl]])
qed

text \<open>The announced size stays, and the file is open until a stop.\<close>

definition running :: "u64 \<Rightarrow> upload \<Rightarrow> bool" where
  "running expected u \<longleftrightarrow> u_expected u = expected \<and> (u_stopping u \<or> u_open u)"

lemma running_stop: "running expected u \<Longrightarrow> running expected (snd (u_stop reason u))"
  by (auto simp: running_def u_stop_defs Let_def split: stop_reason.split)

lemma running_chunk: "running expected u \<Longrightarrow> running expected (handle_upload_chunk data write_ok delayed u)"
proof -
  assume r: "running expected u"
  then have "running expected (u\<lparr>u_state := FAILED\<rparr>)" by (simp add: running_def)
  from running_stop [OF this] r show ?thesis
    by (auto simp: handle_upload_chunk_def Let_def start_receive_timeout_def) (auto simp: running_def)
qed

lemma running_step: "running expected u \<Longrightarrow> running expected (u_step e u)"
proof (cases e)
  case (U_Data body write_ok delayed)
  assume "running expected u"
  with U_Data show ?thesis by (cases body) (simp_all add: u_step_def u_handle_input_def running_chunk)
next
  case U_Receive_Timer
  assume r: "running expected u"
  then have "running expected (u\<lparr>u_state := TIMED_OUT, u_receive_timer := False\<rparr>)" by (simp add: running_def)
  from running_stop [OF this] r show ?thesis by (simp add: U_Receive_Timer u_step_def u_receive_expired_def)
next
  case U_Rate_Timer
  assume "running expected u"
  then show ?thesis by (simp add: U_Rate_Timer u_step_def u_rate_timeout_def push_ack_def running_def split: option.split)
qed (auto simp: u_step_def running_stop, auto simp: running_def)

text \<open>Faults of the disk come from the disk.\<close>

definition sound_disk :: "upload \<Rightarrow> bool" where
  "sound_disk u \<longleftrightarrow> u_lost u = 0 \<and> \<not> u_locked u"

lemma sound_disk_step: "disk_works e \<Longrightarrow> sound_disk u \<Longrightarrow> sound_disk (u_step e u)"
  by (cases e) (auto simp: sound_disk_def u_step_def u_handle_input_def handle_upload_chunk_def u_stop_defs u_rate_timeout_def push_ack_def
      send_ack_def u_receive_expired_def start_receive_timeout_def split: json.split option.split stop_reason.split)

lemma sound_disk_run: "list_all disk_works es \<Longrightarrow> sound_disk u \<Longrightarrow> sound_disk (u_run es u)"
  unfolding u_run_def by (induction es arbitrary: u) (simp_all add: sound_disk_step)

lemma running_run: "running expected u \<Longrightarrow> running expected (u_run es u)"
  unfolding u_run_def by (induction es arbitrary: u) (simp_all add: running_step)

section \<open>Acknowledgements without a bandwidth limit\<close>

primrec numbered_acks :: "u32 \<Rightarrow> u64 list \<Rightarrow> json list" where
  "numbered_acks n [] = []"
| "numbered_acks n (b # bs) = ack_message n b # numbered_acks (n + 1) bs"

lemma numbered_acks_snoc: "numbered_acks n (bs @ [b]) = numbered_acks n bs @ [ack_message (n + of_nat (length bs)) b]"
  by (induction bs arbitrary: n) (simp_all add: ac_simps)

definition acks_ok :: "u64 list \<Rightarrow> upload \<Rightarrow> bool" where
  "acks_ok sizes u \<longleftrightarrow>
     u_bandwidth u = 0 \<and> u_rate_timer u = None \<and> u_acks u = numbered_acks 1 sizes \<and>
     u_ack_number u = of_nat (length sizes) \<and> sum_list sizes + u_since_ack u = u_bytes u \<and>
     (u_since_ack u = 0 \<or> u_state u \<noteq> COMPLETED \<and> u_since_ack u < u_threshold u)"

lemma acks_ok_stop: "acks_ok sizes u \<Longrightarrow> u_state u \<noteq> COMPLETED \<or> u_since_ack u = 0 \<Longrightarrow> acks_ok sizes (snd (u_stop reason u))"
  by (auto simp: acks_ok_def u_stop_defs Let_def split: stop_reason.split)

lemma acks_ok_chunk:
  assumes "acks_ok sizes u"
  shows "\<exists>sizes'. acks_ok sizes' (handle_upload_chunk data write_ok delayed u)"
proof -
  let ?n = "of_nat (length data) :: u64"
  let ?last = "u_expected u > 0 \<and> u_bytes u + ?n \<ge> u_expected u"
  consider "u_state u \<noteq> IN_PROGRESS \<or> \<not> u_open u" | "u_state u = IN_PROGRESS" "u_open u" "\<not> write_ok"
    | "u_state u = IN_PROGRESS" "u_open u" "write_ok" "u_since_ack u + ?n \<ge> u_threshold u \<or> ?last"
    | "u_state u = IN_PROGRESS" "u_open u" "write_ok" "\<not> (u_since_ack u + ?n \<ge> u_threshold u \<or> ?last)" by blast
  then show ?thesis
  proof cases
    case 1
    with assms show ?thesis by (auto simp: handle_upload_chunk_def)
  next
    case 2
    with assms have "acks_ok sizes (u\<lparr>u_state := FAILED\<rparr>)" by (auto simp: acks_ok_def)
    then have "acks_ok sizes (snd (u_stop CLIENT_STOP (u\<lparr>u_state := FAILED\<rparr>)))" by (rule acks_ok_stop) simp
    with 2 show ?thesis by (auto simp: handle_upload_chunk_def)
  next
    case 3
    with assms have "acks_ok (sizes @ [u_since_ack u + ?n]) (handle_upload_chunk data write_ok delayed u)"
      by (auto simp: acks_ok_def handle_upload_chunk_def Let_def start_receive_timeout_def send_ack_def push_ack_def
          numbered_acks_snoc ac_simps)
    then show ?thesis by blast
  next
    case 4
    with assms have "acks_ok sizes (handle_upload_chunk data write_ok delayed u)"
      by (auto simp: acks_ok_def handle_upload_chunk_def Let_def start_receive_timeout_def not_le ac_simps)
    then show ?thesis by blast
  qed
qed

lemma acks_ok_step: "acks_ok sizes u \<Longrightarrow> \<exists>sizes'. acks_ok sizes' (u_step e u)"
proof (cases e)
  case (U_Data body write_ok delayed)
  assume "acks_ok sizes u"
  with U_Data acks_ok_chunk show ?thesis by (cases body) (auto simp: u_step_def u_handle_input_def)
next
  case U_Rate_Timer
  assume ok: "acks_ok sizes u"
  then have "u_step e u = u" by (simp add: U_Rate_Timer u_step_def u_rate_timeout_def acks_ok_def)
  with ok show ?thesis by auto
next
  case U_Receive_Timer
  assume ok: "acks_ok sizes u"
  then have "acks_ok sizes (u\<lparr>u_state := TIMED_OUT, u_receive_timer := False\<rparr>)" by (auto simp: acks_ok_def)
  from acks_ok_stop [OF this] ok U_Receive_Timer show ?thesis by (auto simp: u_step_def u_receive_expired_def)
next
  case (U_Stop reason)
  assume ok: "acks_ok sizes u"
  then have "u_state u \<noteq> COMPLETED \<or> u_since_ack u = 0" by (auto simp: acks_ok_def)
  from acks_ok_stop [OF ok this] U_Stop show ?thesis by (auto simp: u_step_def)
qed (auto simp: u_step_def acks_ok_def)

lemma acks_ok_run: "acks_ok sizes u \<Longrightarrow> \<exists>sizes'. acks_ok sizes' (u_run es u)"
  unfolding u_run_def
proof (induction es arbitrary: sizes u)
  case (Cons e es)
  from acks_ok_step [OF Cons.prems] obtain sizes' where "acks_ok sizes' (u_step e u)" ..
  from Cons.IH [OF this] show ?case by simp
qed auto

section \<open>Properties\<close>

definition started_upload :: "transfer_config \<Rightarrow> upload" where
  "started_upload cfg = snd (u_start Opened_File (file_upload_session cfg))"

lemma started_upload_facts:
  "u_written (started_upload cfg) = []" "u_state (started_upload cfg) = IN_PROGRESS" "u_open (started_upload cfg)"
  "u_bytes (started_upload cfg) = 0" "u_expected (started_upload cfg) = cf_expected_size cfg" "u_self (started_upload cfg)"
  "u_exists (started_upload cfg)" "upload_ok (started_upload cfg)" "sound_disk (started_upload cfg)"
  using upload_ok_start [of Opened_File cfg]
  by (simp_all add: started_upload_def u_start_def file_upload_session_def start_receive_timeout_def sound_disk_def)

definition small_upload :: transfer_config where
  "small_upload = new_transfer_config\<lparr>cf_chunk_size := 2, cf_expected_size := 4\<rparr>"

lemmas upload_corner_simps = started_upload_def u_start_def file_upload_session_def small_upload_def new_transfer_config_def
  u_run_def u_step_def u_handle_input_def handle_upload_chunk_def start_receive_timeout_def send_ack_def push_ack_def u_stop_defs
  u_receive_expired_def u_rate_timeout_def calculate_ack_threshold_def MAX_ACK_THRESHOLD_def

lemma run_ok: "upload_ok (u_run es (started_upload cfg))"
  by (rule upload_ok_run [OF started_upload_facts(8)])

lemma enough_octets: "n \<le> (of_nat k :: u64) \<Longrightarrow> unat n \<le> k"
  by (metis le_trans unat_of_nat mod_less_eq_dividend word_le_nat_alt)

text \<open>C10: Whatever data, timers, stops and faults of the disk reach a started upload, its file has a beginning of what was
  delivered, in order, all of it while the upload is in progress, and the file of a completed upload is there. While the disk
  keeps what the stream wrote and removes the files it is asked to, an upload is marked completed only with at least
  as many octets as were announced, and once it is stopped the file is left exactly when the upload is complete.\<close>

theorem upload_faithful:
  "let u = u_run es (started_upload cfg) in
    prefix (u_written u) (concat (map event_data es)) \<and>
    (u_state u = IN_PROGRESS \<longrightarrow> u_written u = concat (map event_data es)) \<and>
    (u_state u = COMPLETED \<longrightarrow> u_exists u) \<and>
    (list_all disk_works es \<longrightarrow>
      (u_state u = COMPLETED \<longrightarrow> unat (cf_expected_size cfg) \<le> length (u_written u)) \<and>
      (u_stopping u \<longrightarrow> u_exists u = (u_state u = COMPLETED)))"
proof -
  let ?u = "u_run es (started_upload cfg)"
  have ok: "upload_ok ?u" by (rule run_ok)
  have r: "running (cf_expected_size cfg) ?u" by (rule running_run) (simp add: running_def started_upload_facts)
  have w: "prefix (u_written ?u) (concat (map event_data es))" "active ?u \<longrightarrow> u_written ?u = concat (map event_data es)"
    using written_run [OF started_upload_facts(1), where es = es] by blast+
  have "active ?u" if "u_state ?u = IN_PROGRESS" using that ok r by (auto simp: upload_ok_def running_def active_def)
  then have progress: "u_state ?u = IN_PROGRESS \<longrightarrow> u_written ?u = concat (map event_data es)" using w(2) by blast
  have there: "u_state ?u = COMPLETED \<longrightarrow> u_exists ?u" using ok by (simp add: upload_ok_def)
  have "(u_state ?u = COMPLETED \<longrightarrow> unat (cf_expected_size cfg) \<le> length (u_written ?u)) \<and>
      (u_stopping ?u \<longrightarrow> u_exists ?u = (u_state ?u = COMPLETED))" if "list_all disk_works es"
  proof -
    have sound: "sound_disk ?u" by (rule sound_disk_run [OF that started_upload_facts(9)])
    then have bytes: "u_bytes ?u = of_nat (length (u_written ?u))" and gone: "u_stopping ?u \<longrightarrow> u_exists ?u = (u_state ?u = COMPLETED)"
      using ok by (simp_all add: sound_disk_def upload_ok_def)
    have "u_state ?u = COMPLETED \<longrightarrow> cf_expected_size cfg \<le> u_bytes ?u" using ok r by (simp add: upload_ok_def running_def)
    then show ?thesis using gone enough_octets unfolding bytes by blast
  qed
  with w(1) progress there show ?thesis unfolding Let_def by blast
qed

theorem upload_faithful_witness:
  "let u = u_run [U_Data (JBin [1, 2, 3, 4]) True False] (started_upload small_upload) in
    u_state u = COMPLETED \<and> unat (cf_expected_size small_upload) \<le> length (u_written u) \<and> prefix (u_written u) [1, 2, 3, 4]"
proof -
  let ?es = "[U_Data (JBin [1, 2, 3, 4]) True False]"
  have "u_state (u_run ?es (started_upload small_upload)) = COMPLETED"
    by (simp add: upload_corner_simps DEFAULT_MAX_BANDWIDTH_MBPS_def)
  with upload_faithful [of ?es small_upload] show ?thesis by (simp add: Let_def)
qed

text \<open>C28: Without a bandwidth limit the acknowledgements are numbered from 1, and what they acknowledge adds up to all
  the octets received but for less than the threshold, and to all of them once the upload is completed.\<close>

theorem upload_acknowledged:
  assumes "cf_max_bandwidth_mbps cfg = 0"
  shows "let u = u_run es (started_upload cfg) in
    \<exists>sizes. u_acks u = numbered_acks 1 sizes \<and> sum_list sizes + u_since_ack u = u_bytes u \<and>
      (u_since_ack u = 0 \<or> u_state u \<noteq> COMPLETED \<and> u_since_ack u < u_threshold u)"
proof -
  have "acks_ok [] (started_upload cfg)"
    using assms by (simp add: acks_ok_def started_upload_def u_start_def file_upload_session_def start_receive_timeout_def)
  from acks_ok_run [OF this] obtain sizes where "acks_ok sizes (u_run es (started_upload cfg))" by blast
  then show ?thesis by (auto simp: Let_def acks_ok_def)
qed

theorem upload_acknowledged_witness:
  "let u = u_run [U_Data (JBin [1, 2, 3]) True False, U_Data (JBin [4]) True False] (started_upload small_upload) in
    \<exists>sizes. u_acks u = numbered_acks 1 sizes \<and> sum_list sizes + u_since_ack u = u_bytes u \<and>
      (u_since_ack u = 0 \<or> u_state u \<noteq> COMPLETED \<and> u_since_ack u < u_threshold u)"
  by (rule upload_acknowledged)
    (simp add: small_upload_def new_transfer_config_def DEFAULT_MAX_BANDWIDTH_MBPS_def)

text \<open>Data that arrives and is written without an error.\<close>

definition deliver :: "byte list list \<Rightarrow> bool \<Rightarrow> upload_event list" where
  "deliver bs delayed = map (\<lambda>b. U_Data (JBin b) True delayed) bs"

lemma completed_run: "u_state u = COMPLETED \<Longrightarrow> u_run (deliver bs delayed) u = u"
  by (induction bs) (simp_all add: u_run_def deliver_def u_step_def u_handle_input_def handle_upload_chunk_def)

lemma deliver_run:
  assumes "active u" and "u_expected u > 0" and "u_bytes u = of_nat (length (u_written u))"
    and "length (u_written u) < unat (u_expected u)" and "length (u_written u @ concat bs) < 2 ^ 64"
  shows "let u' = u_run (deliver bs delayed) u in
    u_state u' = (if unat (u_expected u) \<le> length (u_written u @ concat bs) then COMPLETED else IN_PROGRESS) \<and>
    (length (u_written u @ concat bs) \<le> unat (u_expected u) \<longrightarrow> u_written u' = u_written u @ concat bs)"
  using assms
proof (induction bs arbitrary: u)
  case Nil
  then show ?case by (simp add: u_run_def deliver_def active_def)
next
  case (Cons b bs)
  have a: "u_state u = IN_PROGRESS" "u_open u" using Cons.prems(1) by (simp_all add: active_def)
  let ?u1 = "u_step (U_Data (JBin b) True delayed) u"
  have run: "u_run (deliver (b # bs) delayed) u = u_run (deliver bs delayed) ?u1" by (simp add: deliver_def u_run_def)
  show ?case
  proof (cases "b = []")
    case True
    then have "?u1 = u" by (simp add: u_step_def u_handle_input_def)
    with Cons.IH [OF Cons.prems(1-4)] Cons.prems(5) run True show ?thesis by simp
  next
    case False
    then have s: "?u1 = handle_upload_chunk b True delayed u" by (simp add: u_step_def u_handle_input_def)
    note c = accepted_chunk [OF a s]
    have bytes: "u_bytes ?u1 = of_nat (length (u_written ?u1))" by (simp add: c Cons.prems(3))
    have "length (u_written ?u1) < 2 ^ LENGTH(64)" using Cons.prems(5) by (simp add: c)
    then have n: "unat (u_bytes ?u1) = length (u_written ?u1)" unfolding bytes by (rule unat_word_of_nat_eq)
    have st: "u_state ?u1 = (if unat (u_expected u) \<le> length (u_written ?u1) then COMPLETED else IN_PROGRESS)"
      using n Cons.prems(2) by (simp add: c word_le_nat_alt)
    show ?thesis
    proof (cases "unat (u_expected u) \<le> length (u_written ?u1)")
      case True
      then have "u_state ?u1 = COMPLETED" by (simp add: st)
      moreover have "concat bs = []" if "length (u_written u @ concat (b # bs)) \<le> unat (u_expected u)"
        using that True by (simp add: c del: concat_eq_Nil_conv flip: length_0_conv)
      ultimately show ?thesis using completed_run run True by (auto simp: c Let_def simp del: concat_eq_Nil_conv)
    next
      case more: False
      then have "active ?u1" by (simp add: active_def st c)
      from Cons.IH [OF this _ bytes] more Cons.prems run show ?thesis by (auto simp: c Let_def)
    qed
  qed
qed

text \<open>C27: Data that is written without an error completes an upload exactly when it has the announced size, whatever the
  bandwidth limit does to the acknowledgements; if it is not longer than announced, all of it is in the file.\<close>

theorem upload_completes:
  assumes "cf_expected_size cfg > 0" and "length (concat bs) < 2 ^ 64"
  shows "let u = u_run (deliver bs delayed) (started_upload cfg) in
    u_state u = (if unat (cf_expected_size cfg) \<le> length (concat bs) then COMPLETED else IN_PROGRESS) \<and>
    (length (concat bs) \<le> unat (cf_expected_size cfg) \<longrightarrow> u_written u = concat bs)"
  using deliver_run [of "started_upload cfg" bs delayed] assms
  by (simp add: started_upload_facts active_def unat_gt_0 word_neq_0_conv)

theorem upload_completes_witness:
  "let u = u_run (deliver [[1, 2, 3], [4]] True) (started_upload small_upload) in
    u_state u = (if unat (cf_expected_size small_upload) \<le> length (concat [[1, 2, 3], [4 :: byte]]) then COMPLETED else IN_PROGRESS) \<and>
    (length (concat [[1, 2, 3], [4 :: byte]]) \<le> unat (cf_expected_size small_upload) \<longrightarrow> u_written u = concat [[1, 2, 3], [4]])"
  by (rule upload_completes) (simp_all add: small_upload_def)

section \<open>Corners\<close>

lemma receive_timeout_default: "receive_timeout_for DEFAULT_CHUNK_SIZE mbps = DEFAULT_RECEIVE_TIMEOUT"
proof (cases "mbps > 0")
  case True
  then have "0 < unat mbps" by (simp add: unat_gt_0 word_neq_0_conv)
  then have "786432 < unat mbps * 1000000" by linarith
  then show ?thesis by (simp add: receive_timeout_for_def DEFAULT_CHUNK_SIZE_def DEFAULT_RECEIVE_TIMEOUT_def)
qed (simp add: receive_timeout_for_def)

text \<open>The receive timer still runs when an upload is complete, and then removes the file.\<close>

lemma complete_file_removed:
  "let u1 = u_run [U_Data (JBin [1, 2, 3, 4]) True False] (started_upload small_upload);
       u2 = u_run [U_Receive_Timer] u1
   in u_state u1 = COMPLETED \<and> u_exists u1 \<and> u_written u1 = [1, 2, 3, 4] \<and>
      u_state u2 = TIMED_OUT \<and> \<not> u_exists u2 \<and> u_stopping u2"
  by (simp add: upload_corner_simps DEFAULT_MAX_BANDWIDTH_MBPS_def)

text \<open>A delayed acknowledgement is not called off by the final one, and acknowledges its octets again.\<close>

lemma acknowledged_twice:
  "u_acks (u_run [U_Data (JBin [1, 2]) True True, U_Data (JBin [3, 4]) True True, U_Rate_Timer]
      (started_upload (small_upload\<lparr>cf_max_bandwidth_mbps := 1\<rparr>))) = [ack_message 1 4, ack_message 2 2]"
  by (simp add: upload_corner_simps)

text \<open>The announced size is no limit: the chunk that reaches it is written whole.\<close>

lemma longer_than_announced:
  "u_written (u_run [U_Data (JBin [1, 2, 3, 4, 5, 6]) True False] (started_upload small_upload)) = [1, 2, 3, 4, 5, 6]"
  by (simp add: upload_corner_simps DEFAULT_MAX_BANDWIDTH_MBPS_def)

text \<open>When the file of an interrupted upload cannot be removed, the stop throws and a part of the file stays.\<close>

lemma partial_file_stays:
  "let u = u_run [U_Data (JBin [1, 2]) True False, U_Remove_Fails] (started_upload small_upload)
   in fst (u_stop LINK_LOST u) = None \<and> u_exists (snd (u_stop LINK_LOST u)) \<and> u_written (snd (u_stop LINK_LOST u)) = [1, 2]"
  by (simp add: upload_corner_simps DEFAULT_MAX_BANDWIDTH_MBPS_def)

text \<open>What the disk refuses when the stream is closed is missing from a file that counts as complete and is kept.\<close>

lemma completed_file_short:
  "let u = u_run [U_Data (JBin [1, 2, 3, 4]) True False, U_Flush_Fails 3, U_Stop SERVER_STOP] (started_upload small_upload)
   in u_state u = COMPLETED \<and> u_exists u \<and> u_written u = [1]"
  by (simp add: upload_corner_simps DEFAULT_MAX_BANDWIDTH_MBPS_def)

end
