(* ===== verification/Refinement.thy ===== *)
theory Refinement
  imports Main
begin

text \<open>
  Sessions against their contracts. A session is a function of events; a contract is a step relation on a smaller state, which
  knows neither timers nor continuations. The locale asks that each event of the environments the contract is made for is a
  run of the contract; then every run of the session in such an environment is one, and what the contract keeps holds of the session.
\<close>

locale refinement =
  fixes event :: "'e \<Rightarrow> 'c \<Rightarrow> 'c"
    and allowed :: "'e \<Rightarrow> bool"
    and good :: "'c \<Rightarrow> bool"
    and view :: "'c \<Rightarrow> 'a"
    and move :: "'a \<Rightarrow> 'a \<Rightarrow> bool"
  assumes keeps: "good c \<Longrightarrow> allowed e \<Longrightarrow> good (event e c)"
    and simulates: "good c \<Longrightarrow> allowed e \<Longrightarrow> move\<^sup>*\<^sup>* (view c) (view (event e c))"
begin

lemma run_keeps: "good c \<Longrightarrow> list_all allowed es \<Longrightarrow> good (fold event es c)"
  by (induction es arbitrary: c) (simp_all add: keeps)

lemma run_refines: "good c \<Longrightarrow> list_all allowed es \<Longrightarrow> move\<^sup>*\<^sup>* (view c) (view (fold event es c))"
proof (induction es arbitrary: c)
  case (Cons e es)
  then have e: "allowed e" "list_all allowed es" by simp_all
  have "move\<^sup>*\<^sup>* (view (event e c)) (view (fold event es (event e c)))" by (rule Cons.IH [OF keeps [OF Cons.prems(1) e(1)] e(2)])
  with simulates [OF Cons.prems(1) e(1)] show ?case by (simp add: rtranclp_trans)
qed simp

lemma run_promise:
  assumes "good c" and "list_all allowed es" and "P (view c)" and "\<And>s s'. move s s' \<Longrightarrow> P s \<Longrightarrow> P s'"
  shows "P (view (fold event es c))"
  using run_refines [OF assms(1,2)] assms(3) by (induction rule: rtranclp_induct) (auto intro: assms(4))

end

lemma one_move: "move s s' \<Longrightarrow> move\<^sup>*\<^sup>* s s'"
  by (rule r_into_rtranclp)

end
