(* ===== verification/File_Receiver.thy ===== *)
theory File_Receiver
  imports File_Upload Refinement
begin

text \<open>
  The contract of a streamed upload: a file that grows while octets are received, is complete once the announced size is
  there, and is kept at the end only if it was complete. The session of \<open>File_Upload\<close> refines it, as long as the disk keeps
  what it is given and removes what it is told to.
\<close>

section \<open>The specification\<close>

datatype stage = Receiving | Received | Ended

text \<open>What is in the file, whether the file is there, and the stage.\<close>

type_synonym receiver = "byte list \<times> bool \<times> stage"

inductive receive_step :: "nat \<Rightarrow> receiver \<Rightarrow> receiver \<Rightarrow> bool" for announced where
  take: "bs \<noteq> [] \<Longrightarrow> receive_step announced (content, True, Receiving) (content @ bs, True, Receiving)"
| complete: "0 < announced \<Longrightarrow> announced \<le> length content \<Longrightarrow>
    receive_step announced (content, True, Receiving) (content, True, Received)"
| keep: "receive_step announced (content, True, Received) (content, True, Ended)"
| discard: "stage \<noteq> Ended \<Longrightarrow> receive_step announced (content, True, stage) (content, False, Ended)"

inductive_simps from_ended: "receive_step announced (content, there, Ended) s"

lemmas receive_moves = receive_step.intros [THEN one_move [of "receive_step announced" for announced]]

text \<open>What the specification promises: a file that is called received, or is left at the end, is as long as announced.\<close>

fun receiver_safe :: "nat \<Rightarrow> receiver \<Rightarrow> bool" where
  "receiver_safe announced (content, there, stage) =
     ((stage = Received \<or> stage = Ended \<and> there \<longrightarrow> announced \<le> length content) \<and> (stage \<noteq> Ended \<longrightarrow> there))"

lemma receiver_safe_step: "receive_step announced s s' \<Longrightarrow> receiver_safe announced s \<Longrightarrow> receiver_safe announced s'"
  by (induction rule: receive_step.induct) auto

lemma ended_stays:
  assumes "(receive_step announced)\<^sup>*\<^sup>* s s'" and "s = (content, there, Ended)"
  shows "s' = s"
  using assms by (induction rule: rtranclp_induct) (auto simp: from_ended)

section \<open>The session as a receiver\<close>

definition upload_stage :: "upload \<Rightarrow> stage" where
  "upload_stage u =
     (if u_state u = IN_PROGRESS then Receiving else if u_state u = COMPLETED \<and> \<not> u_stopping u then Received else Ended)"

definition as_receiver :: "upload \<Rightarrow> receiver" where
  "as_receiver u = (u_written u, u_exists u, upload_stage u)"

text \<open>Started sessions: those that are not in progress nor complete were stopped.\<close>

definition uploading :: "nat \<Rightarrow> upload \<Rightarrow> bool" where
  "uploading announced u \<longleftrightarrow> upload_ok u \<and> sound_disk u \<and> unat (u_expected u) = announced \<and>
     (u_stopping u \<or> u_open u \<and> (u_state u = IN_PROGRESS \<or> u_state u = COMPLETED))"

lemma expected_step: "u_expected (u_step e u) = u_expected u"
  by (cases e) (auto simp: u_step_def u_handle_input_def handle_upload_chunk_def u_stop_defs Let_def u_rate_timeout_def
      push_ack_def u_receive_expired_def start_receive_timeout_def split: json.split option.split stop_reason.split)

text \<open>A stop that discards the file, whatever state it gives as the reason.\<close>

lemma discarded:
  assumes "uploading announced u" and "\<not> u_stopping u" and "u_written u' = u_written u" and "\<not> u_exists u'"
    and "u_stopping u'" and "u_state u' \<notin> {IN_PROGRESS, COMPLETED}"
  shows "(receive_step announced)\<^sup>*\<^sup>* (as_receiver u) (as_receiver u')"
proof -
  have "as_receiver u = (u_written u, True, upload_stage u)" "upload_stage u \<noteq> Ended"
    using assms(1,2) by (auto simp: as_receiver_def uploading_def upload_ok_def upload_stage_def)
  moreover have "as_receiver u' = (u_written u, False, Ended)" using assms(3-6) by (simp add: as_receiver_def upload_stage_def)
  ultimately show ?thesis by (simp add: receive_moves)
qed

lemma receiver_stop:
  assumes "uploading announced u"
  shows "(receive_step announced)\<^sup>*\<^sup>* (as_receiver u) (as_receiver (snd (u_stop reason u)))"
    and "uploading announced (snd (u_stop reason u))"
proof -
  let ?u = "snd (u_stop reason u)"
  have disk: "u_lost u = 0" "\<not> u_locked u" using assms by (simp_all add: uploading_def sound_disk_def)
  have "sound_disk ?u" using sound_disk_step [of "U_Stop reason" u] assms by (simp add: u_step_def uploading_def)
  moreover have "u_stopping ?u" "u_expected ?u = u_expected u" by (auto simp: u_stop_defs split: stop_reason.split)
  ultimately show "uploading announced ?u" using assms upload_ok_stop [of u reason] by (simp add: uploading_def)
  show "(receive_step announced)\<^sup>*\<^sup>* (as_receiver u) (as_receiver ?u)"
  proof (cases "u_stopping u")
    case True
    then show ?thesis by (simp add: u_stop_defs)
  next
    case False
    show ?thesis
    proof (cases "reason = SERVER_STOP \<and> u_state u = COMPLETED")
      case True
      with False assms have "as_receiver u = (u_written u, True, Received)" "as_receiver ?u = (u_written u, True, Ended)"
        by (simp_all add: as_receiver_def upload_stage_def u_stop_defs uploading_def upload_ok_def sound_disk_def)
      then show ?thesis by (simp add: receive_moves)
    next
      case kept: False
      show ?thesis
        by (rule discarded [OF assms False]) (use False kept disk in \<open>auto simp: u_stop_defs split: stop_reason.split\<close>)
    qed
  qed
qed

lemma receiver_chunk:
  assumes "uploading announced u" and "data \<noteq> []"
  shows "(receive_step announced)\<^sup>*\<^sup>* (as_receiver u) (as_receiver (handle_upload_chunk data write_ok delayed u)) \<and>
    uploading announced (handle_upload_chunk data write_ok delayed u)"
proof -
  let ?u = "handle_upload_chunk data write_ok delayed u"
  have ok: "upload_ok u" "upload_ok ?u" using assms(1) upload_ok_chunk by (auto simp: uploading_def)
  have disk: "u_lost u = 0" "\<not> u_locked u" using assms(1) by (simp_all add: uploading_def sound_disk_def)
  have sound: "sound_disk ?u"
    using sound_disk_step [of "U_Data (JBin data) write_ok delayed" u] assms by (simp add: u_step_def u_handle_input_def uploading_def)
  consider "u_state u \<noteq> IN_PROGRESS \<or> \<not> u_open u" | "u_state u = IN_PROGRESS" "u_open u" "\<not> write_ok"
    | "u_state u = IN_PROGRESS" "u_open u" "write_ok" by blast
  then show ?thesis
  proof cases
    case 1
    with assms(1) show ?thesis by (simp add: handle_upload_chunk_def)
  next
    case 2
    then have going: "\<not> u_stopping u" using ok(1) by (auto simp: upload_ok_def)
    have "(receive_step announced)\<^sup>*\<^sup>* (as_receiver u) (as_receiver ?u)"
      by (rule discarded [OF assms(1) going]) (use 2 going disk in \<open>simp_all add: handle_upload_chunk_def u_stop_defs\<close>)
    moreover have "u_stopping ?u" "u_expected ?u = u_expected u"
      using 2 going by (simp_all add: handle_upload_chunk_def u_stop_defs)
    ultimately show ?thesis using ok(2) sound assms(1) by (simp add: uploading_def)
  next
    case 3
    note c = accepted_chunk [OF 3(1,2) refl, of data delayed]
    have u: "as_receiver u = (u_written u, True, Receiving)" "u_bytes u = of_nat (length (u_written u))"
      using 3 ok(1) by (simp_all add: as_receiver_def upload_stage_def upload_ok_def)
    have taken: "(receive_step announced)\<^sup>*\<^sup>* (as_receiver u) (u_written u @ data, True, Receiving)"
      unfolding u by (rule receive_moves(1) [OF assms(2)])
    have exp: "unat (u_expected u) = announced" using assms(1) by (simp add: uploading_def)
    have "\<not> u_stopping u" "u_exists u" using 3 ok(1) by (auto simp: upload_ok_def)
    show ?thesis
    proof (cases "u_expected u > 0 \<and> u_expected u \<le> u_bytes u + of_nat (length data)")
      case True
      then have "u_expected u \<le> (of_nat (length (u_written u @ data)) :: u64)" by (simp add: u)
      from enough_octets [OF this] have "announced \<le> length (u_written u @ data)" by (simp only: exp)
      moreover have "0 < unat (u_expected u)" using True by (simp add: unat_gt_0 word_neq_0_conv)
      ultimately have "receive_step announced (u_written u @ data, True, Receiving) (u_written u @ data, True, Received)"
        unfolding exp by (intro receive_step.complete)
      moreover have "as_receiver ?u = (u_written u @ data, True, Received)" "uploading announced ?u"
        using True 3 c ok(2) sound exp \<open>\<not> u_stopping u\<close> \<open>u_exists u\<close> by (simp_all add: as_receiver_def upload_stage_def uploading_def)
      ultimately show ?thesis using taken by (simp add: rtranclp.rtrancl_into_rtrancl)
    next
      case False
      have "as_receiver ?u = (u_written u @ data, True, Receiving)" "uploading announced ?u"
        using False 3 c ok(2) sound exp \<open>\<not> u_stopping u\<close> \<open>u_exists u\<close> by (auto simp: as_receiver_def upload_stage_def uploading_def)
      with taken show ?thesis by simp
    qed
  qed
qed

interpretation receiver: refinement u_step disk_works "uploading announced" as_receiver "receive_step announced" for announced
proof unfold_locales
  fix u e
  assume u: "uploading announced u" and e: "disk_works e"
  have disk: "u_lost u = 0" "\<not> u_locked u" and sound: "sound_disk (u_step e u)"
    using u sound_disk_step [OF e] by (simp_all add: uploading_def sound_disk_def)
  have both: "(receive_step announced)\<^sup>*\<^sup>* (as_receiver u) (as_receiver (u_step e u)) \<and> uploading announced (u_step e u)"
  proof (cases e)
    case (U_Data body write_ok delayed)
    with u receiver_chunk [OF u] show ?thesis by (cases body) (simp_all add: u_step_def u_handle_input_def)
  next
    case U_Rate_Timer
    have "as_receiver (u_step e u) = as_receiver u"
      by (auto simp: U_Rate_Timer u_step_def u_rate_timeout_def push_ack_def as_receiver_def upload_stage_def split: option.split)
    moreover have "uploading announced (u_step e u)"
      using u upload_ok_step [of u e] expected_step [of e u] sound
      by (auto simp: U_Rate_Timer u_step_def u_rate_timeout_def push_ack_def uploading_def split: option.splits)
    ultimately show ?thesis by simp
  next
    case U_Receive_Timer
    show ?thesis
    proof (cases "u_receive_timer u")
      case True
      then have running: "\<not> u_stopping u" using u by (auto simp: uploading_def upload_ok_def)
      have "(receive_step announced)\<^sup>*\<^sup>* (as_receiver u) (as_receiver (u_step e u))"
        by (rule discarded [OF u running])
          (use True running disk in \<open>simp_all add: U_Receive_Timer u_step_def u_receive_expired_def u_stop_defs\<close>)
      moreover have "u_stopping (u_step e u)"
        using True running by (simp add: U_Receive_Timer u_step_def u_receive_expired_def u_stop_defs)
      ultimately show ?thesis using u upload_ok_step [of u e] expected_step [of e u] sound by (simp add: uploading_def)
    next
      case False
      with u show ?thesis by (simp add: U_Receive_Timer u_step_def u_receive_expired_def)
    qed
  next
    case (U_Stop reason)
    with receiver_stop [OF u] show ?thesis by (simp add: u_step_def)
  next
    case (U_Flush_Fails n)
    with e disk have "u_step e u = u" by (simp add: u_step_def)
    with u show ?thesis by simp
  next
    case U_Remove_Fails
    with e show ?thesis by simp
  qed
  then show "uploading announced (u_step e u)" "(receive_step announced)\<^sup>*\<^sup>* (as_receiver u) (as_receiver (u_step e u))"
    by simp_all
qed

section \<open>Properties\<close>

lemma started_uploading: "uploading (unat (cf_expected_size cfg)) (started_upload cfg)"
  using run_ok [of "[]" cfg] by (simp add: uploading_def u_run_def started_upload_facts)

text \<open>So the session keeps what the receiver promises.\<close>

lemma upload_receiver_safe:
  "list_all disk_works es \<Longrightarrow> receiver_safe (unat (cf_expected_size cfg)) (as_receiver (u_run es (started_upload cfg)))"
  unfolding u_run_def
  by (rule receiver.run_promise [OF started_uploading])
    (simp_all add: as_receiver_def upload_stage_def started_upload_facts receiver_safe_step)

text \<open>C12: While the disk keeps what the stream wrote and removes the files it is asked to, an upload refines the receiver of a
  file: whatever data, failing writes, timers and stops follow the start, the file grows by what is received, is called
  complete only when it has at least the announced size, and at the end is kept only if it was complete.\<close>

theorem upload_refines_receiver:
  assumes "list_all disk_works es"
  shows "(receive_step (unat (cf_expected_size cfg)))\<^sup>*\<^sup>* ([], True, Receiving) (as_receiver (u_run es (started_upload cfg)))"
  using receiver.run_refines [OF started_uploading assms] by (simp add: u_run_def as_receiver_def upload_stage_def started_upload_facts)

theorem upload_refines_receiver_witness:
  "(receive_step 4)\<^sup>*\<^sup>* ([], True, Receiving)
     (as_receiver (u_run [U_Data (JBin [1, 2]) True False, U_Data (JBin [3]) False False] (started_upload small_upload))) \<and>
   as_receiver (u_run [U_Data (JBin [1, 2]) True False, U_Data (JBin [3]) False False] (started_upload small_upload)) =
     ([1, 2], False, Ended)"
proof -
  let ?es = "[U_Data (JBin [1, 2]) True False, U_Data (JBin [3]) False False]"
  have "as_receiver (u_run ?es (started_upload small_upload)) = ([1, 2], False, Ended)"
    by (simp add: upload_corner_simps DEFAULT_MAX_BANDWIDTH_MBPS_def as_receiver_def upload_stage_def)
  with upload_refines_receiver [of ?es small_upload] show ?thesis by (simp add: small_upload_def)
qed

end
