(* ===== verification/Session_Traffic.thy ===== *)
theory Session_Traffic
  imports File_Upload Client_State
begin

text \<open>
  The traffic counters of a stream session, \<^verbatim>\<open>core/iotmp_stream_session.hpp\<close>, and what an upload counts for
  the acknowledgements it sends. The time is what the system clock shows, in milliseconds, and is an argument.
\<close>

section \<open>The counters\<close>

record session_traffic =
  ts_stream_id :: stream_id
  ts_session :: string
  ts_last :: int
  ts_sent :: u64
  ts_received :: u64

definition session_counters :: "stream_id \<Rightarrow> string \<Rightarrow> int \<Rightarrow> session_traffic" where
  "session_counters sid session now =
     \<lparr>ts_stream_id = sid, ts_session = session, ts_last = now, ts_sent = 0, ts_received = 0\<rparr>"

definition session_stream_id :: "session_traffic \<Rightarrow> stream_id" where
  "session_stream_id s = ts_stream_id s"

definition get_session :: "session_traffic \<Rightarrow> string" where
  "get_session s = ts_session s"

definition get_sent :: "session_traffic \<Rightarrow> u64" where
  "get_sent s = ts_sent s"

definition get_received :: "session_traffic \<Rightarrow> u64" where
  "get_received s = ts_received s"

definition last_usage :: "int \<Rightarrow> session_traffic \<Rightarrow> int" where
  "last_usage now s = now - ts_last s"

definition increase_sent :: "u64 \<Rightarrow> int \<Rightarrow> session_traffic \<Rightarrow> session_traffic" where
  "increase_sent bytes now s = s\<lparr>ts_sent := ts_sent s + bytes, ts_last := now\<rparr>"

definition increase_received :: "u64 \<Rightarrow> int \<Rightarrow> session_traffic \<Rightarrow> session_traffic" where
  "increase_received bytes now s = s\<lparr>ts_received := ts_received s + bytes, ts_last := now\<rparr>"

datatype traffic_event = Sent_Octets u64 int | Received_Octets u64 int

fun traffic_step :: "traffic_event \<Rightarrow> session_traffic \<Rightarrow> session_traffic" where
  "traffic_step (Sent_Octets n now) s = increase_sent n now s"
| "traffic_step (Received_Octets n now) s = increase_received n now s"

fun sent_of :: "traffic_event \<Rightarrow> u64" where
  "sent_of (Sent_Octets n _) = n"
| "sent_of _ = 0"

fun received_of :: "traffic_event \<Rightarrow> u64" where
  "received_of (Received_Octets n _) = n"
| "received_of _ = 0"

fun time_of :: "traffic_event \<Rightarrow> int" where
  "time_of (Sent_Octets _ now) = now"
| "time_of (Received_Octets _ now) = now"

lemma traffic_step_facts:
  "ts_sent (traffic_step e s) = ts_sent s + sent_of e" "ts_received (traffic_step e s) = ts_received s + received_of e"
  "ts_last (traffic_step e s) = time_of e" "ts_stream_id (traffic_step e s) = ts_stream_id s"
  "ts_session (traffic_step e s) = ts_session s"
  by (cases e; simp add: increase_sent_def increase_received_def)+

text \<open>
  The counters are the sums of what was reported, modulo \<open>2 ^ 64\<close>; the usage is counted from the last report, or the
  creation of the session.
\<close>

theorem traffic_sums:
  "let s = fold traffic_step es (session_counters sid session start) in
    get_sent s = sum_list (map sent_of es) \<and> get_received s = sum_list (map received_of es) \<and>
    last_usage now s = now - last (start # map time_of es) \<and> session_stream_id s = sid \<and> get_session s = session"
proof -
  have "let s' = fold traffic_step es s in
      ts_sent s' = ts_sent s + sum_list (map sent_of es) \<and> ts_received s' = ts_received s + sum_list (map received_of es) \<and>
      ts_last s' = last (ts_last s # map time_of es) \<and> ts_stream_id s' = ts_stream_id s \<and> ts_session s' = ts_session s" for s
    by (induction es arbitrary: s) (simp_all add: Let_def traffic_step_facts add.assoc)
  from this [of "session_counters sid session start"] show ?thesis
    by (simp add: Let_def session_counters_def get_sent_def get_received_def last_usage_def session_stream_id_def get_session_def)
qed

section \<open>The acknowledgements of an upload\<close>

text \<open>
  \<open>stream_resource\<close> swaps the value it is given with the empty payload of its message, unless the client is not
  connected. The upload counts the text of its value only after that call. \<open>dump\<close> is the method of the JSON library.
\<close>

definition value_after_stream :: "json \<Rightarrow> 'w client \<Rightarrow> json" where
  "value_after_stream v c = (if c_connected c then JNull else v)"

definition count_ack :: "(json \<Rightarrow> string) \<Rightarrow> json \<Rightarrow> 'w client \<Rightarrow> int \<Rightarrow> session_traffic \<Rightarrow> session_traffic" where
  "count_ack dump ack c now s = increase_sent (of_nat (length (dump (value_after_stream ack c)))) now s"

text \<open>Every acknowledgement that is sent counts as the four octets of \<^verbatim>\<open>null\<close>, whatever it says.\<close>

theorem ack_counts_null:
  assumes "dump JNull = ''null''" and "c_connected c"
  shows "get_sent (count_ack dump (ack_message n bytes) c now s) = get_sent s + 4"
  using assms by (simp add: count_ack_def value_after_stream_def increase_sent_def get_sent_def)

theorem ack_counts_null_witness:
  "get_sent (count_ack (\<lambda>v. if v = JNull then ''null'' else ''{\"ack\":1,\"bytes\":65536}'') (ack_message 1 65536)
     (new_client ()\<lparr>c_connected := True\<rparr>) 0 (session_counters 7 [] 0)) = 4"
  using ack_counts_null [of "\<lambda>v. if v = JNull then ''null'' else ''{\"ack\":1,\"bytes\":65536}''" "new_client ()\<lparr>c_connected := True\<rparr>"]
  by (simp add: get_sent_def session_counters_def)

end
