(* ===== verification/File_Window.thy ===== *)
theory File_Window
  imports File_Download Refinement
begin

text \<open>
  The contract of a streamed download: a sliding window. The specification knows neither continuations nor timers nor machine
  integers; the session of \<open>File_Download\<close> refines it as long as no read fails, every event being a sequence of its moves.
\<close>

section \<open>The specification\<close>

datatype phase = Sending | Complete | Over

text \<open>What is still to be sent, what was sent, how many octets of it are not acknowledged, and the phase.\<close>

type_synonym window = "byte list \<times> byte list \<times> nat \<times> phase"

inductive window_step :: "nat \<Rightarrow> nat \<Rightarrow> window \<Rightarrow> window \<Rightarrow> bool" for win chunk where
  send: "unacked < win \<Longrightarrow> bytes \<noteq> [] \<Longrightarrow> length bytes \<le> chunk \<Longrightarrow>
    window_step win chunk (bytes @ todo, sent, unacked, Sending) (todo, sent @ bytes, unacked + length bytes, Sending)"
| ack: "n \<le> unacked \<Longrightarrow> window_step win chunk (todo, sent, unacked, ph) (todo, sent, unacked - n, ph)"
| complete: "window_step win chunk ([], sent, 0, Sending) ([], sent, 0, Complete)"
| over: "window_step win chunk (todo, sent, unacked, ph) (todo, sent, unacked, Over)"

inductive_simps from_over: "window_step win chunk (todo, sent, unacked, Over) s"

abbreviation window_run :: "nat \<Rightarrow> nat \<Rightarrow> window \<Rightarrow> window \<Rightarrow> bool" where
  "window_run win chunk \<equiv> (window_step win chunk)\<^sup>*\<^sup>*"

lemma window_move: "window_step win chunk s s' \<Longrightarrow> window_run win chunk s s'"
  by (rule one_move)

lemmas window_moves = window_step.intros [THEN window_move]

text \<open>What the specification promises.\<close>

fun window_safe :: "nat \<Rightarrow> nat \<Rightarrow> byte list \<Rightarrow> window \<Rightarrow> bool" where
  "window_safe win chunk content (todo, sent, unacked, ph) =
     (sent @ todo = content \<and> unacked \<le> length sent \<and> unacked \<le> win + chunk \<and>
      (ph = Complete \<longrightarrow> sent = content \<and> unacked = 0))"

lemma window_safe_step: "window_step win chunk s s' \<Longrightarrow> window_safe win chunk content s \<Longrightarrow> window_safe win chunk content s'"
  by (induction rule: window_step.induct) auto

text \<open>Once it is over nothing more is sent, and it does not complete.\<close>

lemma over_stays:
  assumes "window_run win chunk s s'" and "s = (todo, sent, unacked, Over)"
  shows "\<exists>u \<le> unacked. s' = (todo, sent, u, Over)"
  using assms
proof (induction rule: rtranclp_induct)
  case (step s1 s2)
  then obtain u where "u \<le> unacked" "s1 = (todo, sent, u, Over)" by blast
  with step.hyps(2) show ?case by (auto simp: from_over)
qed auto

section \<open>The session as a window\<close>

definition download_phase :: "download \<Rightarrow> phase" where
  "download_phase d =
     (if d_state d = IN_PROGRESS then Sending else if d_state d = COMPLETED \<and> \<not> d_stopping d then Complete else Over)"

definition as_window :: "download \<Rightarrow> window" where
  "as_window d = (d_rest d, concat (d_chunks d), unat (d_in_flight d), download_phase d)"

definition refines_to :: "download \<Rightarrow> download \<Rightarrow> bool" where
  "refines_to d d' \<longleftrightarrow> window_run (unat (d_window_size d)) (unat (d_chunk_size d)) (as_window d) (as_window d')"

lemma refines_same: "as_window d' = as_window d \<Longrightarrow> refines_to d d'"
  by (simp add: refines_to_def)

lemma refines_then: "refines_to d d' \<Longrightarrow> refines_to d' d'' \<Longrightarrow> limits d' = limits d \<Longrightarrow> refines_to d d''"
  by (auto simp: refines_to_def limits_def)

lemma refines_over:
  "d_rest d' = d_rest d \<Longrightarrow> d_chunks d' = d_chunks d \<Longrightarrow> d_in_flight d' = d_in_flight d \<Longrightarrow> download_phase d' = Over \<Longrightarrow>
    refines_to d d'"
  by (simp add: refines_to_def as_window_def window_moves)

lemma window_flags [simp]:
  "as_window (start_ack_timeout d) = as_window d" "as_window (d_post d) = as_window d"
  "as_window (d\<lparr>d_waiting := b\<rparr>) = as_window d" "as_window (d\<lparr>d_ack_timer := b\<rparr>) = as_window d"
  "as_window (d\<lparr>d_rate_timer := b\<rparr>) = as_window d" "as_window (d\<lparr>d_completion_timer := b\<rparr>) = as_window d"
  "as_window (d\<lparr>d_posted := n\<rparr>) = as_window d" "as_window (d\<lparr>d_received := r\<rparr>) = as_window d"
  by (simp_all add: as_window_def download_phase_def start_ack_timeout_def d_post_def)

lemma stop_over: "d_stopping d \<longrightarrow> d_state d \<noteq> IN_PROGRESS \<Longrightarrow> download_phase (snd (d_stop reason d)) = Over"
  by (auto simp: download_phase_def d_stop_def split: stop_reason.split)

lemma stop_keeps [simp]:
  "d_rest (snd (d_stop reason d)) = d_rest d" "d_chunks (snd (d_stop reason d)) = d_chunks d"
  "d_in_flight (snd (d_stop reason d)) = d_in_flight d"
  by (simp_all add: d_stop_def)

lemma refines_stop: "d_stopping d \<longrightarrow> d_state d \<noteq> IN_PROGRESS \<Longrightarrow> refines_to d (snd (d_stop reason d))"
  by (rule refines_over) (simp_all add: stop_over)

lemma refines_complete:
  assumes "d_state d = IN_PROGRESS" and "d_rest d = []" and "d_in_flight d = 0"
  shows "\<not> d_stopping d \<Longrightarrow> refines_to d (d_complete d)"
  using assms by (simp add: refines_to_def as_window_def download_phase_def d_complete_def window_moves)

section \<open>Each event is a run of the window\<close>

lemma in_flight_sum:
  assumes ok: "download_ok content d" and r: "d_read d = (bytes, d1)"
  shows "unat (d_in_flight d + of_nat (length bytes)) = unat (d_in_flight d) + length bytes"
proof -
  have "unat (d_file_size d) < 2 ^ LENGTH(64)" by (rule unsigned_less)
  moreover have "length bytes \<le> length (d_rest d)" using r by (auto simp: d_read_def Let_def split: if_splits)
  moreover have "unat (d_in_flight d) \<le> unat (d_transferred d)" using ok by (simp add: download_ok_def word_le_nat_alt)
  ultimately show ?thesis using ok parts_length [OF ok] by (intro unat_add_of_nat) (simp add: download_ok_def)
qed

lemma refines_chunk:
  assumes ok: "download_ok content d" and "d_state d = IN_PROGRESS" and w: "d_in_flight d < d_window_size d"
    and r: "d_read d = (bytes, d1)" and "bytes \<noteq> []"
  shows "refines_to d (d1\<lparr>d_chunks := d_chunks d1 @ [bytes], d_transferred := d_transferred d1 + of_nat (length bytes),
    d_in_flight := d_in_flight d1 + of_nat (length bytes)\<rparr>)"
proof -
  let ?n = "unat (d_chunk_size d)"
  note b = read_some(1,3) [OF r assms(5)]
  then have "d_rest d = bytes @ drop ?n (d_rest d)" "length bytes \<le> ?n" by auto
  moreover have "unat (d_in_flight d) < unat (d_window_size d)" using w by (simp add: word_less_nat_alt)
  ultimately show ?thesis
    using in_flight_sum [OF ok r] assms(2,5) b(2)
      window_moves(1) [of "unat (d_in_flight d)" "unat (d_window_size d)" bytes ?n "drop ?n (d_rest d)" "concat (d_chunks d)"]
    by (simp add: refines_to_def as_window_def download_phase_def)
qed

lemma refines_send: "download_ok content d \<Longrightarrow> \<not> d_bad d \<Longrightarrow> refines_to d (send_next_chunk delayed d)"
proof -
  assume ok: "download_ok content d" and fine: "\<not> d_bad d"
  then have stopped: "d_stopping d \<longrightarrow> d_state d \<noteq> IN_PROGRESS" by (simp add: download_ok_def)
  show ?thesis
  proof (cases "d_state d \<noteq> IN_PROGRESS \<or> \<not> d_open d \<or> d_eof d")
    case True
    have "d_rest d = [] \<and> \<not> d_stopping d" if "d_state d = IN_PROGRESS" using True that ok by (auto simp: download_ok_def)
    then have "d_state d = IN_PROGRESS \<Longrightarrow> d_in_flight d = 0 \<Longrightarrow> refines_to d (d_complete d)" by (simp add: refines_complete)
    moreover have "refines_to d (snd (d_stop CLIENT_STOP d))" by (rule refines_stop [OF stopped])
    ultimately show ?thesis using True by (simp add: send_next_chunk_def refines_same)
  next
    case False
    then have go: "d_state d = IN_PROGRESS" "d_open d" "\<not> d_eof d" "\<not> d_stopping d" using stopped by auto
    obtain bytes d1 where r: "d_read d = (bytes, d1)" by (rule prod.exhaust)
    show ?thesis
    proof (cases "d_in_flight d \<ge> d_window_size d")
      case True
      with go show ?thesis by (simp add: send_next_chunk_def refines_same)
    next
      case w: False
      show ?thesis
      proof (cases "bytes = []")
        case True
        note empty = download_ok_exhausted(2-4) [OF ok go(1) r [unfolded True]]
        have "d_bad d1 = d_bad d" by (subst empty(3)) simp
        with empty fine have e: "d_rest d1 = []" "d_state d1 = IN_PROGRESS" by auto
        have d1: "d1 = d\<lparr>d_eof := d_eof d1\<rparr>" by (rule empty(3))
        have same: "as_window d1 = as_window d" "limits d1 = limits d" "\<not> d_stopping d1" "d_in_flight d1 = d_in_flight d"
          using go by (subst d1, simp add: as_window_def download_phase_def limits_def)+
        have "refines_to d (d_complete d1)" if "d_in_flight d1 = 0"
          by (rule refines_then [OF refines_same [OF same(1)] refines_complete [OF e(2,1) that same(3)] same(2)])
        with go w r True same(1) e show ?thesis by (simp add: send_next_chunk_def refines_same)
      next
        case ne: False
        let ?d2 = "d1\<lparr>d_chunks := d_chunks d1 @ [bytes], d_transferred := d_transferred d1 + of_nat (length bytes),
          d_in_flight := d_in_flight d1 + of_nat (length bytes)\<rparr>"
        have "refines_to d ?d2"
          by (rule refines_chunk [OF ok go(1) _ r ne]) (use w in simp)
        moreover have "as_window (send_next_chunk delayed d) = as_window ?d2"
          using go w r ne by (simp add: send_next_chunk_def Let_def)
        ultimately show ?thesis by (simp add: refines_to_def)
      qed
    qed
  qed
qed

lemma refines_ack: "download_ok content d \<Longrightarrow> refines_to d (on_chunk_acknowledged n d)"
proof (cases "n \<le> d_in_flight d")
  case True
  assume ok: "download_ok content d"
  define d1 where "d1 = d\<lparr>d_in_flight := d_in_flight d - n\<rparr>"
  define d2 where "d2 = d1\<lparr>d_waiting := False, d_ack_timer := False\<rparr>"
  have "unat (d_in_flight d - n) = unat (d_in_flight d) - unat n" "unat n \<le> unat (d_in_flight d)"
    using True by (simp_all add: unat_sub word_le_nat_alt)
  then have r1: "refines_to d d1" by (simp add: d1_def refines_to_def as_window_def download_phase_def window_moves)
  have r2: "refines_to d d2" by (rule refines_then [OF r1 refines_same]) (simp_all add: d1_def d2_def)
  have r3: "refines_to d d'" if "refines_to d2 d'" for d' by (rule refines_then [OF r2 that]) (simp add: d1_def d2_def)
  have d2: "d_stopping d2 \<longrightarrow> d_state d2 \<noteq> IN_PROGRESS" "d_file_size d2 \<le> d_transferred d2 \<Longrightarrow> d_rest d2 = []"
    using ok all_sent [OF ok] by (simp_all add: d1_def d2_def download_ok_def)
  have "on_chunk_acknowledged n d =
      (if d_waiting d1 \<and> d_in_flight d1 < d_window_size d1 then
         if \<not> d_eof d2 \<and> d_state d2 = IN_PROGRESS then d_post d2
         else if d_in_flight d2 = 0 then
           if d_state d2 = IN_PROGRESS \<and> d_transferred d2 \<ge> d_file_size d2 then d_complete d2
           else if d_state d2 \<noteq> COMPLETED then snd (d_stop CLIENT_STOP d2) else d2
         else d2
       else d1)"
    unfolding on_chunk_acknowledged_def Let_def d2_def d1_def using True by simp
  with d2 r1 r2 r3 [OF refines_complete] r3 [OF refines_stop] r3 [OF refines_same] show ?thesis by auto
qed (simp add: on_chunk_acknowledged_def refines_same)

lemma refines_input: "download_ok content d \<Longrightarrow> d_handle_input body d = Some d' \<Longrightarrow> refines_to d d'"
proof -
  assume ok: "download_ok content d" and h: "d_handle_input body d = Some d'"
  let ?d1 = "\<lambda>r. d\<lparr>d_received := r\<rparr>"
  have "refines_to d (on_chunk_acknowledged n (?d1 r))" for n r
    by (rule refines_then [OF refines_same refines_ack [OF download_ok_flags(8) [OF ok]]]) simp_all
  with h refines_ack [OF ok] show ?thesis
    by (auto simp: d_handle_input_def Let_def refines_same split: if_splits option.splits)
qed

lemma refines_step: "download_ok content d \<Longrightarrow> \<not> d_bad d \<Longrightarrow> e \<noteq> D_Read_Fails \<Longrightarrow> refines_to d (d_step e d)"
proof -
  assume ok: "download_ok content d" and fine: "\<not> d_bad d" and e: "e \<noteq> D_Read_Fails"
  then have stopped: "d_stopping d \<longrightarrow> d_state d \<noteq> IN_PROGRESS" by (simp add: download_ok_def)
  have post: "refines_to d (send_next_chunk delayed (d\<lparr>d_posted := n\<rparr>))" for delayed n
    by (rule refines_then [OF refines_same refines_send [OF download_ok_flags(4) [OF ok]]]) (simp_all add: fine)
  have rate: "refines_to d (send_next_chunk delayed (d\<lparr>d_rate_timer := b\<rparr>))" for delayed b
    by (rule refines_then [OF refines_same refines_send [OF download_ok_flags(3) [OF ok]]]) (simp_all add: fine)
  have timed: "refines_to d (snd (d_stop CLIENT_STOP (d\<lparr>d_state := TIMED_OUT, d_ack_timer := b\<rparr>)))"
    "refines_to d (snd (d_stop CLIENT_STOP (d\<lparr>d_completion_timer := b, d_state := TIMED_OUT\<rparr>)))" for b
    by (rule refines_over; simp add: stop_over)+
  show ?thesis
    using e post rate timed refines_stop [OF stopped] refines_input [OF ok]
    by (cases e) (auto simp: d_step_def d_rate_timeout_def d_ack_timeout_def d_completion_timeout_def Let_def refines_same
        split: nat.split option.split)
qed

text \<open>The sessions of a file that can be read, with the limits they were created with.\<close>

definition downloading :: "byte list \<Rightarrow> u64 \<Rightarrow> u64 \<Rightarrow> download \<Rightarrow> bool" where
  "downloading content win chunk d \<longleftrightarrow> download_ok content d \<and> \<not> d_bad d \<and> limits d = (win, chunk)"

definition reads_go_on :: "download_event \<Rightarrow> bool" where
  "reads_go_on e \<longleftrightarrow> e \<noteq> D_Read_Fails"

interpretation window: refinement d_step reads_go_on "downloading content win chunk" as_window "window_step (unat win) (unat chunk)"
  for content win chunk
proof unfold_locales
  fix d e
  assume d: "downloading content win chunk d" and "reads_go_on e"
  then have e: "D_Read_Fails \<noteq> e" by (auto simp: reads_go_on_def)
  show "downloading content win chunk (d_step e d)"
    using d by (simp add: downloading_def download_ok_step limits_step bad_step [OF e])
  show "window_run (unat win) (unat chunk) (as_window d) (as_window (d_step e d))"
    using d refines_step [of content d e] e by (auto simp: downloading_def refines_to_def limits_def)
qed

lemma started_downloading:
  assumes "cf_chunk_size cfg \<noteq> 0" and "length content < 2 ^ 64"
  shows "downloading content (cf_window_size cfg) (cf_chunk_size cfg) (started_download cfg content)"
  using started_ok [OF assms] started_limits [of cfg content]
  by (simp add: downloading_def) (simp add: started_download_def d_start_def file_download_session_def)

lemma started_window: "as_window (started_download cfg content) = (content, [], 0, Sending)"
  by (simp add: as_window_def download_phase_def started_download_def d_start_def file_download_session_def)

text \<open>So the session keeps what the window promises.\<close>

lemma download_window_safe:
  assumes "cf_chunk_size cfg \<noteq> 0" and "length content < 2 ^ 64" and "list_all reads_go_on es"
  shows "window_safe (unat (cf_window_size cfg)) (unat (cf_chunk_size cfg)) content
    (as_window (d_run es (started_download cfg content)))"
  unfolding d_run_def
  by (rule window.run_promise [OF started_downloading [OF assms(1,2)] assms(3)]) (simp_all add: started_window window_safe_step)

text \<open>C9: A download whose reads do not fail refines the sliding window: whatever continuations, acknowledgements, timers and
  stops follow the start, what is left, sent and unacknowledged changes only by the moves of the specification: a
  chunk is sent within the window, octets are acknowledged, all is sent and acknowledged, or it is over.\<close>

theorem download_refines_window:
  assumes "cf_chunk_size cfg \<noteq> 0" and "length content < 2 ^ 64" and "list_all reads_go_on es"
  shows "(window_step (unat (cf_window_size cfg)) (unat (cf_chunk_size cfg)))\<^sup>*\<^sup>*
    (content, [], 0, Sending) (as_window (d_run es (started_download cfg content)))"
  using window.run_refines [OF started_downloading [OF assms(1,2)] assms(3)] by (simp add: started_window d_run_def)

theorem download_refines_window_witness:
  "(window_step 3 2)\<^sup>*\<^sup>* ([1, 2, 3], [], 0, Sending)
     (as_window (d_run [D_Posted False, D_Posted False, D_Stop LINK_LOST] (started_download small_download [1, 2, 3]))) \<and>
   as_window (d_run [D_Posted False, D_Posted False, D_Stop LINK_LOST] (started_download small_download [1, 2, 3])) =
     ([], [1, 2, 3], 3, Over)"
proof -
  have "as_window (d_run [D_Posted False, D_Posted False, D_Stop LINK_LOST] (started_download small_download [1, 2, 3])) =
     ([], [1, 2, 3], 3, Over)" by code_simp
  moreover have "unat (cf_window_size small_download) = 3" "unat (cf_chunk_size small_download) = 2"
    "cf_chunk_size small_download \<noteq> 0" by (simp_all add: small_download_def)
  ultimately show ?thesis
    using download_refines_window [of small_download "[1, 2, 3]" "[D_Posted False, D_Posted False, D_Stop LINK_LOST]"]
    by (simp add: reads_go_on_def)
qed

end
