(* ===== verification/Stream_Wire.thy ===== *)
theory Stream_Wire
  imports Client_State Framing
begin

text \<open>
  From a session to the server. A session hands values to \<open>stream_resource\<close>, the client encodes each as a message and queues it among
  the others it sends, the write loop writes the queue to the socket, and the server reads messages from what was written.
  The locale states what a session has to promise for its values to arrive; the downloads, the uploads' acknowledgements and
  the streamed commands are its instances, in the theories that follow.
\<close>

section \<open>The size of a message\<close>

lemma varint_length: "unat (v :: u64) < 2 ^ (7 * Suc k) \<Longrightarrow> length (varint_bytes v) \<le> Suc k"
proof (induction k arbitrary: v)
  case 0
  then have "unat (drop_bit 7 v) = 0" by (simp add: drop_bit_eq_div unat_div)
  then have "drop_bit 7 v = 0" by (simp only: unat_eq_zero)
  then show ?case by (simp add: varint_bytes.simps)
next
  case (Suc k)
  have "unat v div 128 < 2 ^ (7 * Suc k)" using Suc.prems by (intro less_mult_imp_div_less) (simp add: power_add)
  then have "unat (drop_bit 7 v) < 2 ^ (7 * Suc k)" by (simp add: drop_bit_eq_div unat_div)
  from Suc.IH [OF this] show ?case by (simp add: varint_bytes.simps [of v])
qed

lemma varint_length_10: "length (varint_bytes (v :: u64)) \<le> 10"
proof -
  have "unat v < 2 ^ LENGTH(64)" by (rule unsigned_less)
  then show ?thesis using varint_length [of v 9] by simp
qed

lemma tag_length: "length (tag_bytes ty v) \<le> 11"
  using varint_length_10 [of v] by (simp add: tag_bytes_def)

text \<open>The message \<open>stream_resource\<close> makes of a value.\<close>

definition frame_message :: "stream_id \<Rightarrow> json \<Rightarrow> iotmp_message" where
  "frame_message sid v = set_field PAYLOAD v (set_stream_id sid (new_message STREAM_DATA))"

lemma frame_fields: "msg_fields (frame_message sid v) = [(STREAM_ID, JUInt (ucast sid)), (PAYLOAD, v)]"
  by (simp add: frame_message_def set_stream_id_def set_field_def new_message_def field_defs)

lemma frame_type [simp]: "msg_type (frame_message sid v) = STREAM_DATA"
  by (simp add: frame_message_def set_stream_id_def set_field_def new_message_def)

lemma frame_norm [simp]: "msg_norm (frame_message sid v) = frame_message sid (field_norm v)"
proof -
  have "field_norm (JUInt (ucast sid)) = JUInt (ucast sid)" by (simp add: field_norm_def)
  then show ?thesis
    by (simp add: msg_norm_def frame_message_def set_stream_id_def set_field_def new_message_def field_defs)
qed

lemma field_norm_octets [simp]: "field_norm (JBin b) = JBin b"
  by (simp add: field_norm_def)

abbreviation chunk_message :: "stream_id \<Rightarrow> byte list \<Rightarrow> iotmp_message" where
  "chunk_message sid b \<equiv> frame_message sid (JBin b)"

definition frame_fits :: "json \<Rightarrow> bool" where
  "frame_fits v \<longleftrightarrow> field_fits v \<and> length (field_bytes (PAYLOAD, v)) \<le> 262100"

lemma frame_fits_msg: "frame_fits v \<Longrightarrow> msg_fits (frame_message sid v)"
proof -
  assume v: "frame_fits v"
  have "length (body_bytes (msg_fields (frame_message sid v))) \<le> 11 + 262100"
    using v varint_length_10 [of "ucast sid"] by (simp add: frame_fits_def frame_fields body_bytes_def)
  then have "length (encode_message (frame_message sid v)) \<le> 262144"
    using varint_length_10 [of "ucast (ucast (type_code STREAM_DATA) :: byte)"]
      varint_length_10 [of "word_of_nat (length (body_bytes (msg_fields (frame_message sid v))))"]
    by (simp add: encode_message_bytes)
  moreover have "(ucast sid :: u64) \<le> 0xFFFFFFFF"
    using unsigned_less [of sid, where 'a = nat] by (simp add: word_le_nat_alt unsigned_ucast_eq take_bit_nat_eq_self)
  ultimately show ?thesis
    using v by (simp add: msg_fits_def type_named_def type_of_def msg_ok_def frame_fields field_defs frame_fits_def
        field_fits_def [of "JUInt _"] max_field_value_def unat_MAX)
qed

lemma octets_fit: "length b \<le> 262000 \<Longrightarrow> frame_fits (JBin b)"
  using tag_length [of bytes_t "word_of_nat (length b)"]
  by (simp add: frame_fits_def field_fits_def max_u32_def)

section \<open>The session, the client and the wire\<close>

text \<open>The calls of \<open>stream_resource\<close> for a list of values.\<close>

definition send_frames :: "stream_id \<Rightarrow> json list \<Rightarrow> 'w client \<Rightarrow> 'w client" where
  "send_frames sid vs c = fold (\<lambda>v c. snd (stream_json sid v c)) vs c"

text \<open>An event of the session, a step of the write loop, or another message of the client.\<close>

datatype 'e relay_event = Source 'e | Loop | Wrote bool | Send iotmp_message

fun relay_step :: "('e \<Rightarrow> 's \<Rightarrow> 's) \<Rightarrow> ('s \<Rightarrow> json list) \<Rightarrow> stream_id \<Rightarrow> 'e relay_event \<Rightarrow> 's \<times> 'w client \<Rightarrow> 's \<times> 'w client" where
  "relay_step step frames sid (Source e) (s, c) =
     (let s' = step e s in (s', send_frames sid (drop (length (frames s)) (frames s')) c))"
| "relay_step step frames sid Loop (s, c) = (s, pump_step Resume c)"
| "relay_step step frames sid (Wrote ok) (s, c) = (s, pump_step (Written ok) c)"
| "relay_step step frames sid (Send m) (s, c) = (s, send_message m c)"

definition relay_run ::
    "('e \<Rightarrow> 's \<Rightarrow> 's) \<Rightarrow> ('s \<Rightarrow> json list) \<Rightarrow> stream_id \<Rightarrow> 'e relay_event list \<Rightarrow> 's \<times> 'w client \<Rightarrow> 's \<times> 'w client" where
  "relay_run step frames sid es s = fold (relay_step step frames sid) es s"

text \<open>The events of the session in a run.\<close>

fun source_events :: "'e relay_event list \<Rightarrow> 'e list" where
  "source_events [] = []"
| "source_events (Source e # es) = e # source_events es"
| "source_events (_ # es) = source_events es"

lemma relay_source: "fst (relay_run step frames sid es s) = fold step (source_events es) (fst s)"
  unfolding relay_run_def
proof (induction es arbitrary: s)
  case (Cons e es)
  then show ?case by (cases s; cases e) (simp_all add: Let_def)
qed simp

text \<open>What the server finds: the values of a stream, and the messages it reads from what was written.\<close>

definition frames_of :: "stream_id \<Rightarrow> iotmp_message \<Rightarrow> json list" where
  "frames_of sid m =
     (if msg_type m = STREAM_DATA \<and> get_stream_id m = sid \<and> has_payload m then [const_field PAYLOAD m] else [])"

definition server_frames :: "stream_id \<Rightarrow> iotmp_message list \<Rightarrow> json list" where
  "server_frames sid ms = concat (map (frames_of sid) ms)"

definition server_reads :: "byte list list \<Rightarrow> iotmp_message list" where
  "server_reads wire =
     fst (read_messages mr_read (replicate (length wire) True) (mr_new (concat wire) (length (concat wire))))"

text \<open>The octets of a value the server found on the stream.\<close>

fun octets :: "json \<Rightarrow> byte list" where
  "octets (JBin b) = b"
| "octets _ = []"

lemma octets_norm: "octets (field_norm (JBin b)) = b"
  by simp

lemma frames_of_frame [simp]: "frames_of sid (frame_message sid v) = [v]"
  by (simp add: frames_of_def get_stream_id_def has_payload_def has_field_def const_field_def field_of_def frame_fields field_defs)

lemma server_reads_frames:
  assumes "\<forall>m \<in> set ms. msg_fits m"
  shows "server_reads (map encode_message ms) = map msg_norm ms"
proof -
  let ?wire = "map encode_message ms"
  have "mr_ok (mr_new (concat ?wire) (length (concat ?wire)))"
    "mr_unread (mr_new (concat ?wire) (length (concat ?wire))) = concat (map encode_message ms) @ []" by simp_all
  with assms obtain s' where
    "read_messages mr_read (replicate (length ms) True) (mr_new (concat ?wire) (length (concat ?wire))) = (map msg_norm ms, s')"
    using byte_reader.read_messages_frames [OF mr.byte_reader_axioms] by meson
  then show ?thesis unfolding server_reads_def length_map by (rule ssubst) (rule fst_conv)
qed

fun relay_event_ok :: "('e \<Rightarrow> bool) \<Rightarrow> stream_id \<Rightarrow> 'e relay_event \<Rightarrow> bool" where
  "relay_event_ok event_ok sid (Source e) = event_ok e"
| "relay_event_ok event_ok sid Loop = True"
| "relay_event_ok event_ok sid (Wrote ok) = ok"
| "relay_event_ok event_ok sid (Send m) = (msg_fits m \<and> frames_of sid (msg_norm m) = [])"

text \<open>A connected client whose write loop is idle and has written nothing.\<close>

definition fresh_connection :: "'w client \<Rightarrow> bool" where
  "fresh_connection c \<longleftrightarrow>
     c_connected c \<and> c_pump c = Idle \<and> \<not> c_write_in_progress c \<and> c_write_queue c = [] \<and> c_wire c = []"

definition drained :: "'w client \<Rightarrow> bool" where
  "drained c \<longleftrightarrow> c_pump c = Idle \<and> c_write_queue c = []"

section \<open>Sessions whose values arrive\<close>

lemma send_frames_content:
  "c_connected c \<Longrightarrow> cw.pump_inv c \<Longrightarrow>
    cw.pump_inv (send_frames sid vs c) \<and> c_connected (send_frames sid vs c) \<and>
    cw.content (send_frames sid vs c) = cw.content c @ map (\<lambda>v. encode_message (frame_message sid v)) vs"
proof (induction vs arbitrary: c)
  case Nil
  then show ?case by (simp add: send_frames_def)
next
  case (Cons v vs)
  let ?c = "queue_write (encode_message (frame_message sid v)) c"
  have eq: "send_frames sid (v # vs) c = send_frames sid vs ?c"
    using Cons.prems(1) by (simp add: send_frames_def stream_json_def send_message_def frame_message_def)
  have "cw.apply_event (Enqueue (encode_message (frame_message sid v))) c = ?c" by (simp add: cw.apply_event_def)
  with cw.event_inv [OF Cons.prems(2)] cw.event_content(2) [OF Cons.prems(2)]
  have "cw.pump_inv ?c" "cw.content ?c = cw.content c @ [encode_message (frame_message sid v)]"
    by (metis, metis enqueued.simps(1,2) no_failure.simps(1,3))
  moreover have "c_connected ?c" using Cons.prems(1) by (simp add: queue_write_def Let_def)
  ultimately show ?case using Cons.IH [of ?c] by (simp add: eq)
qed

locale frame_source =
  fixes step :: "'e \<Rightarrow> 's \<Rightarrow> 's"
    and frames :: "'s \<Rightarrow> json list"
    and good :: "'s \<Rightarrow> bool"
    and event_ok :: "'e \<Rightarrow> bool"
  assumes step_good: "good s \<Longrightarrow> event_ok e \<Longrightarrow> good (step e s)"
    and step_frames: "good s \<Longrightarrow> event_ok e \<Longrightarrow> prefix (frames s) (frames (step e s))"
    and good_fits: "good s \<Longrightarrow> v \<in> set (frames s) \<Longrightarrow> frame_fits v"
begin

text \<open>
  The invariant: what is written, in flight and queued is the encoding of messages the server can read, and the values of the
  stream among them are those the session sent.
\<close>

definition relay_ok :: "stream_id \<Rightarrow> 's \<times> 'w client \<Rightarrow> bool" where
  "relay_ok sid p \<longleftrightarrow>
     c_connected (snd p) \<and> cw.pump_inv (snd p) \<and> good (fst p) \<and>
     (\<exists>ms. cw.content (snd p) = map encode_message ms \<and> (\<forall>m \<in> set ms. msg_fits m) \<and>
        concat (map (\<lambda>m. frames_of sid (msg_norm m)) ms) = map field_norm (frames (fst p)))"

lemma relay_ok_pump:
  assumes ok: "relay_ok sid (s, c)" and c': "c' = cw.apply_event e c" and "no_failure [e]"
    and ms: "enqueued [e] = map encode_message ms" "\<forall>m \<in> set ms. msg_fits m" "concat (map (\<lambda>m. frames_of sid (msg_norm m)) ms) = []"
    and "c_connected c'"
  shows "relay_ok sid (s, c')"
proof -
  obtain ms0 where ms0: "cw.content c = map encode_message ms0" "\<forall>m \<in> set ms0. msg_fits m"
    "concat (map (\<lambda>m. frames_of sid (msg_norm m)) ms0) = map field_norm (frames s)" and inv: "cw.pump_inv c"
    using ok by (auto simp: relay_ok_def)
  have "cw.content c' = map encode_message (ms0 @ ms)"
    unfolding c' cw.event_content(2) [OF inv assms(3)] ms0(1) ms(1) by simp
  moreover have "\<forall>m \<in> set (ms0 @ ms). msg_fits m"
    "concat (map (\<lambda>m. frames_of sid (msg_norm m)) (ms0 @ ms)) = map field_norm (frames s)"
    using ms0 ms by auto
  moreover have "cw.pump_inv c'" unfolding c' by (rule cw.event_inv [OF inv])
  ultimately show ?thesis using ok assms(7) unfolding relay_ok_def fst_conv snd_conv by blast
qed

lemma relay_ok_source:
  assumes ok: "relay_ok sid (s, c)" and e: "event_ok e"
  shows "relay_ok sid (step e s, send_frames sid (drop (length (frames s)) (frames (step e s))) c)"
proof -
  obtain ms0 where ms0: "cw.content c = map encode_message ms0" "\<forall>m \<in> set ms0. msg_fits m"
    "concat (map (\<lambda>m. frames_of sid (msg_norm m)) ms0) = map field_norm (frames s)"
    and con: "c_connected c" "cw.pump_inv c" and s: "good s"
    using ok by (auto simp: relay_ok_def)
  obtain vs where vs: "frames (step e s) = frames s @ vs" using step_frames [OF s e] by (auto elim: prefixE)
  have s': "good (step e s)" by (rule step_good [OF s e])
  let ?ms = "ms0 @ map (frame_message sid) vs"
  have "\<forall>m \<in> set ?ms. msg_fits m" using ms0(2) good_fits [OF s'] vs by (auto intro: frame_fits_msg)
  moreover have "concat (map (\<lambda>m. frames_of sid (msg_norm m)) ?ms) = map field_norm (frames (step e s))"
    using ms0(3) by (simp add: comp_def vs)
  moreover have "cw.content (send_frames sid vs c) = map encode_message ?ms"
    using send_frames_content [OF con, of sid vs] ms0(1) by (simp add: comp_def)
  ultimately have "\<exists>ms. cw.content (send_frames sid vs c) = map encode_message ms \<and> (\<forall>m \<in> set ms. msg_fits m) \<and>
      concat (map (\<lambda>m. frames_of sid (msg_norm m)) ms) = map field_norm (frames (step e s))" by blast
  with send_frames_content [OF con, of sid vs] s' show ?thesis by (simp add: relay_ok_def vs)
qed

lemma relay_ok_step: "relay_ok sid p \<Longrightarrow> relay_event_ok event_ok sid e \<Longrightarrow> relay_ok sid (relay_step step frames sid e p)"
proof -
  assume ok: "relay_ok sid p" and e: "relay_event_ok event_ok sid e"
  obtain s c where p: "p = (s, c)" by (cases p)
  have con: "c_connected c" "cw.pump_inv c" using ok p by (simp_all add: relay_ok_def)
  have next1: "c_connected (pump_next c) = c_connected c" for c :: "'a client"
    by (auto simp: pump_next_def split: list.split)
  show ?thesis
  proof (cases e)
    case (Source t)
    with relay_ok_source [of sid s c t] ok e p show ?thesis by (simp add: Let_def)
  next
    case Loop
    have "relay_ok sid (s, pump_step Resume c)"
      by (rule relay_ok_pump [OF ok [unfolded p] pump_step_apply, where ms = "[]"]) (simp_all add: next1 con)
    then show ?thesis by (simp add: Loop p)
  next
    case (Wrote b)
    have "c_connected (pump_written True c)" using con by (simp add: pump_written_def next1 split: pump.split)
    then have "relay_ok sid (s, pump_step (Written True) c)"
      by (intro relay_ok_pump [OF ok [unfolded p] pump_step_apply, where ms = "[]"]) simp_all
    with e show ?thesis by (simp add: Wrote p)
  next
    case (Send m)
    have "relay_ok sid (s, pump_step (Enqueue (encode_message m)) c)"
      by (rule relay_ok_pump [OF ok [unfolded p] pump_step_apply, where ms = "[m]"])
        (use e con in \<open>simp_all add: Send queue_write_def Let_def\<close>)
    then show ?thesis by (simp add: Send p send_message_def)
  qed
qed

lemma relay_ok_run: "relay_ok sid p \<Longrightarrow> list_all (relay_event_ok event_ok sid) es \<Longrightarrow> relay_ok sid (relay_run step frames sid es p)"
  unfolding relay_run_def by (induction es arbitrary: p) (simp_all add: relay_ok_step)

lemma good_source: "good s \<Longrightarrow> list_all (relay_event_ok event_ok sid) es \<Longrightarrow> good (fold step (source_events es) s)"
proof (induction es arbitrary: s)
  case (Cons e es)
  then show ?case by (cases e) (simp_all add: step_good)
qed simp

text \<open>What the server reads is a beginning of what the session sent, and all of it once the write loop has drained.\<close>

theorem frames_arrive:
  assumes "good s" and "frames s = []" and "fresh_connection c" and "list_all (relay_event_ok event_ok sid) es"
    and "relay_run step frames sid es (s, c) = (s', c')"
  shows "prefix (server_frames sid (server_reads (c_wire c'))) (map field_norm (frames s')) \<and>
    (drained c' \<longrightarrow> server_frames sid (server_reads (c_wire c')) = map field_norm (frames s'))"
proof -
  have "relay_ok sid (s, c)"
    using assms(1-3) by (simp add: relay_ok_def cw.pump_inv_def cw.content_def fresh_connection_def)
  from relay_ok_run [OF this assms(4)] assms(5) have "relay_ok sid (s', c')" by simp
  then obtain ms where ms: "cw.content c' = map encode_message ms" "\<forall>m \<in> set ms. msg_fits m"
    "concat (map (\<lambda>m. frames_of sid (msg_norm m)) ms) = map field_norm (frames s')" by (auto simp: relay_ok_def)
  define k where "k = length (c_wire c')"
  have w: "c_wire c' = map encode_message (take k ms)"
    using arg_cong [OF ms(1), of "take k"] by (simp add: cw.content_def k_def take_map)
  have "\<forall>m \<in> set (take k ms). msg_fits m" using ms(2) by (meson in_set_takeD)
  then have read: "server_frames sid (server_reads (c_wire c')) = concat (map (\<lambda>m. frames_of sid (msg_norm m)) (take k ms))"
    unfolding w server_frames_def by (simp add: server_reads_frames comp_def)
  have "concat (map (\<lambda>m. frames_of sid (msg_norm m)) (take k ms @ drop k ms)) = map field_norm (frames s')" by (simp add: ms(3))
  then have p: "prefix (server_frames sid (server_reads (c_wire c'))) (map field_norm (frames s'))"
    unfolding read map_append concat_append by (metis prefixI)
  have "server_frames sid (server_reads (c_wire c')) = map field_norm (frames s')" if "drained c'"
  proof -
    have "length ms = k" using arg_cong [OF ms(1), of length] that by (simp add: cw.content_def k_def drained_def)
    then show ?thesis by (simp add: read ms(3))
  qed
  with p show ?thesis by blast
qed

end

definition connected_client :: "unit client" where
  "connected_client = (new_client ())\<lparr>c_connected := True, c_socket := Some True\<rparr>"

lemma connected_fresh: "fresh_connection connected_client"
  by (simp add: fresh_connection_def connected_client_def new_client_def)

text \<open>Messages that are no data of a stream.\<close>

lemma keep_alive_sendable: "relay_event_ok event_ok sid (Send (new_message KEEP_ALIVE))"
proof -
  have "encode_message (new_message KEEP_ALIVE) = [5, 0]" by code_simp
  then show ?thesis
    by (simp add: msg_fits_def unat_MAX new_message_def type_named_def type_of_def msg_ok_def frames_of_def msg_norm_def)
qed

end
