(* ===== verification/Download_Wire.thy ===== *)
theory Download_Wire
  imports File_Window Stream_Wire
begin

text \<open>
  A download on the wire: the session, the client that sends its chunks, and the server that reads the connection, put
  together as an instance of \<open>frame_source\<close>.
\<close>

section \<open>What the session sends\<close>

definition sends :: "download \<Rightarrow> download \<Rightarrow> bool" where
  "sends d d' \<longleftrightarrow> d_stream_id d' = d_stream_id d \<and> limits d' = limits d \<and>
     (\<exists>bs. d_chunks d' = d_chunks d @ bs \<and> (\<forall>b \<in> set bs. length b \<le> unat (d_chunk_size d)))"

lemma sends_nothing: "d_stream_id d' = d_stream_id d \<Longrightarrow> limits d' = limits d \<Longrightarrow> d_chunks d' = d_chunks d \<Longrightarrow> sends d d'"
  by (simp add: sends_def)

lemma sends_next: "sends d (send_next_chunk delayed d)"
proof -
  have s: "d_stream_id (send_next_chunk delayed d) = d_stream_id d"
    by (auto simp: send_next_chunk_def Let_def d_read_def d_complete_def d_stop_def start_ack_timeout_def d_post_def)
  have "\<exists>bs. d_chunks (send_next_chunk delayed d) = d_chunks d @ bs \<and> (\<forall>b \<in> set bs. length b \<le> unat (d_chunk_size d))"
    by (auto simp: send_next_chunk_def Let_def d_read_def d_complete_def d_stop_def start_ack_timeout_def d_post_def)
  with s show ?thesis by (simp add: sends_def limits_send)
qed

lemma sends_step: "sends d (d_step e d)"
proof -
  have upd: "sends d d'" if "sends d1 d'" "d_stream_id d1 = d_stream_id d" "limits d1 = limits d" "d_chunks d1 = d_chunks d" for d1 d'
    using that by (auto simp: sends_def limits_def)
  have stop: "sends d1 (snd (d_stop reason d1))" for d1 reason
    by (rule sends_nothing) (simp_all, simp add: d_stop_def)
  have ack: "sends d1 (on_chunk_acknowledged n d1)" for d1 n
    by (rule sends_nothing) (simp_all add: on_chunk_acknowledged_def Let_def, simp_all add: d_post_def d_complete_def d_stop_def)
  have same: "sends d d" by (simp add: sends_nothing)
  show ?thesis
    using same stop ack
    by (cases e) (auto simp: d_step_def d_rate_timeout_def d_ack_timeout_def d_completion_timeout_def d_handle_input_def Let_def
        intro: upd [OF sends_next] upd [OF stop] upd [OF ack] sends_nothing split: nat.split option.split)
qed

section \<open>From the file to the server\<close>

definition download_frames :: "download \<Rightarrow> json list" where
  "download_frames d = map JBin (d_chunks d)"

definition chunks_small :: "download \<Rightarrow> bool" where
  "chunks_small d \<longleftrightarrow>
     unat (d_chunk_size d) \<le> 262000 \<and> (\<forall>b \<in> set (d_chunks d). length b \<le> unat (d_chunk_size d))"

interpretation dl: frame_source d_step download_frames chunks_small "\<lambda>_. True"
proof unfold_locales
  fix d e
  obtain bs where bs: "d_chunks (d_step e d) = d_chunks d @ bs" "\<forall>b \<in> set bs. length b \<le> unat (d_chunk_size d)"
    and size: "d_chunk_size (d_step e d) = d_chunk_size d"
    using sends_step [of d e] by (auto simp: sends_def limits_def)
  show "chunks_small d \<Longrightarrow> chunks_small (d_step e d)" using bs size by (auto simp: chunks_small_def)
  show "prefix (download_frames d) (download_frames (d_step e d))" using bs(1) by (simp add: download_frames_def)
next
  fix d v
  assume "chunks_small d" and "v \<in> set (download_frames d)"
  then show "frame_fits v" by (auto simp: chunks_small_def download_frames_def intro!: octets_fit)
qed

lemma download_fold: "download_ok content d \<Longrightarrow> download_ok content (fold d_step es d)"
  by (induction es arbitrary: d) (simp_all add: download_ok_step)

lemma frames_octets: "concat (map octets (map field_norm (download_frames d))) = concat (d_chunks d)"
proof -
  have "octets \<circ> field_norm \<circ> JBin = id" by (simp add: fun_eq_iff field_norm_def)
  then show ?thesis by (simp add: download_frames_def comp_assoc)
qed

text \<open>C8: From the file to the server. A started download runs with a connected client whose write loop is idle and has written
  nothing, among any other messages the client sends that are no data of the stream. As long as no write fails, what the
  server reads on the stream from the octets written to the socket is a beginning of the file; and once the
  download is completed and the write loop has drained, it is the file, unless a read of the file failed.\<close>

theorem download_reaches_server:
  assumes "cf_chunk_size cfg \<noteq> 0" and "unat (cf_chunk_size cfg) \<le> 262000" and "length content < 2 ^ 64"
    and "fresh_connection c" and "list_all (relay_event_ok (\<lambda>_. True) (cf_stream_id cfg)) es"
  shows "let (d, c') = relay_run d_step download_frames (cf_stream_id cfg) es (started_download cfg content, c);
      received = concat (map octets (server_frames (cf_stream_id cfg) (server_reads (c_wire c'))))
    in prefix received content \<and>
      (d_state d = COMPLETED \<and> drained c' \<and> D_Read_Fails \<notin> set (source_events es) \<longrightarrow> received = content)"
proof -
  let ?d0 = "started_download cfg content" and ?sid = "cf_stream_id cfg"
  obtain d c' where run: "relay_run d_step download_frames ?sid es (?d0, c) = (d, c')" by (rule prod.exhaust)
  let ?read = "server_frames ?sid (server_reads (c_wire c'))"
  have d0: "d_chunk_size ?d0 = cf_chunk_size cfg" "d_chunks ?d0 = []"
    by (simp_all add: started_download_def d_start_def file_download_session_def)
  have arrive: "prefix ?read (map field_norm (download_frames d))" "drained c' \<longrightarrow> ?read = map field_norm (download_frames d)"
    using dl.frames_arrive [OF _ _ assms(4,5) run] d0 assms(2) by (simp_all add: chunks_small_def download_frames_def)
  have "d = fold d_step (source_events es) ?d0"
    using relay_source [of d_step download_frames ?sid es "(?d0, c)"] by (simp add: run)
  then have d: "download_ok content d"
    using download_fold [OF started_ok [OF assms(1,3)], where es = "source_events es"] by simp
  from arrive(1) obtain rest where "map field_norm (download_frames d) = ?read @ rest" by (auto elim: prefixE)
  then have "concat (d_chunks d) = concat (map octets ?read) @ concat (map octets rest)"
    unfolding frames_octets [symmetric] by simp
  then have "prefix (concat (map octets ?read)) (concat (d_chunks d))" by simp
  moreover have "prefix (concat (d_chunks d)) content" using d by (auto simp: download_ok_def)
  ultimately have "prefix (concat (map octets ?read)) content" by (rule prefix_order.trans)
  moreover have "concat (map octets ?read) = content"
    if "d_state d = COMPLETED" "drained c'" "D_Read_Fails \<notin> set (source_events es)"
  proof -
    have "\<not> d_bad ?d0" by (simp add: started_download_def d_start_def file_download_session_def)
    then have "\<not> d_bad d" using bad_run [OF that(3), of ?d0] \<open>d = fold d_step (source_events es) ?d0\<close> by (simp add: d_run_def)
    then show ?thesis using arrive(2) that(1,2) d by (simp only: frames_octets) (auto simp: download_ok_def)
  qed
  ultimately show ?thesis unfolding run Let_def prod.case by blast
qed

definition small_transfer :: "download_event relay_event list" where
  "small_transfer =
     [Source (D_Posted False), Send (new_message KEEP_ALIVE), Loop, Wrote True, Source (D_Posted False), Wrote True,
      Source (D_Ack (JObj [(''bytes'', JUInt 3)])), Wrote True, Wrote True]"

theorem download_reaches_server_witness:
  "case relay_run d_step download_frames 0 small_transfer (started_download small_download [1, 2, 3], connected_client) of (d, c') \<Rightarrow>
     d_state d = COMPLETED \<and> length (c_wire c') = 3 \<and>
     concat (map octets (server_frames 0 (server_reads (c_wire c')))) = [1, 2, 3]"
proof -
  let ?s = "relay_run d_step download_frames 0 small_transfer (started_download small_download [1, 2, 3], connected_client)"
  have run: "case ?s of (d, c') \<Rightarrow> d_state d = COMPLETED \<and> length (c_wire c') = 3 \<and> drained c'" by code_simp
  have "D_Read_Fails \<notin> set (source_events small_transfer)" by (simp add: small_transfer_def)
  moreover have cfg: "cf_stream_id small_download = 0" "cf_chunk_size small_download = 2"
    by (simp_all add: small_download_def new_transfer_config_def)
  moreover have "list_all (relay_event_ok (\<lambda>_. True) (cf_stream_id small_download)) small_transfer"
    using keep_alive_sendable [where 'a = download_event] by (simp add: small_transfer_def)
  ultimately show ?thesis
    using download_reaches_server [of small_download "[1, 2, 3]" connected_client small_transfer] connected_fresh run cfg by (auto simp: Let_def split: prod.splits)
qed

end
