(* ===== verification/Session_Wire.thy ===== *)
theory Session_Wire
  imports Stream_Wire Client_Session_Correct Stream_Manager_Correct
begin

text \<open>
  From the server to a session: a data message of a stream reaches the session the stream leads to, in one step of the client. The
  state of the application is the stream manager. The second part follows the octets through a session that queues
  them for a write loop: tunnels, terminals and commands are instances of its locale.
\<close>

section \<open>From a message to the session\<close>

text \<open>A stream of the client that leads to a session: its entry, the resource of the manager, and the table of the manager.\<close>

definition leads_to :: "stream_id \<Rightarrow> nat \<Rightarrow> 'x session_ops \<Rightarrow> 'x manager client \<Rightarrow> bool" where
  "leads_to sid i ops c \<longleftrightarrow>
     (\<exists>cfg path n. map_of (c_streams c) sid = Some cfg \<and> sc_resource cfg = Some (Resource_At path) \<and>
        map_of (c_resources c) path = Some (set_resource_stream_id n (manager_resource ops new_resource))) \<and>
     map_of (sm_sessions (c_world c)) sid = Some i \<and> lock i (c_world c) \<noteq> None"

lemma manager_input:
  "run_resource (set_resource_stream_id n (manager_resource ops new_resource)) request response m =
    (Some \<lparr>rr_success = True, rr_request = input_back (input_of request) request, rr_response = response, rr_after = None\<rparr>,
     sm_receive ops (get_stream_id request) (const_field PAYLOAD request) m)"
  "r_stream_echo (set_resource_stream_id n (manager_resource ops new_resource)) = False"
  by (simp_all add: run_resource_def set_resource_stream_id_def manager_resource_def set_stream_handler_def set_stream_echo_def
      set_input_def new_resource_def call_input_def input_of_def)

lemma manager_stream:
  "has_stream_handler (set_resource_stream_id n (manager_resource ops r))"
  "handle_stream (set_resource_stream_id n (manager_resource ops r)) sid path prms enabled m =
    (let h = length (sm_replies m) + length (sm_starting m); m' = sm_stream_handler ops sid path prms enabled h m
     in (Some (map snd (drop (length (sm_replies m)) (sm_replies m'))), m'))"
  "set_resource_stream_id k (set_resource_stream_id n (manager_resource ops r)) = set_resource_stream_id k (manager_resource ops r)"
  by (simp_all add: has_stream_handler_def handle_stream_def set_resource_stream_id_def manager_resource_def
      set_stream_handler_def Let_def)

lemma chunk_content [simp]: "get_stream_id (chunk_message sid b) = sid" "const_field PAYLOAD (chunk_message sid b) = JBin b"
  by (simp_all add: get_stream_id_def const_field_def field_of_def frame_fields field_defs)

lemma chunk_handled:
  assumes "leads_to sid i ops c"
  shows "handle_message (chunk_message sid b) c =
    (Finished, c\<lparr>c_world := update_object i (op_input ops (JBin b)) (c_world c)\<rparr>)"
proof -
  from assms obtain cfg path n where s: "map_of (c_streams c) sid = Some cfg" "sc_resource cfg = Some (Resource_At path)"
    "map_of (c_resources c) path = Some (set_resource_stream_id n (manager_resource ops new_resource))"
    and m: "map_of (sm_sessions (c_world c)) sid = Some i" "lock i (c_world c) \<noteq> None"
    by (auto simp: leads_to_def)
  have "find_resource c (chunk_message sid b) = Some (Some (Resource_At path), chunk_message sid b)"
    by (simp add: find_resource_def stream_ref_def s)
  with s m show ?thesis
    by (simp add: handle_message_def handle_resource_request_def handle_stream_data_def manager_input sm_receive_def)
qed

lemma lock_updated [simp]: "lock i (update_object i f m) = map_option (\<lambda>ob. ob\<lparr>so_state := f (so_state ob)\<rparr>) (lock i m)"
proof -
  have "map_of (map (\<lambda>(j, ob). (j, if j = i then ob\<lparr>so_state := f (so_state ob)\<rparr> else ob)) xs) i =
      map_option (\<lambda>ob. ob\<lparr>so_state := f (so_state ob)\<rparr>) (map_of xs i)" for xs
    by (induction xs) auto
  then show ?thesis by (simp add: lock_def update_object_def)
qed

lemma leads_to_update:
  assumes "leads_to sid i ops c"
  shows "leads_to sid i ops (c\<lparr>c_world := update_object i f (c_world c)\<rparr>)"
proof -
  have "sm_sessions (update_object i f m) = sm_sessions m" for m by (simp add: update_object_def)
  with assms show ?thesis by (auto simp: leads_to_def)
qed

text \<open>All the chunks reach the session, in order.\<close>

lemma chunks_handled:
  "leads_to sid i ops c \<Longrightarrow> lock i (c_world c) = Some ob \<Longrightarrow>
    lock i (c_world (handle_all (map (chunk_message sid) bs) c)) =
      Some (ob\<lparr>so_state := fold (\<lambda>b. op_input ops (JBin b)) bs (so_state ob)\<rparr>)"
proof (induction bs arbitrary: c ob)
  case Nil
  then show ?case by (simp add: handle_all_def)
next
  case (Cons b bs)
  let ?c = "c\<lparr>c_world := update_object i (op_input ops (JBin b)) (c_world c)\<rparr>"
  have step: "handle_all (map (chunk_message sid) (b # bs)) c = handle_all (map (chunk_message sid) bs) ?c"
    by (simp add: handle_all_def chunk_handled [OF Cons.prems(1)])
  show ?case
    unfolding step by (subst Cons.IH [OF leads_to_update [OF Cons.prems(1)]]) (simp_all add: Cons.prems(2), cases ob, simp)
qed

text \<open>A stream comes to lead to a session by a request that starts it, and the end of the session's \<open>start\<close>.\<close>

lemma started_leads_to:
  assumes "map_of (c_resources c) path = Some (set_resource_stream_id n (manager_resource ops new_resource))"
    and "get_resource (c_resources c) req (const_field 0 request) = Some (Some path, captures)"
    and "msg_type request = START_STREAM" and "field_of RESOURCE request = Some (JStr req)"
    and "c_world c = new_manager"
    and "op_create ops (get_stream_id request) (get_string captures ''session'' []) (const_field PARAMETERS request) = Some x"
    and "exec_ok result"
  shows "let c1 = snd (handle_message request c);
      c2 = c1\<lparr>c_world := sm_started 0 result (update_object 0 f (c_world c1))\<rparr>
    in leads_to (get_stream_id request) 0 ops c2 \<and> map_option so_state (lock 0 (c_world c1)) = Some x \<and>
      map_option so_state (lock 0 (c_world c2)) = Some (f x)"
proof -
  let ?sid = "get_stream_id request" and ?r = "\<lambda>n. set_resource_stream_id n (manager_resource ops new_resource)"
  let ?request = "set_field 0 captures request"
  have find: "find_resource c request = Some (Some (Resource_At path), ?request)"
    using assms(2-4) by (simp add: find_resource_def stream_ref_def)
  have f: "get_stream_id ?request = ?sid" "const_field PARAMETERS ?request = const_field PARAMETERS request" "const_field 0 ?request = captures"
    "msg_type ?request = START_STREAM"
    using assms(3) by (simp_all add: field_defs)
  let ?ob = "\<lparr>so_stream_id = ?sid, so_session = get_string captures ''session'' [], so_on_end = False, so_state = x\<rparr>"
  have start: "sm_stream_handler ops ?sid captures (const_field PARAMETERS request) True 0 new_manager =
      new_manager\<lparr>sm_objects := [(0, ?ob)], sm_next := 1, sm_active := 1, sm_starting := [(0, 0)]\<rparr>"
    using assms(6) by (simp add: sm_stream_handler_def sm_start_def new_manager_def new_session_def)
  have message: "handle_message request c = handle_start_stream (Resource_At path) (?r n) ?request c"
    using assms(1,3) by (simp add: handle_message_def handle_resource_request_def find f)
  have apart: "PARAMETERS \<noteq> 0" by (simp add: field_defs)
  have idle: "sm_replies new_manager = []" "sm_starting new_manager = []" by (simp_all add: new_manager_def)
  have handled: "\<exists>k. c_world (snd (handle_message request c)) =
      new_manager\<lparr>sm_objects := [(0, ?ob)], sm_next := 1, sm_active := 1, sm_starting := [(0, 0)]\<rparr> \<and>
      map_of (c_resources (snd (handle_message request c))) path = Some (?r k) \<and>
      (\<exists>cfg. map_of (c_streams (snd (handle_message request c))) ?sid = Some cfg \<and> sc_resource cfg = Some (Resource_At path))"
    unfolding message using start
    by (cases "get_num (const_field PARAMETERS request) ''interval'' (0 :: u32) = 0")
      (simp_all add: handle_start_stream_def Let_def f manager_stream assms(5) idle apart, blast, use assms(1) in blast)
  then show ?thesis
    using assms(7) by (auto simp: leads_to_def Let_def sm_started_def lock_def update_object_def emplace_def
        set_on_end_listener_def sm_reply_def new_manager_def)
qed

section \<open>Sessions that queue what they are fed\<close>

text \<open>A chunk of the server, or a step of the session's write loop.\<close>

datatype feed = Feed "byte list" | Pump "byte list pump_event"

fun fed :: "feed list \<Rightarrow> byte list list" where
  "fed [] = []"
| "fed (Feed b # es) = b # fed es"
| "fed (Pump w # es) = fed es"

text \<open>The loop is not fed directly, and its writes do not fail.\<close>

fun feed_ok :: "feed \<Rightarrow> bool" where
  "feed_ok (Feed b) = True"
| "feed_ok (Pump w) = (enqueued [w] = [] \<and> no_failure [w])"

fun feed_step :: "(json \<Rightarrow> 's \<Rightarrow> 's) \<Rightarrow> (byte list pump_event \<Rightarrow> 's \<Rightarrow> 's) \<Rightarrow> feed \<Rightarrow> 's \<Rightarrow> 's" where
  "feed_step take_input pump_loop (Feed b) s = take_input (JBin b) s"
| "feed_step take_input pump_loop (Pump w) s = pump_loop w s"

fun feed_client :: "'x session_ops \<Rightarrow> (byte list pump_event \<Rightarrow> 'x \<Rightarrow> 'x) \<Rightarrow> stream_id \<Rightarrow> nat \<Rightarrow> feed \<Rightarrow> 'x manager client \<Rightarrow> 'x manager client" where
  "feed_client ops pump_loop sid i (Feed b) c = snd (handle_message (chunk_message sid b) c)"
| "feed_client ops pump_loop sid i (Pump w) c = c\<lparr>c_world := update_object i (pump_loop w) (c_world c)\<rparr>"

lemma feed_client_run:
  "leads_to sid i ops c \<Longrightarrow> lock i (c_world c) = Some ob \<Longrightarrow>
    lock i (c_world (fold (feed_client ops pump_loop sid i) es c)) =
      Some (ob\<lparr>so_state := fold (feed_step (op_input ops) pump_loop) es (so_state ob)\<rparr>)"
proof (induction es arbitrary: c ob)
  case (Cons e es)
  obtain f where f: "feed_client ops pump_loop sid i e c = c\<lparr>c_world := update_object i f (c_world c)\<rparr>"
    and s: "feed_step (op_input ops) pump_loop e = f"
    by (cases e) (auto simp: chunk_handled [OF Cons.prems(1)] fun_eq_iff)
  show ?case
    using Cons.IH [OF leads_to_update [OF Cons.prems(1)], of f "ob\<lparr>so_state := f (so_state ob)\<rparr>"] Cons.prems(2)
    by (cases ob) (simp add: f s)
qed simp

text \<open>
  The messages of a stream are handled one after the other, among the steps of the session's write loop: \<open>None\<close> is the next
  message.
\<close>

fun interleaved :: "(byte list pump_event \<Rightarrow> 'x \<Rightarrow> 'x) \<Rightarrow> nat \<Rightarrow> iotmp_message list \<Rightarrow> byte list pump_event option list \<Rightarrow>
    'x manager client \<Rightarrow> 'x manager client" where
  "interleaved pump_loop i ms [] c = c"
| "interleaved pump_loop i (m # ms) (None # es) c = interleaved pump_loop i ms es (snd (handle_message m c))"
| "interleaved pump_loop i [] (None # es) c = interleaved pump_loop i [] es c"
| "interleaved pump_loop i ms (Some w # es) c =
     interleaved pump_loop i ms es (c\<lparr>c_world := update_object i (pump_loop w) (c_world c)\<rparr>)"

fun feeds :: "byte list list \<Rightarrow> byte list pump_event option list \<Rightarrow> feed list" where
  "feeds bs [] = []"
| "feeds (b # bs) (None # es) = Feed b # feeds bs es"
| "feeds [] (None # es) = feeds [] es"
| "feeds bs (Some w # es) = Pump w # feeds bs es"

fun loop_event_ok :: "byte list pump_event option \<Rightarrow> bool" where
  "loop_event_ok None = True"
| "loop_event_ok (Some w) = (enqueued [w] = [] \<and> no_failure [w])"

lemma interleaved_feeds:
  "interleaved pump_loop i (map (chunk_message sid) bs) es c = fold (feed_client ops pump_loop sid i) (feeds bs es) c"
  by (induction bs es arbitrary: c rule: feeds.induct) simp_all

lemma feeds_facts:
  "fed (feeds bs es) = take (count_list es None) bs" "list_all loop_event_ok es \<Longrightarrow> list_all feed_ok (feeds bs es)"
  by (induction bs es rule: feeds.induct) simp_all

lemma concat_nonempty: "concat (filter (\<lambda>b. b \<noteq> []) bs) = concat bs"
  by (induction bs) simp_all

lemma chunks_read:
  assumes "byte_reader rd unread invar" and "invar s" and "unread s = concat (map (\<lambda>b. encode_message (chunk_message sid b)) bs) @ rest"
    and "list_all (\<lambda>b. length b \<le> 262000) bs"
  obtains s' where "read_messages rd (replicate (length bs) True) s = (map (chunk_message sid) bs, s')" and "unread s' = rest"
proof -
  let ?ms = "map (chunk_message sid) bs"
  have "\<forall>m \<in> set ?ms. msg_fits m" using assms(4) by (auto simp: list_all_iff intro!: frame_fits_msg octets_fit)
  moreover have "unread s = concat (map encode_message ?ms) @ rest" using assms(3) by (simp add: comp_def)
  ultimately obtain s' where "read_messages rd (replicate (length ?ms) True) s = (map msg_norm ?ms, s')" "unread s' = rest"
    using byte_reader.read_messages_frames [OF assms(1,2)] by blast
  then show thesis by (intro that [of s']) (simp_all add: comp_def)
qed

locale fed_session = write_pump queue phase written in_progress ready enqueue resume complete
  for queue :: "'s \<Rightarrow> byte list list" and phase written in_progress ready enqueue resume complete +
  fixes take_input :: "json \<Rightarrow> 's \<Rightarrow> 's"
    and accepting :: "'s \<Rightarrow> bool"
  assumes input_accepted: "accepting s \<Longrightarrow> pump_inv s \<Longrightarrow>
      pump_inv (take_input (JBin b) s) \<and> content (take_input (JBin b) s) = content s @ (if b = [] then [] else [b]) \<and>
      accepting (take_input (JBin b) s)"
    and loop_accepts: "accepting s \<Longrightarrow> enqueued [w] = [] \<Longrightarrow> no_failure [w] \<Longrightarrow> accepting (apply_event w s)"
begin

text \<open>What is written, in flight and queued is what the session was fed, in order.\<close>

theorem fed_content:
  "accepting s \<Longrightarrow> pump_inv s \<Longrightarrow> list_all feed_ok es \<Longrightarrow>
    content (fold (feed_step take_input apply_event) es s) = content s @ filter (\<lambda>b. b \<noteq> []) (fed es)"
proof (induction es arbitrary: s)
  case (Cons e es)
  show ?case
  proof (cases e)
    case (Feed b)
    from input_accepted [OF Cons.prems(1,2), of b] Cons show ?thesis by (simp add: Feed)
  next
    case (Pump w)
    then have w: "enqueued [w] = []" "no_failure [w]" using Cons.prems(3) by simp_all
    from Cons.IH [OF loop_accepts [OF Cons.prems(1) w] event_inv [OF Cons.prems(2)]] event_content(2) [OF Cons.prems(2) w(2)] w Cons.prems(3)
    show ?thesis by (simp add: Pump)
  qed
qed simp

text \<open>
  From the octets of the connection to what the session writes: the chunks are read, each reaches the session, and the session
  writes their octets in order; all of them when every chunk was handled and its loop is done.
\<close>

theorem octets_arrive:
  assumes "byte_reader rd unread invar" and "invar s" and "unread s = concat (map (\<lambda>b. encode_message (chunk_message sid b)) bs) @ rest"
    and "list_all (\<lambda>b. length b \<le> 262000) bs"
    and "leads_to sid i ops c" and "op_input ops = take_input" and "lock i (c_world c) = Some ob"
    and "accepting (so_state ob)" and "pump_inv (so_state ob)" and "content (so_state ob) = []"
    and "list_all loop_event_ok es"
  shows "case read_messages rd (replicate (length bs) True) s of (ms, s') \<Rightarrow>
      unread s' = rest \<and>
      (case lock i (c_world (interleaved apply_event i ms es c)) of
         None \<Rightarrow> False
       | Some ob' \<Rightarrow>
           prefix (concat (written (so_state ob'))) (concat bs) \<and>
           (length bs \<le> count_list es None \<and> phase (so_state ob') = Idle \<and> queue (so_state ob') = [] \<longrightarrow>
             concat (written (so_state ob')) = concat bs))"
proof -
  obtain s' where read: "read_messages rd (replicate (length bs) True) s = (map (chunk_message sid) bs, s')" "unread s' = rest"
    by (rule chunks_read [OF assms(1-4)])
  let ?x = "fold (feed_step take_input apply_event) (feeds bs es) (so_state ob)" and ?k = "count_list es None"
  have x: "lock i (c_world (interleaved apply_event i (map (chunk_message sid) bs) es c)) = Some (ob\<lparr>so_state := ?x\<rparr>)"
    unfolding interleaved_feeds [where ops = ops] feed_client_run [OF assms(5,7)] assms(6) ..
  have "content ?x = filter (\<lambda>b. b \<noteq> []) (take ?k bs)"
    using fed_content [OF assms(8,9) feeds_facts(2) [OF assms(11)], of bs] by (simp add: assms(10) feeds_facts(1))
  then have all: "concat (content ?x) = concat (take ?k bs)" by (simp add: concat_nonempty)
  have "prefix (concat (written ?x)) (concat (take ?k bs))" unfolding all [symmetric] content_def by simp
  moreover have "concat bs = concat (take ?k bs) @ concat (drop ?k bs)" by (metis append_take_drop_id concat_append)
  ultimately have pre: "prefix (concat (written ?x)) (concat bs)" by simp
  have whole: "concat (written ?x) = concat bs" if "length bs \<le> ?k" "phase ?x = Idle" "queue ?x = []"
    using all that by (simp add: content_def)
  show ?thesis unfolding read(1) prod.case x option.case using read(2) pre whole by simp
qed

end

end
