(* ===== verification/Filesystem_Correct.thy ===== *)
theory Filesystem_Correct
  imports Filesystem
begin

text \<open>
  What the file handlers may do to the file system, and what they answer: the lemmas follow each handler
  through its branches once, the properties combine them.
\<close>

section \<open>The path of a request\<close>

definition validated :: "'f fs_ops \<Rightarrow> string \<Rightarrow> 'f \<Rightarrow> string \<Rightarrow> bool" where
  "validated ops base f p \<longleftrightarrow> validate_resolved_path (f_canonical ops f) (f_weakly_canonical ops f) base p = Some True"

lemma resolve_validated:
  "resolve_and_validate_path ops base f name check i out = Some (i1, Inr p) \<Longrightarrow>
     validated ops base f p \<and> (check \<longrightarrow> f_exists ops f p = Some True)"
  by (auto simp: resolve_and_validate_path_def validated_def Let_def Option.bind_eq_Some_conv split: if_splits)

text \<open>Either the handler ends before it has a path, and the file system is as it was, or it goes on with a valid one.\<close>

lemma with_path_cases:
  obtains "snd (with_path ops base name check i out f k) = f"
  | i1 p where "validated ops base f p" "check \<longrightarrow> f_exists ops f p = Some True"
      "with_path ops base name check i out f k = k i1 p"
proof (cases "resolve_and_validate_path ops base f name check i out")
  case None
  then show ?thesis by (intro that(1)) (simp add: with_path_def)
next
  case (Some r)
  then obtain i1 r1 where r: "r = (i1, r1)" by (cases r)
  show ?thesis
  proof (cases r1)
    case (Inl out1)
    with Some r show ?thesis by (intro that(1)) (simp add: with_path_def finish_def)
  next
    case (Inr p)
    with Some r resolve_validated [of ops base f name check i out i1 p] show ?thesis
      by (intro that(2) [of p i1]) (auto simp: with_path_def)
  qed
qed

lemma with_path_P:
  assumes "P f" and "\<And>i1 p. validated ops base f p \<Longrightarrow> check \<longrightarrow> f_exists ops f p = Some True \<Longrightarrow> P (snd (k i1 p))"
  shows "P (snd (with_path ops base name check i out f k))"
  by (rule with_path_cases [of ops base name check i out f k]) (use assms in auto)

lemma with_path_keeps: "(\<And>i1 p. snd (k i1 p) = f) \<Longrightarrow> snd (with_path ops base name check i out f k) = f"
  by (rule with_path_cases [of ops base name check i out f k]) auto

lemma finish_keeps [simp]: "snd (finish i out f) = f"
  by (simp add: finish_def)

lemma describe_keeps [simp]: "snd (describe_with ins outs i out f) = f"
  by (simp add: describe_with_def split: option.split)

section \<open>Handlers that read\<close>

lemma list_keeps: "snd (handle_list ops base i out f) = f"
  by (auto simp: handle_list_def Let_def intro!: with_path_keeps split: sum.split)

lemma download_keeps: "snd (handle_download ops base i out f) = f"
  by (auto simp: handle_download_def intro!: with_path_keeps split: sum.split open_result.split)

lemma get_keeps: "snd (handle_get ops base i out f) = f"
  by (auto simp: handle_get_def list_keeps download_keeps intro!: with_path_keeps split: option.split sum.split)

lemma info_keeps: "snd (handle_info ops base i out f) = f"
  by (auto simp: handle_info_def intro!: with_path_keeps split: sum.split)

lemma hash_keeps: "snd (handle_hash ops base i out f) = f"
  by (auto simp: handle_hash_def Let_def intro!: with_path_keeps split: sum.split open_result.split digest_result.split)

section \<open>Handlers that change\<close>

text \<open>The shape that ends delete and move: an error or a result, in the state after the operation.\<close>

lemma ends_with_op [simp]:
  "snd (case r of (Some message, f1) \<Rightarrow> finish i (e message) f1 | (None, f1) \<Rightarrow> finish i out f1) = snd r"
  by (cases r) (simp split: option.split)

lemma delete_changes:
  "snd (handle_delete ops base i out f) = f \<or>
   (\<exists>p. validated ops base f p \<and> \<not> path_eq p base \<and>
      snd (handle_delete ops base i out f) \<in> {snd (f_remove ops p f), snd (f_remove_all ops p f)})"
proof (cases "in_describe i")
  case True
  then show ?thesis by (simp add: handle_delete_def)
next
  case False
  show ?thesis
    unfolding handle_delete_def if_not_P [OF False]
    by (rule with_path_P [where P = "\<lambda>g. g = f \<or> (\<exists>p. validated ops base f p \<and> \<not> path_eq p base \<and>
          g \<in> {snd (f_remove ops p f), snd (f_remove_all ops p f)})"]) (auto simp: Let_def)
qed

text \<open>What is removed is the path of the request, and when that does not end in a separator neither the base nor its parent.\<close>

lemma resolved_path:
  "resolve_and_validate_path ops base f name check i out = Some (i1, Inr p) \<Longrightarrow> \<exists>path. p = resolve_path base (f_current_path ops f) path"
  by (auto simp: resolve_and_validate_path_def Let_def Option.bind_eq_Some_conv split: if_splits)

lemma parent_names:
  assumes "base_ok base bs"
  shows "path_elems (parent_path base) = ''/'' # butlast bs"
proof -
  have "name_list (butlast bs)"
    using assms by (auto simp: base_ok_def name_list_def list_all_iff dest: in_set_butlastD)
  then show ?thesis
    using base_names [OF assms] assms string_absolute [of "butlast bs"]
    by (simp add: parent_path_def path_elems_def base_ok_def names_string)
qed

lemma delete_spares:
  assumes base: "base_ok base bs" and r: "resolve_and_validate_path ops base f ''path'' True i out = Some (i1, Inr p)"
    and sep: "last (path_names p) \<noteq> []"
  shows "snd (handle_delete ops base i out f) = f \<or>
    is_absolute p \<and> normal_list (path_names p) \<and> denoted (path_names p) \<notin> {bs, butlast bs} \<and> validated ops base f p \<and>
    snd (handle_delete ops base i out f) \<in> {snd (f_remove ops p f), snd (f_remove_all ops p f)}"
proof (cases "in_describe i \<or> path_eq p base \<or> path_eq p (parent_path base)")
  case True
  with r show ?thesis by (auto simp: handle_delete_def with_path_def)
next
  case False
  obtain path where p: "p = resolve_path base (f_current_path ops f) path" using resolved_path [OF r] by blast
  have "path \<noteq> []" using False base_names(4) [OF base] by (auto simp: p resolve_path_def path_eq_def)
  note n = resolved_names [OF base this, where cwd = "f_current_path ops f", folded p]
  have "path_names p \<noteq> bs" "path_names p \<noteq> butlast bs"
    using False base_names(3) [OF base] parent_names [OF base] n(1) by (auto simp: path_eq_def path_elems_def)
  moreover have "snd (handle_delete ops base i out f) \<in> {snd (f_remove ops p f), snd (f_remove_all ops p f)}"
    using r False by (simp add: handle_delete_def with_path_def Let_def)
  ultimately show ?thesis using n sep resolve_validated [OF r] by (simp add: denoted_def)
qed

lemma delete_needs_path:
  "\<nexists>i1 p. resolve_and_validate_path ops base f ''path'' True i out = Some (i1, Inr p) \<Longrightarrow> snd (handle_delete ops base i out f) = f"
  by (auto simp: handle_delete_def with_path_def split: option.split sum.split)

lemma move_changes:
  "snd (handle_move ops base i out f) = f \<or>
   (\<exists>s d. validated ops base f s \<and> validated ops base f d \<and> snd (handle_move ops base i out f) = snd (f_rename ops s d f))"
proof (cases "in_describe i")
  case True
  then show ?thesis by (simp add: handle_move_def)
next
  case False
  show ?thesis
    unfolding handle_move_def if_not_P [OF False]
    by (rule with_path_P [where P = "\<lambda>g. g = f \<or> (\<exists>s d. validated ops base f s \<and> validated ops base f d \<and>
          g = snd (f_rename ops s d f))"])
      (auto simp: Let_def validated_def split: option.split bool.split)
qed

text \<open>The states a put can leave: those after making the parents, the directory, the file, or removing a partial one.\<close>

inductive put_result :: "'f fs_ops \<Rightarrow> 'f \<Rightarrow> string \<Rightarrow> 'f \<Rightarrow> bool" for ops f p where
  put_none: "put_result ops f p f"
| put_dir: "put_result ops f p (snd (f_create_directories ops p f))"
| put_parents: "put_result ops f p (snd (f_create_directories ops (parent_path p) f))"
| put_written: "f_write ops p data (snd (f_create_directories ops (parent_path p) f)) = (w, f2) \<Longrightarrow> put_result ops f p f2"
| put_removed: "f_write ops p data (snd (f_create_directories ops (parent_path p) f)) = (Write_Failed, f2) \<Longrightarrow>
    put_result ops f p (snd (f_remove ops p f2))"

lemma put_file_result: "put_result ops f p (snd (put_file ops p data i out f))"
proof -
  obtain e f1 where c: "f_create_directories ops (parent_path p) f = (e, f1)" by (rule prod.exhaust)
  obtain w f2 where w: "f_write ops p data f1 = (w, f2)" by (rule prod.exhaust)
  have "put_result ops f p f1" using put_parents [of ops f p] by (simp add: c)
  moreover have "put_result ops f p f2" using put_written [of ops p data f w f2] by (simp add: c w)
  moreover have "w = Write_Failed \<Longrightarrow> put_result ops f p (snd (f_remove ops p f2))"
    using put_removed [of ops p data f f2] by (simp add: c w)
  ultimately show ?thesis
    by (auto simp: put_file_def c w split: option.split write_result.split)
qed

lemma put_directory_result: "put_result ops f p (snd (put_directory ops p i out f))"
  using put_dir [of ops f p] by (cases "f_create_directories ops p f") (auto simp: put_directory_def split: option.split)

lemma put_changes:
  "snd (handle_put ops base i out f) = f \<or>
   (\<exists>p. validated ops base f p \<and> put_result ops f p (snd (handle_put ops base i out f)))"
proof (cases "in_describe i")
  case True
  then show ?thesis by (simp add: handle_put_def)
next
  case False
  show ?thesis
    unfolding handle_put_def if_not_P [OF False] Let_def
    by (rule with_path_P [where P = "\<lambda>g. g = f \<or> (\<exists>p. validated ops base f p \<and> put_result ops f p g)"])
      (auto simp: put_file_result put_directory_result split: option.split)
qed

section \<open>Refused requests\<close>

lemma refused:
  assumes "input_path i name [] \<noteq> []"
    and "validate_resolved_path (f_canonical ops f) (f_weakly_canonical ops f) base
      (resolve_path base (f_current_path ops f) (input_path i name [])) = Some False"
    and "out_data out = JNull"
  shows "with_path ops base name check i out f k =
    (Some (i, out\<lparr>out_success := False, out_code := 403,
       out_data := j_obj [(''error'', JStr ''Access denied: path outside allowed directory'')]\<rparr>), f)"
  using assms
  by (simp add: with_path_def resolve_and_validate_path_def Let_def set_error_code_def finish_def j_obj_def)

section \<open>Properties\<close>


text \<open>C31: A request whose path does not pass the validation is answered with 403 by each of the handlers, and nothing is
  read or changed.\<close>

theorem refused_requests:
  assumes "\<not> in_describe i" and "input_path i ''path'' [] \<noteq> []" and "out_data out = JNull"
    and "validate_resolved_path (f_canonical ops f) (f_weakly_canonical ops f) base
      (resolve_path base (f_current_path ops f) (input_path i ''path'' [])) = Some False"
    and "h \<in> {handle_get, handle_list, handle_download, handle_info, handle_hash, handle_put, handle_delete}"
  shows "h ops base i out f =
    (Some (i, out\<lparr>out_success := False, out_code := 403,
       out_data := j_obj [(''error'', JStr ''Access denied: path outside allowed directory'')]\<rparr>), f)"
  using assms(1,5) refused [OF assms(2,4,3)]
  by (auto simp: handle_get_def handle_list_def handle_download_def handle_info_def handle_hash_def handle_put_def
      handle_delete_def Let_def)

text \<open>A file system in memory to run the handlers on: plain files by their paths, no links.\<close>

type_synonym mem = "(string \<times> byte list) list"

definition mem_ops :: "mem fs_ops" where
  "mem_ops =
     \<lparr>f_exists = (\<lambda>f p. Some (map_of f p \<noteq> None)),
      f_status = (\<lambda>f p. if map_of f p = None then Inl ''No such file'' else Inr (regular_file, 0x1a4)),
      f_size = (\<lambda>f p. case map_of f p of None \<Rightarrow> Inl ''No such file'' | Some d \<Rightarrow> Inr (of_nat (length d))),
      f_mtime = (\<lambda>f p. Inr 0), f_entries = (\<lambda>f p. Inl ''Not a directory''),
      f_open = (\<lambda>f p. case map_of f p of None \<Rightarrow> Not_Opened 2 | Some d \<Rightarrow> Opened d False),
      f_create_directories = (\<lambda>p f. (None, f)), f_write = (\<lambda>p d f. (Written_All, AList.update p d f)),
      f_remove = (\<lambda>p f. (None, AList.delete p f)), f_remove_all = (\<lambda>p f. (None, AList.delete p f)),
      f_rename = (\<lambda>p q f. (None, f)), f_canonical = (\<lambda>f. Some), f_weakly_canonical = (\<lambda>f p. Some (lexically_normal p)),
      f_current_path = (\<lambda>f. ''/''), f_space = (\<lambda>f p. Inr 1000000), f_strerror = (\<lambda>_. ''error''),
      f_digest = (\<lambda>a d. No_Context)\<rparr>"

definition path_request :: "string \<Rightarrow> json \<Rightarrow> json \<Rightarrow> input" where
  "path_request path prms body = (new_input 0 body False)\<lparr>in_path := Some (j_obj [(''path'', JStr path)]), in_params := Some prms\<rparr>"

lemma path_request_path [simp]:
  "input_path (path_request p prms body) ''path'' [] = p" "in_describe (path_request p prms body) = False"
  "in_data (path_request p prms body) = body" "input_get_params (path_request p prms body) = prms"
  by (simp_all add: path_request_def input_path_def input_field_def j_obj_def new_input_def input_get_params_def)

lemma mem_refused:
  "validate_resolved_path (f_canonical mem_ops f) (f_weakly_canonical mem_ops f) ''/srv/data''
     (resolve_path ''/srv/data'' (f_current_path mem_ops f) ''../../etc/passwd'') = Some False"
  unfolding mem_ops_def by simp code_simp

theorem refused_requests_witness:
  "handle_delete mem_ops ''/srv/data'' (path_request ''../../etc/passwd'' JNull JNull) (new_output JNull False) [] =
     (Some (path_request ''../../etc/passwd'' JNull JNull, (new_output JNull False)\<lparr>out_success := False, out_code := 403,
        out_data := j_obj [(''error'', JStr ''Access denied: path outside allowed directory'')]\<rparr>), [])"
  by (rule refused_requests) (simp_all add: mem_refused new_output_def)


text \<open>What the file system says of a file with a content.\<close>

definition stores :: "'f fs_ops \<Rightarrow> 'f \<Rightarrow> string \<Rightarrow> byte list \<Rightarrow> bool" where
  "stores ops f p data \<longleftrightarrow>
     f_exists ops f p = Some True \<and> (\<exists>perms. f_status ops f p = Inr (regular_file, perms)) \<and>
     f_size ops f p = Inr (of_nat (length data)) \<and> f_open ops f p = Opened data False"

lemma resolved_request:
  assumes "input_path i ''path'' [] = path" and "path \<noteq> []"
    and "validated ops base f (resolve_path base (f_current_path ops f) path)"
    and "check \<longrightarrow> f_exists ops f (resolve_path base (f_current_path ops f) path) = Some True"
  shows "with_path ops base ''path'' check i out f k = k i (resolve_path base (f_current_path ops f) path)"
  using assms by (auto simp: with_path_def resolve_and_validate_path_def Let_def validated_def)

lemma small_length:
  assumes "length data \<le> 65536"
  shows "\<not> (of_nat (length data) :: u64) > MAX_INLINE_FILE_SIZE" and "unat (of_nat (length data) :: u64) = length data"
proof -
  show n: "unat (of_nat (length data) :: u64) = length data"
    using assms by (intro unat_word_of_nat_eq) simp
  show "\<not> (of_nat (length data) :: u64) > MAX_INLINE_FILE_SIZE"
    using assms by (simp add: word_less_nat_alt n MAX_INLINE_FILE_SIZE_def)
qed

text \<open>C29: A file of at most 64 KiB that was put where overwriting is allowed is what a get of the same path returns that does
  not ask for the metadata only, provided the file system stores what is written to it.\<close>

theorem put_then_get:
  assumes "path \<noteq> []" and "last path \<noteq> CHR ''/''" and "length data \<le> 65536" and "overwrite_param prms = Some True"
    and "p = resolve_path base (f_current_path ops f) path" and "validated ops base f p"
    and "f_create_directories ops (parent_path p) f = (None, f1)" and "f_write ops p data f1 = (Written_All, f2)"
    and "stores ops f2 p data" and "validated ops base f2 p" and "f_current_path ops f2 = f_current_path ops f"
    and "get_bool prms2 ''info'' False = False"
  shows "let (r, g) = handle_put ops base (path_request path prms (JBin data)) (new_output JNull False) f in
     r \<noteq> None \<and> out_success (snd (the r)) \<and>
     handle_get ops base (path_request path prms2 JNull) (new_output JNull False) g =
       (Some (path_request path prms2 JNull, (new_output JNull False)\<lparr>out_data := JBin data\<rparr>), g)"
proof -
  note [simp] = small_length [OF assms(3)]
  from assms(9) obtain perms where s: "f_exists ops f2 p = Some True" "f_status ops f2 p = Inr (regular_file, perms)"
    "f_size ops f2 p = Inr (of_nat (length data))" "f_open ops f2 p = Opened data False" by (auto simp: stores_def)
  have put: "handle_put ops base (path_request path prms (JBin data)) (new_output JNull False) f =
      put_file ops p data (path_request path prms (JBin data)) (new_output JNull False) f"
    unfolding handle_put_def using assms(1,2,4,6)
    by (simp add: resolved_request [where path = path] assms(5) [symmetric])
  have get: "handle_get ops base (path_request path prms2 JNull) (new_output JNull False) f2 =
      (Some (path_request path prms2 JNull, (new_output JNull False)\<lparr>out_data := JBin data\<rparr>), f2)"
    unfolding handle_get_def handle_download_def using assms(1,5,10,11) s
    by (simp add: resolved_request [where path = path] is_type_def finish_def)
  show ?thesis
    unfolding put by (simp add: put_file_def assms(7,8) finish_def put_out_def output_put_def new_output_def get [unfolded new_output_def, simplified])
qed

theorem put_then_get_witness:
  "fst (handle_get mem_ops ''/srv/data'' (path_request ''a.txt'' JNull JNull) (new_output JNull False)
     (snd (handle_put mem_ops ''/srv/data'' (path_request ''a.txt'' JNull (JBin [104, 105]))
        (new_output JNull False :: unit res_output) []))) =
   Some (path_request ''a.txt'' JNull JNull, (new_output JNull False :: unit res_output)\<lparr>out_data := JBin [104, 105]\<rparr>)"
proof -
  let ?p = "''/srv/data/a.txt''"
  have "resolve_path ''/srv/data'' ''/'' ''a.txt'' = ?p" by code_simp
  then have p: "?p = resolve_path ''/srv/data'' (f_current_path mem_ops []) ''a.txt''" by (simp add: mem_ops_def)
  have o: "overwrite_param JNull = Some True" by code_simp
  have "validate_resolved_path Some (\<lambda>p. Some (lexically_normal p)) ''/srv/data'' ?p = Some True" by code_simp
  then have val: "validated mem_ops ''/srv/data'' f ?p" for f by (simp add: validated_def mem_ops_def)
  have st: "stores mem_ops [(?p, [104, 105])] ?p [104, 105]" by (simp add: stores_def mem_ops_def)
  have w: "f_create_directories mem_ops (parent_path ?p) [] = (None, [])"
    "f_write mem_ops ?p [104, 105] [] = (Written_All, [(?p, [104, 105])])"
    "f_current_path mem_ops [(?p, [104, 105])] = f_current_path mem_ops []"
    by (simp_all add: mem_ops_def)
  obtain r g where h: "handle_put mem_ops ''/srv/data'' (path_request ''a.txt'' JNull (JBin [104, 105]))
      (new_output JNull False :: unit res_output) [] = (r, g)" by (rule prod.exhaust)
  have "get_bool JNull ''info'' False = False" by code_simp
  from put_then_get [OF _ _ _ o p val w(1,2) st val w(3) this, where 'b = unit and 'c = unit] h
  show ?thesis by simp
qed

text \<open>The text of the permissions shows the nine permission bits and nothing else: two modes have the same
  text exactly when they agree on these bits.\<close>

lemma and_bit_iff: "((p :: u32) AND push_bit n 1 \<noteq> 0) = bit p n"
  by (simp add: bit_iff_and_push_bit_not_eq_0)

theorem permissions_faithful:
  "length (format_permissions p) = 9 \<and> (format_permissions p = format_permissions q \<longleftrightarrow> p AND 0x1ff = q AND 0x1ff)"
proof -
  have b: "(p AND 0x100 \<noteq> 0) = bit p 8" "(p AND 0x80 \<noteq> 0) = bit p 7" "(p AND 0x40 \<noteq> 0) = bit p 6"
    "(p AND 0x20 \<noteq> 0) = bit p 5" "(p AND 0x10 \<noteq> 0) = bit p 4" "(p AND 0x8 \<noteq> 0) = bit p 3"
    "(p AND 0x4 \<noteq> 0) = bit p 2" "(p AND 0x2 \<noteq> 0) = bit p 1" "(p AND 0x1 \<noteq> 0) = bit p 0" for p :: u32
    using and_bit_iff [of p 8] and_bit_iff [of p 7] and_bit_iff [of p 6] and_bit_iff [of p 5] and_bit_iff [of p 4]
      and_bit_iff [of p 3] and_bit_iff [of p 2] and_bit_iff [of p 1] and_bit_iff [of p 0]
    by (simp_all add: push_bit_eq_mult)
  have m: "p AND 0x1ff = take_bit 9 p" for p :: u32
    by (simp add: take_bit_eq_mask mask_eq_exp_minus_1)
  have "(take_bit 9 p = take_bit 9 q) = (\<forall>n < 9. bit p n = bit q n)"
  proof
    assume e: "take_bit 9 p = take_bit 9 q"
    show "\<forall>n < 9. bit p n = bit q n"
    proof (intro allI impI)
      fix n :: nat assume "n < 9"
      with arg_cong [OF e, of "\<lambda>w. bit w n"] show "bit p n = bit q n" by (simp add: bit_take_bit_iff)
    qed
  qed (auto intro!: bit_eqI simp: bit_take_bit_iff)
  also have "\<dots> = (bit p 0 = bit q 0 \<and> bit p 1 = bit q 1 \<and> bit p 2 = bit q 2 \<and> bit p 3 = bit q 3 \<and> bit p 4 = bit q 4 \<and>
      bit p 5 = bit q 5 \<and> bit p 6 = bit q 6 \<and> bit p 7 = bit q 7 \<and> bit p 8 = bit q 8)"
    by (auto simp: numeral_eq_Suc All_less_Suc)
  finally show ?thesis
    unfolding m by (simp add: format_permissions_def permission_chars_def b)
qed

text \<open>The distance between acknowledgements is four chunks for an unknown size; for a known size and a chunk of
  at most 1 MiB it is at least a chunk, at most 1 MiB, and a hundredth of the size in between.\<close>

theorem ack_threshold_bounds:
  assumes "chunk \<le> MAX_ACK_THRESHOLD"
  shows "calculate_ack_threshold 0 chunk = chunk * 4 \<and>
    (file_size \<noteq> 0 \<longrightarrow> chunk \<le> calculate_ack_threshold file_size chunk \<and> calculate_ack_threshold file_size chunk \<le> MAX_ACK_THRESHOLD \<and>
      (chunk \<le> file_size div 100 \<and> file_size div 100 \<le> MAX_ACK_THRESHOLD \<longrightarrow> calculate_ack_threshold file_size chunk = file_size div 100))"
  using assms by (auto simp: calculate_ack_threshold_def Let_def not_less not_le)

theorem ack_threshold_bounds_witness: "calculate_ack_threshold 20000000 DEFAULT_CHUNK_SIZE = 200000"
  using ack_threshold_bounds [of DEFAULT_CHUNK_SIZE 20000000] by (simp add: DEFAULT_CHUNK_SIZE_def MAX_ACK_THRESHOLD_def)

text \<open>C32: A transfer is configured only for the path its parameters name, resolved, when that passes the validation, on the stream
  and with the window the server chose; an upload that announces a size only for that size, when the disk has room for it.\<close>

theorem transfers_validated:
  "(download_config ops base f sid name prms = Some (Some cfg) \<longrightarrow>
      validated ops base f (cf_file_path cfg) \<and>
      cf_file_path cfg = resolve_path base (f_current_path ops f) (get_string prms ''path'' []) \<and>
      cf_stream_id cfg = sid \<and> cf_session_name cfg = name \<and>
      cf_window_size cfg = get_num prms ''window_size'' DEFAULT_WINDOW_SIZE) \<and>
   (get_num prms ''size'' 0 \<noteq> (0 :: u64) \<and> upload_config ops base f sid name prms = Some (Some cfg) \<longrightarrow>
      validated ops base f (cf_file_path cfg) \<and>
      cf_file_path cfg = resolve_path base (f_current_path ops f) (get_string prms ''path'' []) \<and>
      cf_stream_id cfg = sid \<and> cf_session_name cfg = name \<and> cf_expected_size cfg = get_num prms ''size'' 0 \<and>
      (\<exists>available. f_space ops f (parent_path (cf_file_path cfg)) = Inr available \<and> cf_expected_size cfg \<le> available))"
  by (auto simp: download_config_def upload_config_def Let_def validated_def not_less new_transfer_config_def
      split: if_splits option.splits bool.splits sum.splits)

definition demo_upload :: json where
  "demo_upload = j_obj [(''path'', JStr ''a.txt''), (''size'', JUInt 5)]"

theorem transfers_validated_witness:
  "\<exists>cfg. upload_config mem_ops ''/srv/data'' [] 7 [] demo_upload = Some (Some cfg) \<and> cf_expected_size cfg = 5 \<and>
     validated mem_ops ''/srv/data'' [] (cf_file_path cfg)"
proof -
  have v: "get_string demo_upload ''path'' [] = ''a.txt''" "(get_num demo_upload ''size'' 0 :: u64) = 5"
    "bandwidth_param demo_upload = Some 0" "resolve_path ''/srv/data'' ''/'' ''a.txt'' = ''/srv/data/a.txt''"
    "validate_resolved_path Some (\<lambda>p. Some (lexically_normal p)) ''/srv/data'' ''/srv/data/a.txt'' = Some True"
    by code_simp+
  then obtain cfg where c: "upload_config mem_ops ''/srv/data'' [] 7 [] demo_upload = Some (Some cfg)"
    by (simp add: upload_config_def mem_ops_def Let_def word_less_nat_alt)
  with transfers_validated [of mem_ops "''/srv/data''" "[]" 7 "[]" demo_upload cfg] v(2) show ?thesis by auto
qed

section \<open>Corners\<close>

text \<open>
  A request for \<^verbatim>\<open>/\<close> passes the check that protects the base path, because the resolved path has a
  separator at its end; with the parameter \<open>recursive\<close> everything below the base is removed.
\<close>

theorem root_request_removes_base:
  assumes "f_canonical ops f ''/srv/data'' = Some ''/srv/data''" and "f_weakly_canonical ops f ''/srv/data/'' = Some ''/srv/data''"
    and "f_exists ops f ''/srv/data/'' = Some True" and "is_type directory_file ops f ''/srv/data/''"
  shows "snd (handle_delete ops ''/srv/data'' (path_request ''/'' (j_obj [(''recursive'', JBool True)]) JNull) out f) =
    snd (f_remove_all ops ''/srv/data/'' f)"
proof -
  have c: "resolve_path ''/srv/data'' cwd ''/'' = ''/srv/data/''" for cwd
    unfolding resolve_path_def by simp code_simp
  have d: "\<not> has_dotdot ''/srv/data/''" "prefix (path_elems ''/srv/data'') (path_elems ''/srv/data'')"
    "\<not> path_eq ''/srv/data/'' ''/srv/data''" "\<not> path_eq ''/srv/data/'' (parent_path ''/srv/data'')"
    "get_bool (j_obj [(''recursive'', JBool True)]) ''recursive'' False"
    by code_simp+
  have "validated ops ''/srv/data'' f ''/srv/data/''"
    using assms(1,2) d by (simp add: validated_def validate_resolved_path_def is_within_base_path_def)
  then have "with_path ops ''/srv/data'' ''path'' True (path_request ''/'' (j_obj [(''recursive'', JBool True)]) JNull) out f k =
      k (path_request ''/'' (j_obj [(''recursive'', JBool True)]) JNull) ''/srv/data/''" for k
    using assms(3) resolved_request [of "path_request ''/'' (j_obj [(''recursive'', JBool True)]) JNull" "''/''" ops "''/srv/data''" f True out k]
    by (simp add: c)
  then show ?thesis using assms(4) d by (simp add: handle_delete_def)
qed

text \<open>
  The error of a directory that cannot be read is stored into a result that is an array by then, which throws; the exception
  leaves the handler. And binary data for the base path itself, named by no capture, throws as well.
\<close>

theorem unreadable_directory_throws:
  assumes "input_path i ''path'' [] = path" and "path \<noteq> []" and "p = resolve_path base (f_current_path ops f) path"
    and "validated ops base f p" and "f_exists ops f p = Some True" and "is_type directory_file ops f p"
    and "f_entries ops f p = Inl message"
  shows "handle_list ops base i out f = (None, f)"
  using assms by (simp add: handle_list_def resolved_request [where path = path] finish_def set_error_def)

theorem data_without_path_throws:
  assumes "input_path i ''path'' [] = []" and "in_data i = JBin data" and "\<not> in_describe i"
  shows "handle_put ops base i out f = (None, f)"
  using assms by (simp add: handle_put_def with_path_def resolve_and_validate_path_def json_index_def)

end
