(* ===== verification/Upload_Wire.thy ===== *)
theory Upload_Wire
  imports File_Upload Session_Wire Filesystem_Correct
begin

text \<open>
  An upload from the wire: the octets of the server, the client that reads and dispatches them, the stream manager that finds the
  session, and the session that writes the file, put together. The state of the application is the manager of the uploads.
\<close>

section \<open>From the server to the file\<close>

lemma path_kept: "u_path (u_run es u) = u_path u"
proof -
  have "u_path (u_step e u) = u_path u" for e u
    by (cases e) (auto simp: u_step_def u_handle_input_def handle_upload_chunk_def u_stop_defs u_rate_timeout_def push_ack_def
        send_ack_def u_receive_expired_def start_receive_timeout_def Let_def split: json.split option.split stop_reason.split)
  then show ?thesis unfolding u_run_def by (induction es arbitrary: u) simp_all
qed

lemma config_size: "upload_config ops base f sid name prms = Some (Some cfg) \<Longrightarrow> cf_expected_size cfg > 0"
  by (auto simp: upload_config_def Let_def word_neq_0_conv split: if_splits option.splits bool.splits sum.splits)

text \<open>On a stream that leads to a started upload.\<close>

lemma chunks_reach_file:
  assumes "leads_to sid i (upload_ops ops base f True delayed) c"
    and "lock i (c_world c) = Some ob" and "so_state ob = started_upload cfg"
    and "cf_expected_size cfg > 0" and "length (concat bs) = unat (cf_expected_size cfg)"
  shows "\<exists>ob'. lock i (c_world (handle_all (map (chunk_message sid) bs) c)) = Some ob' \<and>
    u_state (so_state ob') = COMPLETED \<and> u_written (so_state ob') = concat bs \<and> u_path (so_state ob') = cf_file_path cfg"
proof -
  let ?ops = "upload_ops ops base f True delayed" and ?u = "u_run (deliver bs delayed) (started_upload cfg)"
  have input: "fold (\<lambda>b. op_input ?ops (JBin b)) bs u = u_run (map (\<lambda>b. U_Data (JBin b) True delayed) bs) u" for u
    by (induction bs arbitrary: u) (simp_all add: u_run_def u_step_def upload_ops_def)
  have "length (concat bs) < 2 ^ LENGTH(64)" unfolding assms(5) by (rule unsigned_less)
  then have u: "u_state ?u = COMPLETED \<and> u_written ?u = concat bs"
    using deliver_run [of "started_upload cfg" bs delayed] assms(4,5)
    by (simp add: started_upload_facts active_def unat_gt_0 word_neq_0_conv Let_def)
  have "u_path ?u = cf_file_path cfg"
    by (simp add: path_kept) (simp add: started_upload_def u_start_def file_upload_session_def start_receive_timeout_def)
  with u chunks_handled [OF assms(1,2), of bs] show ?thesis by (simp add: assms(3) input deliver_def)
qed

text \<open>The end of the coroutine that starts a session whose file could be opened.\<close>

definition start_ended :: "nat \<Rightarrow> upload manager client \<Rightarrow> upload manager client" where
  "start_ended i c =
     (case map_option so_state (lock i (c_world c)) of
        None \<Rightarrow> c
      | Some u \<Rightarrow>
          (case u_start Opened_File u of
             (None, _) \<Rightarrow> c
           | (Some result, u') \<Rightarrow> c\<lparr>c_world := sm_started i result (update_object i (\<lambda>_. u') (c_world c))\<rparr>))"

text \<open>C11: From the server to the file. A server sends the request that starts an upload, and then the octets in chunks, framed one
  after the other. The client reads that many messages and stops reading right behind them. It handles the request, by which
  a session is created; the session starts and opens the file; and the client handles the chunks. When the octets
  are as many as announced the upload is then completed and the file of the request holds them.\<close>

theorem upload_reaches_file:
  assumes "byte_reader rd unread invar" and "invar s"
    and "unread s = encode_message request @ concat (map (\<lambda>b. encode_message (chunk_message sid b)) bs) @ rest"
    and "msg_fits request" and "msg_type request = START_STREAM" and "get_stream_id (msg_norm request) = sid"
    and "field_of RESOURCE (msg_norm request) = Some (JStr req)"
    and "get_resource (c_resources c) req (const_field 0 (msg_norm request)) = Some (Some path, captures)"
    and "map_of (c_resources c) path =
      Some (set_resource_stream_id n (manager_resource (upload_ops ops base f True delayed) new_resource))"
    and "c_world c = new_manager"
    and "upload_config ops base f sid (get_string captures ''session'' []) (const_field PARAMETERS (msg_norm request)) =
      Some (Some cfg)"
    and "list_all (\<lambda>b. length b \<le> 262000) bs" and "length (concat bs) = unat (cf_expected_size cfg)"
  shows "case read_messages rd (replicate (Suc (length bs)) True) s of
      ([], _) \<Rightarrow> False
    | (m # ms, s') \<Rightarrow>
        unread s' = rest \<and>
        (case lock 0 (c_world (handle_all ms (start_ended 0 (snd (handle_message m c))))) of
           None \<Rightarrow> False
         | Some ob \<Rightarrow> u_state (so_state ob) = COMPLETED \<and> u_written (so_state ob) = concat bs \<and>
             u_path (so_state ob) = cf_file_path cfg)"
proof -
  let ?ops = "upload_ops ops base f True delayed" and ?m = "msg_norm request"
  let ?ms = "map (chunk_message sid) bs"
  have "\<forall>m \<in> set (request # ?ms). msg_fits m"
    using assms(4,12) by (auto simp: list_all_iff intro!: frame_fits_msg octets_fit)
  moreover have "unread s = concat (map encode_message (request # ?ms)) @ rest" using assms(3) by (simp add: comp_def)
  ultimately obtain s' where
    "read_messages rd (replicate (length (request # ?ms)) True) s = (map msg_norm (request # ?ms), s')"
    and s': "unread s' = rest"
    using byte_reader.read_messages_frames [OF assms(1,2)] by blast
  then have read: "read_messages rd (replicate (Suc (length bs)) True) s = (?m # ?ms, s')" by (simp add: comp_def)
  let ?result = "start_response (u_chunk_size (file_upload_session cfg))"
  have create: "op_create ?ops sid (get_string captures ''session'' []) (const_field PARAMETERS ?m) = Some (file_upload_session cfg)"
    by (simp add: upload_ops_def assms(11))
  have kind: "msg_type ?m = START_STREAM" using assms(5) by (simp add: msg_norm_def)
  let ?c1 = "snd (handle_message ?m c)"
  note started = started_leads_to [OF assms(9,8) kind assms(7,10), unfolded assms(6), OF create, of ?result, unfolded Let_def]
  have ok: "exec_ok ?result" by (simp add: start_response_def exec_ok_def set_field_def new_message_def)
  have "u_start Opened_File (file_upload_session cfg) = (Some ?result, started_upload cfg)"
    by (simp add: started_upload_def u_start_def)
  moreover have "map_option so_state (lock 0 (c_world ?c1)) = Some (file_upload_session cfg)" using started [OF ok] by blast
  ultimately have c2: "start_ended 0 ?c1 = ?c1\<lparr>c_world := sm_started 0 ?result (update_object 0 (\<lambda>_. started_upload cfg) (c_world ?c1))\<rparr>"
    by (simp only: start_ended_def option.case prod.case)
  have leads: "leads_to sid 0 ?ops (start_ended 0 ?c1)"
    and state: "map_option so_state (lock 0 (c_world (start_ended 0 ?c1))) = Some (started_upload cfg)"
    using started [OF ok, of "\<lambda>_. started_upload cfg"] by (simp_all add: c2)
  from state obtain ob where ob: "lock 0 (c_world (start_ended 0 ?c1)) = Some ob" "so_state ob = started_upload cfg" by auto
  from chunks_reach_file [OF leads ob config_size [OF assms(11)] assms(13)] s'
  show ?thesis unfolding read prod.case list.case by auto
qed

text \<open>A client whose file system shares \<^verbatim>\<open>/srv/data\<close>, and the request of an upload of five octets.\<close>

definition upload_client :: "upload manager client" where
  "upload_client = (new_client new_manager)\<lparr>c_connected := True,
     c_resources := [(''$fs/upload/:session'',
       set_resource_stream_id 0 (manager_resource (upload_ops mem_ops ''/srv/data'' [] True False) new_resource))]\<rparr>"

definition upload_request :: iotmp_message where
  "upload_request = set_field PARAMETERS demo_upload
     (set_field RESOURCE (JStr ''$fs/upload/up'') (set_stream_id 7 (new_message START_STREAM)))"

definition upload_octets :: "byte list" where
  "upload_octets = encode_message upload_request @ [10, 7, 8, 7, 0x1A, 0xA3, 1, 2, 3, 10, 6, 8, 7, 0x1A, 0xA2, 4, 5]"

lemma upload_request_fields:
  "msg_type upload_request = START_STREAM" "get_stream_id upload_request = 7"
  "field_of RESOURCE upload_request = Some (JStr ''$fs/upload/up'')"
  "const_field PARAMETERS upload_request = demo_upload" "const_field 0 upload_request = JNull"
  by (simp_all add: upload_request_def const_field_def field_of_def set_field_def set_stream_id_def new_message_def
      get_stream_id_def field_defs)

lemma upload_request_norm: "msg_norm upload_request = upload_request"
  by (simp add: upload_request_def demo_upload_def j_obj_def msg_norm_def set_field_def set_stream_id_def new_message_def field_defs
      field_norm_def) code_simp

lemma upload_request_length: "length (encode_message upload_request) \<le> 262144"
proof -
  have fields: "msg_fields upload_request = [(STREAM_ID, JUInt 7), (RESOURCE, JStr ''$fs/upload/up''), (PARAMETERS, demo_upload)]"
    by (simp add: upload_request_def set_field_def set_stream_id_def new_message_def field_defs)
  have "length (field_bytes (STREAM_ID, JUInt 7)) = 2" "length (field_bytes (RESOURCE, JStr ''$fs/upload/up'')) = 15"
    "length (field_bytes (PARAMETERS, demo_upload)) = 19"
    by code_simp+
  then have "length (body_bytes (msg_fields upload_request)) = 36" by (simp add: fields body_bytes_def)
  with varint_length_10 [of "ucast (ucast (type_code (msg_type upload_request)) :: byte)"]
    varint_length_10 [of "word_of_nat (length (body_bytes (msg_fields upload_request)))"]
  show ?thesis by (simp add: encode_message_bytes)
qed

lemma upload_request_fits: "msg_fits upload_request"
proof -
  have "\<forall>(f, v) \<in> set (msg_fields upload_request). f < 16 \<and> field_fits v"
    by (simp add: upload_request_def demo_upload_def j_obj_def set_field_def set_stream_id_def new_message_def field_defs field_fits_def
        max_field_value_def max_u32_def c_str_def)
  moreover have "msg_ok upload_request" by (simp add: upload_request_def)
  ultimately show ?thesis
    unfolding msg_fits_def unat_MAX using upload_request_length by (simp add: upload_request_fields type_named_def type_of_def)
qed

theorem upload_reaches_file_witness:
  "case read_messages mr_read [True, True, True] (mr_new upload_octets (length upload_octets)) of
      ([], _) \<Rightarrow> False
    | (m # ms, s') \<Rightarrow>
        mr_unread s' = [] \<and>
        (case lock 0 (c_world (handle_all ms (start_ended 0 (snd (handle_message m upload_client))))) of
           None \<Rightarrow> False
         | Some ob \<Rightarrow> u_state (so_state ob) = COMPLETED \<and> u_written (so_state ob) = [1, 2, 3, 4, 5] \<and>
             u_path (so_state ob) = ''/srv/data/a.txt'')"
proof -
  let ?bs = "[[1, 2, 3], [4, 5]] :: byte list list" and ?m = "msg_norm upload_request"
  note norm = upload_request_norm
  have chunks: "concat (map (\<lambda>b. encode_message (chunk_message 7 b)) ?bs) = [10, 7, 8, 7, 0x1A, 0xA3, 1, 2, 3, 10, 6, 8, 7, 0x1A, 0xA2, 4, 5]"
    by code_simp
  have reads: "mr_ok (mr_new upload_octets (length upload_octets))"
    "mr_unread (mr_new upload_octets (length upload_octets)) =
      encode_message upload_request @ concat (map (\<lambda>b. encode_message (chunk_message 7 b)) ?bs) @ []"
    unfolding chunks by (simp_all add: upload_octets_def)
  note req = upload_request_fields
  have resource: "map_of (c_resources upload_client) ''$fs/upload/:session'' =
      Some (set_resource_stream_id 0 (manager_resource (upload_ops mem_ops ''/srv/data'' [] True False) new_resource))"
    and found: "get_resource (c_resources upload_client) ''$fs/upload/up'' JNull =
      Some (Some ''$fs/upload/:session'', j_obj [(''session'', JStr ''up'')])"
  proof -
    have "matches ''$fs/upload/:session'' ''$fs/upload/up'' JNull = Some (True, j_obj [(''session'', JStr ''up'')])" by code_simp
    then show "get_resource (c_resources upload_client) ''$fs/upload/up'' JNull =
        Some (Some ''$fs/upload/:session'', j_obj [(''session'', JStr ''up'')])"
      by (simp add: upload_client_def)
  qed (simp add: upload_client_def)
  have v: "get_string demo_upload ''path'' [] = ''a.txt''" "(get_num demo_upload ''size'' 0 :: u64) = 5"
    "bandwidth_param demo_upload = Some 0" "resolve_path ''/srv/data'' ''/'' ''a.txt'' = ''/srv/data/a.txt''"
    "validate_resolved_path Some (\<lambda>p. Some (lexically_normal p)) ''/srv/data'' ''/srv/data/a.txt'' = Some True"
    by code_simp+
  then obtain cfg where cfg: "upload_config mem_ops ''/srv/data'' [] 7 (get_string (j_obj [(''session'', JStr ''up'')]) ''session'' [])
      demo_upload = Some (Some cfg)" "cf_file_path cfg = ''/srv/data/a.txt''" "cf_expected_size cfg = 5"
    by (simp add: upload_config_def mem_ops_def Let_def word_less_nat_alt)
  have cfg_norm: "upload_config mem_ops ''/srv/data'' [] 7 (get_string (j_obj [(''session'', JStr ''up'')]) ''session'' [])
      (const_field PARAMETERS ?m) = Some (Some cfg)" using cfg(1) by (simp only: norm req)
  note fits = upload_request_fits
  have res: "field_of RESOURCE ?m = Some (JStr ''$fs/upload/up'')" "get_stream_id ?m = 7"
    "get_resource (c_resources upload_client) ''$fs/upload/up'' (const_field 0 ?m) =
      Some (Some ''$fs/upload/:session'', j_obj [(''session'', JStr ''up'')])"
    by (simp_all only: norm req found)
  have world: "c_world upload_client = new_manager" by (simp add: upload_client_def new_client_def)
  have sizes: "list_all (\<lambda>b. length b \<le> 262000) ?bs" "length (concat ?bs) = unat (cf_expected_size cfg)" by (simp_all add: cfg)
  have eqs: "replicate (Suc (length ?bs)) True = [True, True, True]" "concat ?bs = [1, 2, 3, 4, 5]" by simp_all
  from upload_reaches_file [OF mr.byte_reader_axioms reads fits req(1) res(2,1,3) resource world cfg_norm sizes]
  show ?thesis unfolding eqs cfg(2) .
qed

section \<open>The acknowledgements\<close>

lemma ack_fits: "frame_fits (ack_message n b)" "field_norm (ack_message n b) = ack_message n b"
proof -
  have ack: "ack_message n b = JObj [(''ack'', JUInt (ucast n)), (''bytes'', JUInt b)]"
    by (simp add: ack_message_def j_obj_def list_less_def)
  have names: "c_str ''ack'' = ''ack''" "c_str ''bytes'' = ''bytes''" by code_simp+
  then have keys: "length (string_bytes ''ack'') \<le> 14" "length (string_bytes ''bytes'') \<le> 16"
    using tag_length [of string_t] by (simp_all add: string_bytes_def)
  have "length (snd (pson_out (ack_message n b))) \<le> 70"
    using tag_length [of map_t 2] keys tag_length [of unsigned_t "ucast n"] tag_length [of unsigned_t b]
    by (simp add: ack seq_out_def)
  then show "frame_fits (ack_message n b)"
    by (simp add: ack names frame_fits_def field_fits_def max_u32_def del: pson_out.simps)
  show "field_norm (ack_message n b) = ack_message n b" by (simp add: ack names field_norm_def)
qed

definition only_acks :: "upload \<Rightarrow> bool" where
  "only_acks u \<longleftrightarrow> (\<forall>v \<in> set (u_acks u). \<exists>n b. v = ack_message n b)"

lemma step_acks: "\<exists>vs. u_acks (u_step e u) = u_acks u @ vs \<and> (\<forall>v \<in> set vs. \<exists>n b. v = ack_message n b)"
  by (cases e) (auto simp: u_step_def u_handle_input_def handle_upload_chunk_def u_stop_defs u_rate_timeout_def push_ack_def
      send_ack_def u_receive_expired_def start_receive_timeout_def Let_def split: json.split option.split stop_reason.split)

interpretation acks: frame_source u_step u_acks only_acks "\<lambda>_. True"
proof unfold_locales
  fix u e
  obtain vs where "u_acks (u_step e u) = u_acks u @ vs" "\<forall>v \<in> set vs. \<exists>n b. v = ack_message n b" using step_acks by blast
  then show "only_acks u \<Longrightarrow> only_acks (u_step e u)" "prefix (u_acks u) (u_acks (u_step e u))" by (auto simp: only_acks_def)
qed (auto simp: only_acks_def ack_fits)

text \<open>The server reads the acknowledgements in order, and all of them once the write loop has drained.\<close>

theorem acknowledgements_arrive:
  assumes "fresh_connection c" and "list_all (relay_event_ok (\<lambda>_. True) sid) es"
  shows "let (u, c') = relay_run u_step u_acks sid es (started_upload cfg, c);
      received = server_frames sid (server_reads (c_wire c'))
    in prefix received (u_acks u) \<and> (drained c' \<longrightarrow> received = u_acks u)"
proof -
  obtain u c' where run: "relay_run u_step u_acks sid es (started_upload cfg, c) = (u, c')" by (rule prod.exhaust)
  have none: "u_acks (started_upload cfg) = []"
    by (simp add: started_upload_def u_start_def file_upload_session_def start_receive_timeout_def)
  then have good: "only_acks (started_upload cfg)" by (simp add: only_acks_def)
  have "u = fold u_step (source_events es) (started_upload cfg)"
    using relay_source [of u_step u_acks sid es "(started_upload cfg, c)"] by (simp add: run)
  then have "only_acks u" using acks.good_source [OF good assms(2)] by simp
  then have "map field_norm (u_acks u) = u_acks u" by (intro map_idI) (auto simp: only_acks_def ack_fits)
  with acks.frames_arrive [OF good none assms run] show ?thesis by (simp add: run Let_def)
qed

end
