(* ===== verification/Cmd_Stream.thy ===== *)
theory Cmd_Stream
  imports Client_State Shell_Env Stream_Manager_Correct
begin

text \<open>
  Streamed commands: \<^verbatim>\<open>extensions/cmd/cmd_stream_session.cpp\<close> and
  \<^verbatim>\<open>cmd_stream.cpp\<close>. A session runs a shell command; coroutines read its two outputs, wait for its
  end, write its input and watch a timer. The session's coordinator goes on when the two readers and the wait have
  all ended.
\<close>

section \<open>State\<close>

datatype timer = Unarmed | Armed | Cancelled | Fired

text \<open>\<open>k_frames\<close> are the values handed to the client for the stream; \<open>k_kills\<close> counts the calls of
  \<open>terminate\<close>.\<close>

record cmd_session =
  k_stream_id :: stream_id
  k_command :: string
  k_timeout :: "32 word"
  k_timed_out :: bool
  k_finished :: bool
  k_stopped_externally :: bool
  k_exit_code :: int
  k_process :: bool
  k_stdin_open :: bool
  k_reading_out :: bool
  k_reading_err :: bool
  k_waiting :: bool
  k_timer :: timer
  k_ended :: bool
  k_queue :: "byte list list"
  k_writing :: bool
  k_pump :: "byte list pump"
  k_written :: "byte list list"
  k_frames :: "json list"
  k_kills :: nat
  k_sent :: u64
  k_received :: u64

definition cmd_stream_session :: "stream_id \<Rightarrow> string \<Rightarrow> json \<Rightarrow> cmd_session option" where
  "cmd_stream_session sid name parameters =
     Some \<lparr>k_stream_id = sid, k_command = get_string parameters ''cmd'' [], k_timeout = get_num parameters ''timeout'' 0,
       k_timed_out = False, k_finished = False, k_stopped_externally = False, k_exit_code = - 1, k_process = False,
       k_stdin_open = False, k_reading_out = False, k_reading_err = False, k_waiting = False, k_timer = Unarmed,
       k_ended = False, k_queue = [], k_writing = False, k_pump = Idle, k_written = [], k_frames = [], k_kills = 0,
       k_sent = 0, k_received = 0\<rparr>"

section \<open>Operations\<close>

text \<open>\<open>launch\<close> is the error of the process creation, if any. The executable is \<open>preferred_shell\<close>
  with \<^verbatim>\<open>-c\<close> and the command.\<close>

definition k_start :: "string option \<Rightarrow> cmd_session \<Rightarrow> exec_result \<times> cmd_session" where
  "k_start launch k =
     (if k_command k = [] then (exec_error False ''no command provided'', k)
      else case launch of
        Some message \<Rightarrow> (exec_error False message, k\<lparr>k_process := False\<rparr>)
      | None \<Rightarrow>
          (exec_bool True,
           k\<lparr>k_process := True, k_stdin_open := True, k_reading_out := True, k_reading_err := True, k_waiting := True,
             k_timer := (if sint (k_timeout k) > 0 then Armed else k_timer k)\<rparr>))"

definition k_terminate :: "cmd_session \<Rightarrow> cmd_session" where
  "k_terminate k = k\<lparr>k_kills := Suc (k_kills k)\<rparr>"

definition k_cancel_timer :: "cmd_session \<Rightarrow> cmd_session" where
  "k_cancel_timer k = k\<lparr>k_timer := (if k_timer k = Armed then Cancelled else k_timer k)\<rparr>"

text \<open>Closing the output pipes makes their reads end, which is an event of its own.\<close>

definition k_stop :: "cmd_session \<Rightarrow> cmd_session" where
  "k_stop k =
     (let k1 = k\<lparr>k_stopped_externally := True\<rparr>;
          k2 = (if k_process k \<and> \<not> k_finished k then k_terminate k1 else k1)
      in k_cancel_timer (k2\<lparr>k_stdin_open := False\<rparr>))"

definition k_write :: "byte list \<Rightarrow> cmd_session \<Rightarrow> cmd_session" where
  "k_write data k =
     (let k1 = k\<lparr>k_queue := k_queue k @ [data]\<rparr> in
      if k_writing k then k1 else k1\<lparr>k_writing := True, k_pump := Ready\<rparr>)"

text \<open>Binary and string payloads are standard input; everything else is ignored.\<close>

fun stdin_data :: "json \<Rightarrow> byte list" where
  "stdin_data (JBin bytes) = bytes"
| "stdin_data (JStr s) = map byte_of s"
| "stdin_data _ = []"

definition k_handle_input :: "json \<Rightarrow> cmd_session \<Rightarrow> cmd_session" where
  "k_handle_input body k =
     (if k_finished k \<or> \<not> k_stdin_open k then k
      else if stdin_data body = [] then k
      else k_write (stdin_data body)
        (k\<lparr>k_received := k_received k + of_nat (length (stdin_data body))\<rparr>))"

definition k_write_next :: "cmd_session \<Rightarrow> cmd_session" where
  "k_write_next k =
     (case k_queue k of
        data # queue \<Rightarrow>
          (if k_stdin_open k then k\<lparr>k_queue := queue, k_pump := Writing data\<rparr>
           else k\<lparr>k_writing := False, k_pump := Idle\<rparr>)
      | [] \<Rightarrow> k\<lparr>k_writing := False, k_pump := Idle\<rparr>)"

definition k_write_done :: "bool \<Rightarrow> cmd_session \<Rightarrow> cmd_session" where
  "k_write_done ok k =
     (if ok then k_write_next (k\<lparr>k_written := k_written k @ in_flight (k_pump k)\<rparr>)
      else k\<lparr>k_writing := False, k_pump := Idle\<rparr>)"

definition k_frame :: "json \<Rightarrow> cmd_session \<Rightarrow> cmd_session" where
  "k_frame frame k = k\<lparr>k_frames := k_frames k @ [frame]\<rparr>"

definition exit_frame :: "cmd_session \<Rightarrow> json" where
  "exit_frame k =
     j_obj ((''exit'', JInt (word_of_int (k_exit_code k))) # (if k_timed_out k then [(''timeout'', JBool True)] else []))"

text \<open>\<open>run\<close> goes on once all three have ended.\<close>

definition k_run :: "cmd_session \<Rightarrow> cmd_session" where
  "k_run k =
     (if k_reading_out k \<or> k_reading_err k \<or> k_waiting k then k
      else (k_frame (exit_frame k) (k_cancel_timer k))\<lparr>k_ended := True\<rparr>)"

definition k_output :: "string \<Rightarrow> byte list \<Rightarrow> cmd_session \<Rightarrow> cmd_session" where
  "k_output name bytes k =
     (if bytes = [] then k
      else k_frame (j_obj [(name, JBin bytes)]) (k\<lparr>k_sent := k_sent k + of_nat (length bytes)\<rparr>))"

definition k_read_stdout :: "byte list option \<Rightarrow> cmd_session \<Rightarrow> cmd_session" where
  "k_read_stdout outcome k =
     (case outcome of
        None \<Rightarrow> k_run (k\<lparr>k_reading_out := False\<rparr>)
      | Some bytes \<Rightarrow> k_output ''out'' bytes k)"

definition k_read_stderr :: "byte list option \<Rightarrow> cmd_session \<Rightarrow> cmd_session" where
  "k_read_stderr outcome k =
     (case outcome of
        None \<Rightarrow> k_run (k\<lparr>k_reading_err := False\<rparr>)
      | Some bytes \<Rightarrow> k_output ''err'' bytes k)"

text \<open>The end of \<open>async_wait\<close>: \<open>None\<close> for an error, otherwise the exit code.\<close>

definition k_wait_process :: "int option \<Rightarrow> cmd_session \<Rightarrow> cmd_session" where
  "k_wait_process code k =
     k_run (k\<lparr>k_exit_code := (case code of None \<Rightarrow> - 1 | Some n \<Rightarrow> n), k_finished := True, k_waiting := False\<rparr>)"

definition k_watch_timeout :: "cmd_session \<Rightarrow> cmd_session" where
  "k_watch_timeout k =
     (let k1 = k\<lparr>k_timer := Fired\<rparr> in
      if k_process k \<and> \<not> k_finished k then k_terminate (k1\<lparr>k_timed_out := True\<rparr>) else k1)"

definition cmd_stream_ops :: "cmd_session session_ops" where
  "cmd_stream_ops = \<lparr>op_create = cmd_stream_session, op_stop = k_stop, op_input = k_handle_input\<rparr>"

text \<open>What the client does with the frames.\<close>

definition k_deliver :: "stream_id \<Rightarrow> json list \<Rightarrow> 'w client \<Rightarrow> 'w client" where
  "k_deliver sid frames c = fold (\<lambda>frame c. snd (stream_json sid frame c)) frames c"

lemmas cmd_stream_defs = k_start_def k_terminate_def k_cancel_timer_def k_stop_def k_write_def k_handle_input_def
  k_write_next_def k_write_done_def k_frame_def k_run_def k_output_def k_read_stdout_def k_read_stderr_def
  k_wait_process_def k_watch_timeout_def Let_def

section \<open>The contracts\<close>

interpretation kw: write_pump k_queue k_pump k_written k_writing k_stdin_open k_write k_write_next k_write_done
proof unfold_locales
  fix k :: cmd_session and d
  assume "k_pump k = Writing d" and "k_writing k"
  then show "\<exists>k1. k_write_done True k = k_write_next k1 \<and> k_queue k1 = k_queue k \<and>
      k_written k1 = k_written k @ [d] \<and> k_writing k1 \<and> k_stdin_open k1 = k_stdin_open k"
    by (intro exI [of _ "k\<lparr>k_written := k_written k @ [d]\<rparr>"]) (simp add: k_write_done_def)
qed (auto simp: k_write_def k_write_next_def k_write_done_def Let_def split: list.split)

text \<open>
  While a reader or the wait is pending the coordinator has not sent its frame; a session that is
  finished has been waited for; a timeout was noted only with a process killed for it.
\<close>

definition exit_frames :: "cmd_session \<Rightarrow> json list" where
  "exit_frames k = filter (\<lambda>f. j_find ''exit'' f \<noteq> None) (k_frames k)"

definition cmd_ok :: "cmd_session \<Rightarrow> bool" where
  "cmd_ok k \<longleftrightarrow>
     k_writing k = (k_pump k \<noteq> Idle) \<and>
     (k_ended k \<longleftrightarrow> k_process k \<and> \<not> k_reading_out k \<and> \<not> k_reading_err k \<and> \<not> k_waiting k) \<and>
     (k_finished k \<longleftrightarrow> k_process k \<and> \<not> k_waiting k) \<and>
     (\<not> k_process k \<longrightarrow> \<not> k_reading_out k \<and> \<not> k_reading_err k \<and> \<not> k_waiting k \<and> \<not> k_stdin_open k \<and> k_frames k = []) \<and>
     exit_frames k = (if k_ended k then [exit_frame k] else []) \<and>
     (k_ended k \<longrightarrow> last (k_frames k) = exit_frame k) \<and>
     (k_ended k \<longrightarrow> k_timer k \<noteq> Armed) \<and> (k_timed_out k \<longrightarrow> k_kills k > 0)"

lemma exit_frames_frame [simp]:
  "exit_frames (k_frame f k) = exit_frames k @ (if j_find ''exit'' f \<noteq> None then [f] else [])"
  by (simp add: exit_frames_def k_frame_def)

lemma exit_frame_exit [simp]: "j_find ''exit'' (exit_frame k) = Some (JInt (word_of_int (k_exit_code k)))"
  by (simp add: exit_frame_def j_obj_def)

lemma output_no_exit [simp]: "name \<noteq> ''exit'' \<Longrightarrow> j_find ''exit'' (j_obj [(name, v)]) = None"
  by (simp add: j_obj_def)

lemma exit_frame_cong: "k_exit_code k' = k_exit_code k \<Longrightarrow> k_timed_out k' = k_timed_out k \<Longrightarrow> exit_frame k' = exit_frame k"
  by (simp add: exit_frame_def)

lemma cmd_ok_new: "cmd_stream_session sid name prms = Some k \<Longrightarrow> cmd_ok k"
  by (auto simp: cmd_stream_session_def cmd_ok_def exit_frames_def)

lemma cmd_ok_start: "cmd_ok k \<Longrightarrow> \<not> k_process k \<Longrightarrow> cmd_ok (snd (k_start launch k))"
  by (auto simp: k_start_def cmd_ok_def exit_frames_def split: option.split)

text \<open>Changes that concern none of this.\<close>

lemma cmd_ok_cong:
  assumes "cmd_ok k" and "k_writing k' = (k_pump k' \<noteq> Idle)" and "k_stdin_open k' \<longrightarrow> k_stdin_open k"
    and "k_process k' = k_process k" "k_reading_out k' = k_reading_out k" "k_reading_err k' = k_reading_err k"
      "k_waiting k' = k_waiting k" "k_finished k' = k_finished k" "k_ended k' = k_ended k"
      "k_frames k' = k_frames k" "k_exit_code k' = k_exit_code k" "k_timed_out k' = k_timed_out k"
    and "k_timer k' = Armed \<longrightarrow> k_timer k = Armed" and "k_kills k \<le> k_kills k'"
  shows "cmd_ok k'"
proof -
  have e: "exit_frames k' = exit_frames k" using assms(10) by (simp add: exit_frames_def)
  have f: "exit_frame k' = exit_frame k" using assms(11,12) by (rule exit_frame_cong)
  have kills: "0 < k_kills k \<longrightarrow> 0 < k_kills k'" using assms(14) by simp
  show ?thesis
    using assms(1-3,13) kills unfolding cmd_ok_def e f assms(4-12) by blast
qed

lemma cmd_ok_writing: "cmd_ok k \<Longrightarrow> k_writing k = (k_pump k \<noteq> Idle)"
  by (simp add: cmd_ok_def)

lemma cmd_ok_stop: "cmd_ok k \<Longrightarrow> cmd_ok (k_stop k)"
  by (rule cmd_ok_cong, assumption, drule cmd_ok_writing) (simp_all add: cmd_stream_defs)

lemma cmd_ok_input: "cmd_ok k \<Longrightarrow> cmd_ok (k_handle_input data k)"
  by (rule cmd_ok_cong, assumption, drule cmd_ok_writing) (auto simp: k_handle_input_def k_write_def Let_def)

lemma cmd_ok_write_next: "cmd_ok k \<Longrightarrow> k_pump k \<noteq> Idle \<Longrightarrow> cmd_ok (k_write_next k)"
  by (rule cmd_ok_cong, assumption, drule cmd_ok_writing) (auto simp: k_write_next_def split: list.split)

lemma cmd_ok_write_done: "cmd_ok k \<Longrightarrow> k_pump k \<noteq> Idle \<Longrightarrow> cmd_ok (k_write_done ok k)"
  by (rule cmd_ok_cong, assumption, drule cmd_ok_writing)
    (auto simp: k_write_done_def k_write_next_def split: list.split)

lemma cmd_ok_write: "cmd_ok k \<Longrightarrow> cmd_ok (k_write d k)"
  by (rule cmd_ok_cong, assumption, drule cmd_ok_writing) (simp_all add: k_write_def Let_def)

lemma cmd_ok_pump: "cmd_ok k \<Longrightarrow> cmd_ok (kw.apply_event w k)"
  by (cases w; cases "k_pump k")
    (simp_all add: kw.apply_event_def cmd_ok_write_next cmd_ok_write_done cmd_ok_write)

interpretation commands: session_class cmd_stream_ops cmd_ok
  by unfold_locales (auto simp: cmd_stream_ops_def cmd_ok_new cmd_ok_stop cmd_ok_input)

text \<open>The step of the coordinator, after one of the three has ended.\<close>

lemma run_ended [simp]:
  "k_ended (k_run k) = (k_ended k \<or> \<not> (k_reading_out k \<or> k_reading_err k \<or> k_waiting k))"
  by (auto simp: k_run_def)

lemma cmd_ok_run:
  assumes "k_writing k = (k_pump k \<noteq> Idle)" and "k_process k" and "k_finished k = (\<not> k_waiting k)"
    and "\<not> k_ended k" and "exit_frames k = []" and "k_timed_out k \<longrightarrow> k_kills k > 0"
  shows "cmd_ok (k_run k)"
proof (cases "k_reading_out k \<or> k_reading_err k \<or> k_waiting k")
  case True
  with assms show ?thesis by (auto simp: k_run_def cmd_ok_def)
next
  case False
  have "exit_frame (k_frame (exit_frame k) (k_cancel_timer k)\<lparr>k_ended := True\<rparr>) = exit_frame k"
    by (rule exit_frame_cong) (simp_all add: k_frame_def k_cancel_timer_def)
  with assms False show ?thesis
    by (simp add: k_run_def cmd_ok_def k_frame_def k_cancel_timer_def exit_frames_def)
qed

lemma cmd_ok_output:
  assumes "cmd_ok k" and "k_reading_out k \<or> k_reading_err k" and "name \<noteq> ''exit''"
  shows "cmd_ok (k_output name bytes k)"
  using assms by (auto simp: k_output_def cmd_ok_def k_frame_def exit_frames_def)

lemma cmd_ok_stdout: "cmd_ok k \<Longrightarrow> k_reading_out k \<Longrightarrow> cmd_ok (k_read_stdout r k)"
  by (cases r) (auto simp: k_read_stdout_def cmd_ok_output intro!: cmd_ok_run, auto simp: cmd_ok_def exit_frames_def)

lemma cmd_ok_stderr: "cmd_ok k \<Longrightarrow> k_reading_err k \<Longrightarrow> cmd_ok (k_read_stderr r k)"
  by (cases r) (auto simp: k_read_stderr_def cmd_ok_output intro!: cmd_ok_run, auto simp: cmd_ok_def exit_frames_def)

lemma cmd_ok_wait: "cmd_ok k \<Longrightarrow> k_waiting k \<Longrightarrow> cmd_ok (k_wait_process r k)"
  by (auto simp: k_wait_process_def intro!: cmd_ok_run) (auto simp: cmd_ok_def exit_frames_def)

lemma cmd_ok_timeout: "cmd_ok k \<Longrightarrow> k_timer k = Armed \<Longrightarrow> cmd_ok (k_watch_timeout k)"
  by (auto simp: k_watch_timeout_def k_terminate_def Let_def cmd_ok_def exit_frames_def)

section \<open>Runs\<close>

text \<open>What can happen to a launched session.\<close>

datatype cmd_event =
    K_Stop
  | K_Input json
  | K_Write "byte list pump_event"
  | K_Stdout "byte list option"
  | K_Stderr "byte list option"
  | K_Exit "int option"
  | K_Timer

definition k_step :: "cmd_event \<Rightarrow> cmd_session \<Rightarrow> cmd_session" where
  "k_step e k =
     (case e of
        K_Stop \<Rightarrow> k_stop k
      | K_Input data \<Rightarrow> k_handle_input data k
      | K_Write (Enqueue _) \<Rightarrow> k
      | K_Write w \<Rightarrow> kw.apply_event w k
      | K_Stdout r \<Rightarrow> (if k_reading_out k then k_read_stdout r k else k)
      | K_Stderr r \<Rightarrow> (if k_reading_err k then k_read_stderr r k else k)
      | K_Exit r \<Rightarrow> (if k_waiting k then k_wait_process r k else k)
      | K_Timer \<Rightarrow> (if k_timer k = Armed then k_watch_timeout k else k))"

lemma cmd_ok_step: "cmd_ok k \<Longrightarrow> cmd_ok (k_step e k)"
  by (cases e) (auto simp: k_step_def cmd_ok_stop cmd_ok_input cmd_ok_stdout cmd_ok_stderr cmd_ok_wait cmd_ok_timeout
      intro!: cmd_ok_pump split: pump_event.split)

lemma cmd_ok_steps: "cmd_ok k \<Longrightarrow> cmd_ok (fold k_step es k)"
  by (induction es arbitrary: k) (simp_all add: cmd_ok_step)

text \<open>The three completions, in any order and among any other events.\<close>

lemma step_process: "k_process (k_step e k) = k_process k"
  by (auto simp: k_step_def cmd_stream_defs kw.apply_event_def split: cmd_event.split pump_event.split option.split list.split)

lemma steps_process: "k_process (fold k_step es k) = k_process k"
  by (induction es arbitrary: k) (simp_all add: step_process)

definition completed :: "cmd_event list \<Rightarrow> bool" where
  "completed es \<longleftrightarrow> K_Stdout None \<in> set es \<and> K_Stderr None \<in> set es \<and> (\<exists>r. K_Exit r \<in> set es)"

lemma step_pending:
  "k_reading_out (k_step e k) = (k_reading_out k \<and> e \<noteq> K_Stdout None)"
  "k_reading_err (k_step e k) = (k_reading_err k \<and> e \<noteq> K_Stderr None)"
  "k_waiting (k_step e k) = (k_waiting k \<and> \<not> (\<exists>r. e = K_Exit r))"
  by (auto simp: k_step_def cmd_stream_defs kw.apply_event_def split: cmd_event.split pump_event.split option.split list.split)

lemma steps_pending:
  "k_reading_out (fold k_step es k) = (k_reading_out k \<and> K_Stdout None \<notin> set es)"
  "k_reading_err (fold k_step es k) = (k_reading_err k \<and> K_Stderr None \<notin> set es)"
  "k_waiting (fold k_step es k) = (k_waiting k \<and> \<not> (\<exists>r. K_Exit r \<in> set es))"
  by (induction es arbitrary: k) (auto simp: step_pending)

text \<open>The frames of output chunks, and the input the server sends.\<close>

fun chunks :: "cmd_event \<Rightarrow> json list" where
  "chunks (K_Stdout (Some bytes)) = (if bytes = [] then [] else [j_obj [(''out'', JBin bytes)]])"
| "chunks (K_Stderr (Some bytes)) = (if bytes = [] then [] else [j_obj [(''err'', JBin bytes)]])"
| "chunks _ = []"

fun inputs :: "cmd_event \<Rightarrow> byte list list" where
  "inputs (K_Input body) = (if stdin_data body = [] then [] else [stdin_data body])"
| "inputs _ = []"

lemma step_chunks:
  assumes "k_reading_out k" and "k_reading_err k" and "e \<noteq> K_Stdout None" and "e \<noteq> K_Stderr None"
  shows "k_frames (k_step e k) = k_frames k @ chunks e"
proof (cases e)
  case (K_Stdout r)
  with assms show ?thesis by (cases r) (simp_all add: k_step_def k_read_stdout_def k_output_def k_frame_def)
next
  case (K_Stderr r)
  with assms show ?thesis by (cases r) (simp_all add: k_step_def k_read_stderr_def k_output_def k_frame_def)
qed (use assms in \<open>auto simp: k_step_def k_stop_def k_terminate_def k_cancel_timer_def k_handle_input_def k_write_def
  kw.apply_event_def k_write_next_def k_write_done_def k_wait_process_def k_run_def k_watch_timeout_def Let_def
  split: pump_event.split list.split\<close>)

lemma steps_chunks:
  assumes "k_reading_out k" and "k_reading_err k" and "K_Stdout None \<notin> set es" and "K_Stderr None \<notin> set es"
  shows "k_frames (fold k_step es k) = k_frames k @ concat (map chunks es)"
  using assms
proof (induction es arbitrary: k)
  case Nil
  then show ?case by simp
next
  case (Cons e es)
  then have "k_frames (k_step e k) = k_frames k @ chunks e" by (intro step_chunks) auto
  moreover have "k_reading_out (k_step e k)" "k_reading_err (k_step e k)" using Cons.prems by (auto simp: step_pending)
  ultimately show ?case using Cons by simp
qed

lemma cmd_frame_content:
  "kw.content (k_stop k) = kw.content k" "kw.content (k_read_stdout r k) = kw.content k"
  "kw.content (k_read_stderr r k) = kw.content k" "kw.content (k_wait_process c k) = kw.content k"
  "kw.content (k_watch_timeout k) = kw.content k"
  by (auto simp: kw.content_def cmd_stream_defs split: option.split)

lemma cmd_input_content:
  assumes "cmd_ok k"
  shows "subseq (kw.content (k_handle_input body k)) (kw.content k @ inputs (K_Input body))"
proof (cases "k_finished k \<or> \<not> k_stdin_open k \<or> stdin_data body = []")
  case True
  then have "k_handle_input body k = k" by (auto simp: k_handle_input_def)
  then show ?thesis by (simp del: inputs.simps)
next
  case False
  let ?k = "k\<lparr>k_received := k_received k + of_nat (length (stdin_data body))\<rparr>"
  have "kw.pump_inv ?k" using assms by (simp add: kw.pump_inv_def cmd_ok_def)
  from kw.event_content(2) [OF this, of "Enqueue (stdin_data body)"]
  have "kw.content (k_write (stdin_data body) ?k) = kw.content ?k @ [stdin_data body]" by (simp add: kw.apply_event_def)
  moreover have "kw.content ?k = kw.content k" by (simp add: kw.content_def)
  ultimately show ?thesis using False by (simp add: k_handle_input_def)
qed

lemma cmd_step_content:
  assumes "cmd_ok k"
  shows "subseq (kw.content (k_step e k)) (kw.content k @ inputs e)"
proof (cases e)
  case (K_Input body)
  with cmd_input_content [OF assms] show ?thesis by (simp add: k_step_def del: inputs.simps)
next
  case (K_Write w)
  have "kw.pump_inv k" using assms by (simp add: kw.pump_inv_def cmd_ok_def)
  from kw.event_content(1) [OF this, of w] K_Write show ?thesis by (cases w) (auto simp: k_step_def)
qed (simp_all add: k_step_def cmd_frame_content)

section \<open>Properties\<close>

definition launched :: "stream_id \<Rightarrow> string \<Rightarrow> json \<Rightarrow> cmd_session" where
  "launched sid name prms = snd (k_start None (the (cmd_stream_session sid name prms)))"

lemma launched_facts:
  assumes "get_string prms ''cmd'' [] \<noteq> []"
  shows "cmd_ok (launched sid name prms)" "k_process (launched sid name prms)" "k_reading_out (launched sid name prms)"
    "k_reading_err (launched sid name prms)" "k_waiting (launched sid name prms)" "kw.content (launched sid name prms) = []"
    "k_frames (launched sid name prms) = []"
proof -
  obtain k0 where k0: "cmd_stream_session sid name prms = Some k0" by (simp add: cmd_stream_session_def)
  then have "\<not> k_process k0" "k_command k0 \<noteq> []" using assms by (auto simp: cmd_stream_session_def)
  with cmd_ok_start [OF cmd_ok_new [OF k0], of None] k0
  show "cmd_ok (launched sid name prms)" "k_process (launched sid name prms)" "k_reading_out (launched sid name prms)"
    "k_reading_err (launched sid name prms)" "k_waiting (launched sid name prms)" "kw.content (launched sid name prms) = []"
    "k_frames (launched sid name prms) = []"
    by (auto simp: launched_def k_start_def cmd_stream_session_def kw.content_def)
qed

text \<open>C17: Whatever happens to a launched command, at most one exit frame is sent, as the last frame, and only when
  both outputs have ended and the process was waited for; it carries the exit code and, when the command was killed for its
  timeout, says so. When the server has not asked for the stop itself, it is sent as soon as that is the case.\<close>

theorem exit_frame_once:
  assumes "get_string prms ''cmd'' [] \<noteq> []" and "k = fold k_step es (launched sid name prms)"
  shows "(exit_frames k \<noteq> [] \<longrightarrow> completed es \<and> exit_frames k = [exit_frame k] \<and> last (k_frames k) = exit_frame k) \<and>
    (completed es \<and> K_Stop \<notin> set es \<longrightarrow> exit_frames k \<noteq> []) \<and> (k_timed_out k \<longrightarrow> k_kills k > 0)"
proof -
  have ok: "cmd_ok k" unfolding assms(2) by (rule cmd_ok_steps [OF launched_facts(1) [OF assms(1)]])
  have "k_ended k = completed es"
    using ok launched_facts [OF assms(1), of sid name]
    by (auto simp: assms(2) cmd_ok_def steps_process steps_pending completed_def)
  with ok show ?thesis by (auto simp: cmd_ok_def)
qed

definition demo_prms :: json where
  "demo_prms = j_obj [(''cmd'', JStr ''ls''), (''timeout'', JUInt 5)]"

lemma demo_prms_cmd: "get_string demo_prms ''cmd'' [] \<noteq> []" "(get_num demo_prms ''timeout'' 0 :: 32 word) = 5"
  "get_string demo_prms ''cmd'' [] = ''ls''"
  by code_simp+

theorem exit_frame_once_witness:
  "last (k_frames (fold k_step [K_Stdout (Some [104]), K_Stdout None, K_Exit (Some 3), K_Stderr None]
     (launched 7 [] demo_prms))) = j_obj [(''exit'', JInt 3)]"
proof -
  let ?es = "[K_Stdout (Some [104]), K_Stdout None, K_Exit (Some 3), K_Stderr None]"
  let ?k = "fold k_step ?es (launched 7 [] demo_prms)"
  have "completed ?es" by (simp add: completed_def)
  moreover have "K_Stop \<notin> set ?es" by simp
  ultimately have "exit_frames ?k \<noteq> []" using exit_frame_once [OF demo_prms_cmd(1) refl, of ?es 7 "[]"] by blast
  with exit_frame_once [OF demo_prms_cmd(1) refl, of ?es 7 "[]"] have "last (k_frames ?k) = exit_frame ?k" by blast
  moreover have "exit_frame ?k = j_obj [(''exit'', JInt 3)]"
    by (simp add: launched_def cmd_stream_session_def demo_prms_cmd k_step_def cmd_stream_defs exit_frame_def)
  ultimately show ?thesis by simp
qed

text \<open>Until an output of the command ends, the frames of the session are exactly its chunks of standard and
  error output, in the order they were read, and a connected client sends each as one message of the
  session's stream.\<close>

theorem command_output:
  assumes "get_string prms ''cmd'' [] \<noteq> []" and "K_Stdout None \<notin> set es" and "K_Stderr None \<notin> set es"
    and "c_connected c"
  shows "k_frames (fold k_step es (launched sid name prms)) = concat (map chunks es) \<and>
    k_deliver sid frames c = fold (\<lambda>f. send_message (set_field PAYLOAD f (new_stream_message sid STREAM_DATA))) frames c"
proof -
  have "k_deliver sid frames c = fold (\<lambda>f. send_message (set_field PAYLOAD f (new_stream_message sid STREAM_DATA))) frames c"
    using assms(4)
  proof (induction frames arbitrary: c)
    case Nil
    then show ?case by (simp add: k_deliver_def)
  next
    case (Cons f frames)
    have "c_connected (send_message m c)" for m
      using Cons.prems by (simp add: send_message_def queue_write_def Let_def)
    with Cons show ?case by (simp add: k_deliver_def stream_json_def new_stream_message_def)
  qed
  with steps_chunks [of "launched sid name prms" es] launched_facts [OF assms(1), of sid name] assms(2,3) show ?thesis by simp
qed

theorem command_output_witness:
  "k_frames (fold k_step [K_Stdout (Some [104]), K_Stderr (Some [33]), K_Exit (Some 0)] (launched 7 [] demo_prms)) =
   [j_obj [(''out'', JBin [104])], j_obj [(''err'', JBin [33])]]"
  using command_output [OF demo_prms_cmd(1), of "[K_Stdout (Some [104]), K_Stderr (Some [33]), K_Exit (Some 0)]"
      "new_client ()\<lparr>c_connected := True\<rparr>" 7 "[]" "[]"]
  by simp

text \<open>What is written to the command's standard input, in flight and queued is what the server sent, in order
  and without repetition.\<close>

theorem command_input_in_order:
  assumes "get_string prms ''cmd'' [] \<noteq> []"
  shows "let k = fold k_step es (launched sid name prms) in
    subseq (k_written k @ in_flight (k_pump k) @ k_queue k) (concat (map inputs es))"
proof -
  have s: "cmd_ok (k_step e k) \<and> subseq (kw.content (k_step e k)) (kw.content k @ inputs e)" if "cmd_ok k" for e k
    using cmd_ok_step [OF that] cmd_step_content [OF that] by simp
  from fold_subseq [where good = cmd_ok and record_of = kw.content and part = inputs and step = k_step and es = es,
      OF s launched_facts(1) [OF assms]] launched_facts(6) [OF assms]
  show ?thesis by (simp add: kw.content_def Let_def)
qed

theorem command_input_in_order_witness:
  "subseq [[1::byte]] (concat (map inputs [K_Input (JBin [1]), K_Write Resume]))"
  using command_input_in_order [OF demo_prms_cmd(1), of "[K_Input (JBin [1]), K_Write Resume]" 7 "[]"]
  by (simp add: launched_def cmd_stream_session_def demo_prms_cmd k_step_def cmd_stream_defs kw.apply_event_def)

text \<open>The timer kills only a command that has not finished, and marks it; a stop kills an unfinished command,
  closes its input and disarms the timer, after which neither input nor the timer does anything.\<close>

theorem command_kill:
  assumes "k_process k"
  shows "k_kills (k_watch_timeout k) = k_kills k + (if k_finished k then 0 else 1) \<and>
    (k_timed_out (k_watch_timeout k) = (k_timed_out k \<or> \<not> k_finished k)) \<and>
    k_kills (k_stop k) = k_kills k + (if k_finished k then 0 else 1) \<and>
    k_step K_Timer (k_stop k) = k_stop k \<and> k_handle_input body (k_stop k) = k_stop k"
  using assms by (auto simp: k_watch_timeout_def k_terminate_def k_stop_def k_step_def k_cancel_timer_def k_handle_input_def Let_def)

theorem command_kill_witness: "k_kills (k_stop (launched 7 [] demo_prms)) = k_kills (launched 7 [] demo_prms) + 1"
proof -
  have "\<not> k_finished (launched 7 [] demo_prms)"
    using launched_facts [OF demo_prms_cmd(1), of 7 "[]"] by (auto simp: cmd_ok_def)
  with command_kill [OF launched_facts(2) [OF demo_prms_cmd(1), of 7 "[]"]] show ?thesis by simp
qed

text \<open>
  A comment in \<open>run\<close> says that the exit frame is not sent when the server asked for the stop itself. It is: the
  flag \<open>stopped_externally_\<close> is set and never read.
\<close>

theorem exit_frame_after_server_stop:
  "let k = fold k_step [K_Stop, K_Stdout None, K_Stderr None, K_Exit (Some 143)] (launched 7 [] demo_prms) in
     k_stopped_externally k \<and> k_frames k = [j_obj [(''exit'', JInt 143)]]"
  by (simp add: launched_def cmd_stream_session_def demo_prms_cmd k_step_def cmd_stream_defs exit_frame_def)

end
