(* ===== verification/Command_Wire.thy ===== *)
theory Command_Wire
  imports Cmd_Stream Stream_Wire
begin

text \<open>
  A streamed command on the wire: the outputs read from the process, the frames of the session, the client that sends them, and
  the server that reads the connection, put together as an instance of \<open>frame_source\<close>.
\<close>

section \<open>The frames\<close>

definition CMD_STREAM_BUFFER_SIZE :: nat where
  "CMD_STREAM_BUFFER_SIZE = 4096"

text \<open>A frame of an output fills at most the buffer the output is read into.\<close>

inductive cmd_frame :: "json \<Rightarrow> bool" where
  chunk_of: "name = ''out'' \<or> name = ''err'' \<Longrightarrow> length b \<le> CMD_STREAM_BUFFER_SIZE \<Longrightarrow> cmd_frame (j_obj [(name, JBin b)])"
| exit_of: "cmd_frame (exit_frame k)"

text \<open>What a frame says: the octets of an output, and that it is an exit frame.\<close>

definition frame_octets :: "string \<Rightarrow> json \<Rightarrow> byte list" where
  "frame_octets name v = (case j_find name v of Some (JBin b) \<Rightarrow> b | _ \<Rightarrow> [])"

definition is_exit :: "json \<Rightarrow> bool" where
  "is_exit v \<longleftrightarrow> j_find ''exit'' v \<noteq> None"

definition stream_octets :: "string \<Rightarrow> json list \<Rightarrow> byte list" where
  "stream_octets name vs = concat (map (frame_octets name) vs)"

lemma string_length: "length (string_bytes s) \<le> 11 + length s"
  using tag_length [of string_t "word_of_nat (length (c_str s))"] length_c_str [of s] by (simp add: string_bytes_def)

lemma int_length: "length (int_bytes i) \<le> 11"
  by (simp add: int_bytes_def tag_length)

lemma chunk_length: "length (snd (pson_out (JObj [(name, JBin b)]))) \<le> 33 + length name + length b"
  using tag_length [of map_t 1] string_length [of name] tag_length [of bytes_t "word_of_nat (length b)"]
  by (simp add: seq_out_def)

lemma exit_length:
  "length (snd (pson_out (JObj [(''exit'', JInt i)]))) \<le> 40"
  "length (snd (pson_out (JObj [(''exit'', JInt i), (''timeout'', JBool t)]))) \<le> 60"
  using tag_length [of map_t 1] tag_length [of map_t 2] string_length [of "''exit''"] string_length [of "''timeout''"] int_length [of i]
  by (simp_all add: seq_out_def)

lemma exit_frame_cases:
  "exit_frame k = JObj [(''exit'', JInt (word_of_int (k_exit_code k)))] \<or>
   exit_frame k = JObj [(''exit'', JInt (word_of_int (k_exit_code k))), (''timeout'', JBool True)]"
  by (simp add: exit_frame_def j_obj_def list_less_def)

lemma c_str_names [simp]: "c_str ''out'' = ''out''" "c_str ''err'' = ''err''" "c_str ''exit'' = ''exit''" "c_str ''timeout'' = ''timeout''"
  by code_simp+

lemma cmd_frame_fits: "cmd_frame v \<Longrightarrow> frame_fits v"
proof (induction rule: cmd_frame.induct)
  case (chunk_of name b)
  then show ?case using chunk_length [of name b]
    by (auto simp: frame_fits_def field_fits_def j_obj_def CMD_STREAM_BUFFER_SIZE_def max_u32_def simp del: pson_out.simps)
next
  case (exit_of k)
  show ?case using exit_frame_cases [of k] exit_length(1) [of "word_of_int (k_exit_code k)"] exit_length(2) [of "word_of_int (k_exit_code k)" True]
    by (auto simp: frame_fits_def field_fits_def max_u32_def simp del: pson_out.simps)
qed

lemma cmd_frame_norm:
  "cmd_frame v \<Longrightarrow> name = ''out'' \<or> name = ''err'' \<Longrightarrow>
    frame_octets name (field_norm v) = frame_octets name v \<and> is_exit (field_norm v) = is_exit v"
proof (induction rule: cmd_frame.induct)
  case (chunk_of name' b)
  then show ?case by (auto simp: field_norm_def j_obj_def)
next
  case (exit_of k)
  then show ?case using exit_frame_cases [of k] by (auto simp: field_norm_def frame_octets_def is_exit_def norm_i64_def)
qed

section \<open>The session as a source of frames\<close>

text \<open>A read returns at most what the buffer holds.\<close>

fun cmd_event_ok :: "cmd_event \<Rightarrow> bool" where
  "cmd_event_ok (K_Stdout (Some b)) = (length b \<le> CMD_STREAM_BUFFER_SIZE)"
| "cmd_event_ok (K_Stderr (Some b)) = (length b \<le> CMD_STREAM_BUFFER_SIZE)"
| "cmd_event_ok _ = True"

lemma k_deliver_send: "k_deliver = send_frames"
  by (intro ext) (simp add: k_deliver_def send_frames_def)

lemma run_frames: "k_frames (k_run k) = k_frames k \<or> k_frames (k_run k) = k_frames k @ [exit_frame k]"
  by (auto simp: k_run_def k_frame_def k_cancel_timer_def)

definition sends_frames :: "cmd_session \<Rightarrow> cmd_session \<Rightarrow> bool" where
  "sends_frames k k' \<longleftrightarrow> (\<exists>vs. k_frames k' = k_frames k @ vs \<and> list_all cmd_frame vs)"

lemma sends_same: "k_frames k' = k_frames k \<Longrightarrow> sends_frames k k'"
  by (simp add: sends_frames_def)

lemma sends_run: "k_frames k1 = k_frames k \<Longrightarrow> sends_frames k (k_run k1)"
  using run_frames [of k1] by (auto simp: sends_frames_def exit_of)

lemma sends_output:
  "name = ''out'' \<or> name = ''err'' \<Longrightarrow> length b \<le> CMD_STREAM_BUFFER_SIZE \<Longrightarrow> sends_frames k (k_output name b k)"
  by (auto simp: sends_frames_def k_output_def k_frame_def chunk_of)

lemma step_sends: "cmd_event_ok e \<Longrightarrow> sends_frames k (k_step e k)"
proof (cases e)
  case (K_Stdout r)
  assume "cmd_event_ok e"
  with K_Stdout show ?thesis
    by (cases r) (simp_all add: k_step_def k_read_stdout_def sends_run sends_output sends_same)
next
  case (K_Stderr r)
  assume "cmd_event_ok e"
  with K_Stderr show ?thesis
    by (cases r) (simp_all add: k_step_def k_read_stderr_def sends_run sends_output sends_same)
qed (auto simp: k_step_def k_stop_def k_terminate_def k_cancel_timer_def k_handle_input_def k_write_def kw.apply_event_def
  k_write_next_def k_write_done_def k_wait_process_def k_watch_timeout_def Let_def
  intro!: sends_same sends_run split: pump_event.split list.split)

definition cmd_frames :: "cmd_session \<Rightarrow> bool" where
  "cmd_frames k \<longleftrightarrow> list_all cmd_frame (k_frames k)"

interpretation cs: frame_source k_step k_frames cmd_frames cmd_event_ok
proof unfold_locales
  fix k e
  assume "cmd_event_ok e"
  then obtain vs where vs: "k_frames (k_step e k) = k_frames k @ vs" "list_all cmd_frame vs"
    using step_sends [of e k] by (auto simp: sends_frames_def)
  show "cmd_frames k \<Longrightarrow> cmd_frames (k_step e k)" using vs by (simp add: cmd_frames_def)
  show "prefix (k_frames k) (k_frames (k_step e k))" using vs by simp
qed (auto simp: cmd_frames_def list_all_iff cmd_frame_fits)

section \<open>What is read from the command\<close>

fun output_read :: "string \<Rightarrow> cmd_event list \<Rightarrow> byte list" where
  "output_read name [] = []"
| "output_read name (K_Stdout (Some b) # es) = (if name = ''out'' then b else []) @ output_read name es"
| "output_read name (K_Stderr (Some b) # es) = (if name = ''err'' then b else []) @ output_read name es"
| "output_read name (K_Stdout None # es) = (if name = ''out'' then [] else output_read name es)"
| "output_read name (K_Stderr None # es) = (if name = ''err'' then [] else output_read name es)"
| "output_read name (_ # es) = output_read name es"

lemma stream_octets_append [simp]: "stream_octets name (vs @ ws) = stream_octets name vs @ stream_octets name ws"
  by (simp add: stream_octets_def)

lemma exit_no_octets: "stream_octets name [exit_frame k] = []"
  using exit_frame_cases [of k] by (auto simp: stream_octets_def frame_octets_def)

lemma run_octets [simp]: "stream_octets name (k_frames (k_run k)) = stream_octets name (k_frames k)"
  using run_frames [of k] by (auto simp: exit_no_octets)

lemma output_octets [simp]:
  "stream_octets name (k_frames (k_output name' b k)) = stream_octets name (k_frames k) @ (if name = name' then b else [])"
  by (simp add: k_output_def k_frame_def stream_octets_def frame_octets_def j_obj_def)

definition reading :: "string \<Rightarrow> cmd_session \<Rightarrow> bool" where
  "reading name k = (name = ''out'' \<and> k_reading_out k \<or> name = ''err'' \<and> k_reading_err k)"

lemma step_octets:
  assumes "name = ''out'' \<or> name = ''err''"
  shows "stream_octets name (k_frames (k_step e k)) = stream_octets name (k_frames k) @ (if reading name k then output_read name [e] else [])"
proof (cases e)
  case (K_Stdout r)
  with assms show ?thesis by (cases r) (auto simp: k_step_def k_read_stdout_def reading_def)
next
  case (K_Stderr r)
  with assms show ?thesis by (cases r) (auto simp: k_step_def k_read_stderr_def reading_def)
qed (auto simp: k_step_def k_stop_def k_terminate_def k_cancel_timer_def k_handle_input_def k_write_def kw.apply_event_def
  k_write_next_def k_write_done_def k_wait_process_def k_watch_timeout_def Let_def split: pump_event.split list.split)

lemma output_read_Cons:
  assumes "name = ''out'' \<or> name = ''err''"
  shows "(if reading name k then output_read name (e # es) else []) =
    (if reading name k then output_read name [e] else []) @ (if reading name (k_step e k) then output_read name es else [])"
  using assms by (cases "(name, e # es)" rule: output_read.cases) (auto simp: reading_def step_pending)

lemma steps_octets:
  "name = ''out'' \<or> name = ''err'' \<Longrightarrow>
    stream_octets name (k_frames (fold k_step es k)) = stream_octets name (k_frames k) @ (if reading name k then output_read name es else [])"
proof (induction es arbitrary: k)
  case (Cons e es)
  show ?case
    unfolding fold_simps(2) Cons.IH [OF Cons.prems, of "k_step e k"] step_octets [OF Cons.prems] append_assoc
    by (simp only: output_read_Cons [OF Cons.prems, of k e es, symmetric])
qed simp

section \<open>From the command to the server\<close>

lemma exit_frames_exit: "exit_frames k = filter is_exit (k_frames k)"
proof -
  have "is_exit = (\<lambda>f. j_find ''exit'' f \<noteq> None)" by (simp only: fun_eq_iff is_exit_def simp_thms)
  then show ?thesis by (simp only: exit_frames_def)
qed

lemma ok_exits:
  "cmd_ok k \<Longrightarrow> filter is_exit (k_frames k) = (if k_ended k then [exit_frame k] else [])"
  "cmd_ok k \<Longrightarrow> k_ended k \<longrightarrow> last (k_frames k) = exit_frame k"
  unfolding cmd_ok_def exit_frames_exit by (elim conjE, assumption)+

lemma launched_source:
  assumes "get_string prms ''cmd'' [] \<noteq> []" and "name = ''out'' \<or> name = ''err''"
  shows "stream_octets name (k_frames (fold k_step es (launched sid session prms))) = output_read name es"
  using steps_octets [OF assms(2), of es "launched sid session prms"] launched_facts [OF assms(1), of sid session] assms(2)
  by (auto simp: reading_def stream_octets_def)

lemma norm_frames:
  assumes "list_all cmd_frame vs"
  shows "name = ''out'' \<or> name = ''err'' \<Longrightarrow> stream_octets name (map field_norm vs) = stream_octets name vs"
    and "filter is_exit (map field_norm vs) = map field_norm (filter is_exit vs)"
  using assms by (induction vs) (simp_all add: stream_octets_def cmd_frame_norm [of _ "''out''"] cmd_frame_norm)

text \<open>The exit frame of a launched command, as the server reads it.\<close>

lemma launched_exits:
  assumes "get_string prms ''cmd'' [] \<noteq> []" and k: "k = fold k_step es (launched sid session prms)"
    and small: "list_all cmd_frame (k_frames k)"
  shows "filter is_exit (map field_norm (k_frames k)) = (if completed es then [last (map field_norm (k_frames k))] else [])"
    and "completed es \<longrightarrow> last (map field_norm (k_frames k)) = field_norm (exit_frame k)"
proof -
  note k0 = launched_facts [OF assms(1), of sid session]
  have ok: "cmd_ok k" unfolding k by (rule cmd_ok_steps [OF k0(1)])
  have ended: "k_ended k = completed es"
    using ok k0 by (auto simp: k cmd_ok_def steps_process steps_pending completed_def)
  have e: "filter is_exit (k_frames k) = (if completed es then [exit_frame k] else [])"
    "completed es \<longrightarrow> last (k_frames k) = exit_frame k"
    using ok_exits [OF ok] unfolding ended by simp_all
  have "k_frames k \<noteq> []" if "completed es" using e(1) that by auto
  then show last: "completed es \<longrightarrow> last (map field_norm (k_frames k)) = field_norm (exit_frame k)" using e(2) by (simp add: last_map)
  then show "filter is_exit (map field_norm (k_frames k)) = (if completed es then [last (map field_norm (k_frames k))] else [])"
    unfolding norm_frames(2) [OF small] e(1) by simp
qed

lemma filter_prefix: "prefix xs ys \<Longrightarrow> filter p xs \<noteq> [] \<Longrightarrow> filter p ys \<noteq> []"
  by (auto elim: prefixE)

text \<open>A part of a list that holds its only exit frame, the last one, is the whole list.\<close>

lemma whole_with_exit:
  assumes "prefix xs ys" and "filter p ys = [last ys]" and "filter p xs \<noteq> []"
  shows "xs = ys"
proof -
  from assms(1) obtain zs where ys: "ys = xs @ zs" by (auto elim: prefixE)
  have "zs = []"
  proof (rule ccontr)
    assume "zs \<noteq> []"
    then have "last ys \<in> set zs" by (simp add: ys)
    moreover have "p (last ys)" using assms(2) by (metis filter_eq_ConsD)
    ultimately have "filter p zs \<noteq> []" by (auto simp: filter_empty_conv)
    then have "length (filter p ys) \<ge> 2" using assms(3) by (simp add: ys) (metis One_nat_def Suc_leI add_mono length_greater_0_conv numeral_2_eq_2 plus_1_eq_Suc)
    then show False by (simp add: assms(2))
  qed
  then show ?thesis by (simp add: ys)
qed

text \<open>C13: From the command to the server. A command is launched by a connected client whose write loop is idle and has written
  nothing, and runs among any other messages the client sends that are no data of the stream. As long as no write fails, what
  the server reads of either output is a beginning of what the session read from the command. It reads at most one exit
  frame, which says what the session found, comes last, and only when both outputs have ended and the process was waited
  for; with it, and once the write loop has drained, both outputs are complete. When the server has not asked for a stop,
  the exit frame of a command that is over has been read once the write loop has drained.\<close>

theorem command_reaches_server:
  assumes "get_string prms ''cmd'' [] \<noteq> []" and "fresh_connection c"
    and "list_all (relay_event_ok cmd_event_ok sid) es"
  shows "let (k, c') = relay_run k_step k_frames sid es (launched sid session prms, c);
      received = server_frames sid (server_reads (c_wire c')); happened = source_events es;
      exits = filter is_exit received; all = (drained c' \<or> exits \<noteq> [])
    in prefix (stream_octets ''out'' received) (output_read ''out'' happened) \<and>
      prefix (stream_octets ''err'' received) (output_read ''err'' happened) \<and>
      (all \<longrightarrow> stream_octets ''out'' received = output_read ''out'' happened \<and>
        stream_octets ''err'' received = output_read ''err'' happened) \<and>
      (exits \<noteq> [] \<longrightarrow> completed happened \<and> exits = [field_norm (exit_frame k)] \<and> last received = field_norm (exit_frame k)) \<and>
      (drained c' \<and> completed happened \<and> K_Stop \<notin> set happened \<longrightarrow> exits \<noteq> [])"
proof -
  let ?k0 = "launched sid session prms" and ?happened = "source_events es"
  note k0 = launched_facts [OF assms(1), of sid session]
  obtain k c' where run: "relay_run k_step k_frames sid es (?k0, c) = (k, c')" by (rule prod.exhaust)
  let ?received = "server_frames sid (server_reads (c_wire c'))" and ?all = "map field_norm (k_frames k)"
  have arrive: "prefix ?received ?all" "drained c' \<longrightarrow> ?received = ?all"
    using cs.frames_arrive [OF _ k0(7) assms(2,3) run] by (simp_all add: cmd_frames_def k0(7))
  have k: "k = fold k_step ?happened ?k0"
    using relay_source [of k_step k_frames sid es "(?k0, c)"] by (simp add: run)
  have small: "list_all cmd_frame (k_frames k)"
    using cs.good_source [OF _ assms(3), of ?k0] by (simp add: cmd_frames_def k0(7) k)
  note exits = launched_exits [OF assms(1) k small]
  have octets: "stream_octets name ?all = output_read name ?happened" if "name = ''out'' \<or> name = ''err''" for name
    using norm_frames(1) [OF small that] launched_source [OF assms(1) that] by (simp add: k)
  have pre: "prefix (stream_octets name ?received) (output_read name ?happened)" if "name = ''out'' \<or> name = ''err''" for name
    unfolding octets [OF that, symmetric] using arrive(1) by (auto elim!: prefixE)
  have some: "completed ?happened \<and> ?received = ?all" if e: "filter is_exit ?received \<noteq> []"
  proof -
    have "filter is_exit ?all \<noteq> []" by (rule filter_prefix [OF arrive(1) e])
    then have "completed ?happened" "filter is_exit ?all = [last ?all]" using exits(1) by (auto split: if_splits)
    with whole_with_exit [OF arrive(1) this(2) e] show ?thesis by blast
  qed
  have whole: "?received = ?all" if "drained c' \<or> filter is_exit ?received \<noteq> []" using that some arrive(2) by blast
  have out: "stream_octets name ?received = output_read name ?happened"
    if "drained c' \<or> filter is_exit ?received \<noteq> []" "name = ''out'' \<or> name = ''err''" for name
    unfolding whole [OF that(1)] by (rule octets [OF that(2)])
  have exit: "completed ?happened \<and> filter is_exit ?received = [field_norm (exit_frame k)] \<and> last ?received = field_norm (exit_frame k)"
    if "filter is_exit ?received \<noteq> []"
    using exits some [OF that] by simp
  have finish: "filter is_exit ?received \<noteq> []" if "drained c' \<and> completed ?happened \<and> K_Stop \<notin> set ?happened"
    using that exits(1) whole by simp
  show ?thesis
    unfolding run Let_def prod.case
    by (intro conjI impI pre; (rule out exit [THEN conjunct1] exit [THEN conjunct2, THEN conjunct1] exit [THEN conjunct2, THEN conjunct2] finish)?; simp)
qed

definition small_command :: "cmd_event relay_event list" where
  "small_command =
     [Source (K_Stdout (Some [104, 105])), Loop, Source (K_Exit (Some 3)), Source (K_Stderr (Some [33])), Wrote True,
      Send (new_message KEEP_ALIVE), Source (K_Stderr None), Source (K_Stdout None), Wrote True, Wrote True, Wrote True]"

theorem command_reaches_server_witness:
  "case relay_run k_step k_frames 7 small_command (launched 7 [] demo_prms, connected_client) of (k, c') \<Rightarrow>
     let received = server_frames 7 (server_reads (c_wire c')) in
     length (c_wire c') = 4 \<and> stream_octets ''out'' received = [104, 105] \<and> stream_octets ''err'' received = [33] \<and>
     filter is_exit received = [j_obj [(''exit'', JUInt 3)]]"
proof -
  let ?s = "relay_run k_step k_frames 7 small_command (launched 7 [] demo_prms, connected_client)"
  have run: "case ?s of (k, c') \<Rightarrow> length (c_wire c') = 4 \<and> drained c' \<and> field_norm (exit_frame k) = j_obj [(''exit'', JUInt 3)]"
    by code_simp
  have "list_all (relay_event_ok cmd_event_ok 7) small_command"
    using keep_alive_sendable [where 'a = cmd_event] by (simp add: small_command_def CMD_STREAM_BUFFER_SIZE_def)
  moreover have "completed (source_events small_command)" "K_Stop \<notin> set (source_events small_command)" "output_read ''out'' (source_events small_command) = [104, 105]"
    "output_read ''err'' (source_events small_command) = [33]"
    by (simp_all add: small_command_def completed_def)
  ultimately show ?thesis
    using command_reaches_server [OF demo_prms_cmd(1) connected_fresh, of 7 small_command "[]"] run
    by (auto simp: Let_def split: prod.splits)
qed

end
