(* ===== verification/Proxy.thy ===== *)
theory Proxy
  imports Client_State Stream_Manager_Correct
begin

text \<open>
  TCP tunnels: \<^verbatim>\<open>extensions/proxy/proxy_session.cpp\<close> and \<^verbatim>\<open>proxy.cpp\<close>. A session
  owns a socket to the target; one coroutine copies what the target sends to the client, another writes what
  the server sends. The outcomes of the socket operations are arguments.
\<close>

section \<open>State and operations\<close>

definition PROXY_BUFFER_SIZE :: nat where "PROXY_BUFFER_SIZE = 4096"

record proxy_session =
  p_stream_id :: stream_id
  p_host :: string
  p_port :: u16
  p_secure :: bool
  p_open :: bool
  p_running :: bool
  p_reading :: bool
  p_queue :: "byte list list"
  p_progress :: bool
  p_pump :: "byte list pump"
  p_written :: "byte list list"
  p_sent :: u64
  p_received :: u64

definition new_proxy_session :: "stream_id \<Rightarrow> string \<Rightarrow> u16 \<Rightarrow> bool \<Rightarrow> proxy_session" where
  "new_proxy_session sid host port secure =
     \<lparr>p_stream_id = sid, p_host = host, p_port = port, p_secure = secure, p_open = False, p_running = False,
      p_reading = False, p_queue = [], p_progress = False, p_pump = Idle, p_written = [], p_sent = 0, p_received = 0\<rparr>"

definition proxy_create_session :: "stream_id \<Rightarrow> string \<Rightarrow> json \<Rightarrow> proxy_session option" where
  "proxy_create_session sid name parameters =
     (let protocol = get_string parameters ''protocol'' [];
          host = get_string parameters ''address'' [];
          port = get_num parameters ''port'' 0;
          secure = get_bool parameters ''secure'' False
      in if protocol = ''tcp'' then Some (new_proxy_session sid host port secure) else None)"

text \<open>\<open>p_start\<close> takes the outcome of \<open>connect\<close>: \<open>None\<close>, or the message of the error.\<close>

definition p_start :: "string option \<Rightarrow> proxy_session \<Rightarrow> exec_result \<times> proxy_session" where
  "p_start outcome p =
     (case outcome of
        Some message \<Rightarrow> (exec_error False message, p)
      | None \<Rightarrow> (exec_bool True, p\<lparr>p_open := True, p_running := True, p_reading := True\<rparr>))"

definition p_stop :: "proxy_session \<Rightarrow> proxy_session" where
  "p_stop p = p\<lparr>p_running := False, p_open := False\<rparr>"

definition p_write :: "byte list \<Rightarrow> proxy_session \<Rightarrow> proxy_session" where
  "p_write data p =
     (let p1 = p\<lparr>p_queue := p_queue p @ [data]\<rparr> in
      if p_progress p then p1 else p1\<lparr>p_progress := True, p_pump := Ready\<rparr>)"

definition p_handle_input :: "json \<Rightarrow> proxy_session \<Rightarrow> proxy_session" where
  "p_handle_input data p =
     (if \<not> p_running p then p
      else case data of
        JBin bytes \<Rightarrow> (if bytes = [] then p else p_write bytes p)
      | _ \<Rightarrow> p)"

text \<open>One round of the read loop, from the end of a read to the next suspension.\<close>

definition p_read_done :: "byte list option \<Rightarrow> proxy_session \<Rightarrow> 'w client \<Rightarrow> proxy_session \<times> 'w client" where
  "p_read_done outcome p c =
     (case outcome of
        None \<Rightarrow> ((p_stop p)\<lparr>p_reading := False\<rparr>, c)
      | Some bytes \<Rightarrow>
          (let p1 = p\<lparr>p_received := p_received p + of_nat (length bytes)\<rparr>;
               (sent, c1) = stream_bytes (p_stream_id p) bytes c
           in if sent then (p1\<lparr>p_reading := p_running p1 \<and> p_open p1\<rparr>, c1)
              else ((p_stop p1)\<lparr>p_reading := False\<rparr>, c1)))"

definition p_write_next :: "proxy_session \<Rightarrow> proxy_session" where
  "p_write_next p =
     (case p_queue p of
        data # queue \<Rightarrow>
          (if p_running p then
             (if p_open p then p\<lparr>p_queue := queue, p_pump := Writing data\<rparr>
              else (p_stop p)\<lparr>p_progress := False, p_pump := Idle\<rparr>)
           else p\<lparr>p_progress := False, p_pump := Idle\<rparr>)
      | [] \<Rightarrow> p\<lparr>p_progress := False, p_pump := Idle\<rparr>)"

definition p_write_done :: "bool \<Rightarrow> proxy_session \<Rightarrow> proxy_session" where
  "p_write_done ok p =
     (if ok then
        p_write_next (p\<lparr>p_written := p_written p @ in_flight (p_pump p),
          p_sent := p_sent p + of_nat (length (concat (in_flight (p_pump p))))\<rparr>)
      else (p_stop p)\<lparr>p_progress := False, p_pump := Idle\<rparr>)"

definition proxy_ops :: "proxy_session session_ops" where
  "proxy_ops = \<lparr>op_create = proxy_create_session, op_stop = p_stop, op_input = p_handle_input\<rparr>"

section \<open>The contracts\<close>

interpretation pw: write_pump p_queue p_pump p_written p_progress "\<lambda>p. p_running p \<and> p_open p"
  p_write p_write_next p_write_done
proof unfold_locales
  fix p :: proxy_session and d
  assume "p_pump p = Writing d" and "p_progress p"
  then show "\<exists>p1. p_write_done True p = p_write_next p1 \<and> p_queue p1 = p_queue p \<and>
      p_written p1 = p_written p @ [d] \<and> p_progress p1 \<and> (p_running p1 \<and> p_open p1) = (p_running p \<and> p_open p)"
    by (intro exI [of _ "p\<lparr>p_written := p_written p @ [d], p_sent := p_sent p + of_nat (length d)\<rparr>"])
      (simp add: p_write_done_def)
qed (auto simp: p_write_def p_write_next_def p_write_done_def p_stop_def Let_def split: list.split)

definition proxy_ok :: "proxy_session \<Rightarrow> bool" where
  "proxy_ok p \<longleftrightarrow> p_open p = p_running p \<and> p_progress p = (p_pump p \<noteq> Idle)"

interpretation proxies: session_class proxy_ops proxy_ok
  by unfold_locales (auto simp: proxy_ops_def proxy_create_session_def new_proxy_session_def proxy_ok_def p_stop_def
      p_handle_input_def p_write_def Let_def split: if_splits json.split)

section \<open>Runs\<close>

datatype proxy_event =
    P_Start "string option"
  | P_Stop
  | P_Input json
  | P_Read "byte list option"
  | P_Write "byte list pump_event"

definition p_step :: "proxy_event \<Rightarrow> proxy_session \<times> 'w client \<Rightarrow> proxy_session \<times> 'w client" where
  "p_step e pc =
     (case pc of (p, c) \<Rightarrow>
      (case e of
         P_Start outcome \<Rightarrow> (snd (p_start outcome p), c)
       | P_Stop \<Rightarrow> (p_stop p, c)
       | P_Input data \<Rightarrow> (p_handle_input data p, c)
       | P_Read outcome \<Rightarrow> (if p_reading p then p_read_done outcome p c else (p, c))
       | P_Write (Enqueue _) \<Rightarrow> (p, c)
       | P_Write w \<Rightarrow> (pw.apply_event w p, c)))"

text \<open>What the server sends into the tunnel, and what the target sends out of it.\<close>

fun tunnelled :: "proxy_event \<Rightarrow> byte list list" where
  "tunnelled (P_Input (JBin bytes)) = (if bytes = [] then [] else [bytes])"
| "tunnelled _ = []"

lemma proxy_frame:
  "pw.content (p_stop p) = pw.content p" "pw.content (snd (p_start outcome p)) = pw.content p"
  "pw.content (fst (p_read_done r p c)) = pw.content p"
  by (auto simp: pw.content_def p_stop_def p_start_def p_read_done_def Let_def split: option.split prod.split)

lemma proxy_input_content:
  assumes "proxy_ok p"
  shows "subseq (pw.content (p_handle_input data p)) (pw.content p @ tunnelled (P_Input data))"
proof (cases "p_running p \<and> (\<exists>bytes. data = JBin bytes \<and> bytes \<noteq> [])")
  case True
  then obtain bytes where b: "data = JBin bytes" "bytes \<noteq> []" "p_running p" by blast
  have "pw.pump_inv p" using assms by (simp add: pw.pump_inv_def proxy_ok_def)
  from pw.event_content(2) [OF this, of "Enqueue bytes"] b show ?thesis
    by (simp add: pw.apply_event_def p_handle_input_def)
next
  case False
  then have "p_handle_input data p = p" by (auto simp: p_handle_input_def split: json.split)
  then show ?thesis by (simp del: tunnelled.simps)
qed

lemma proxy_ok_pump: "proxy_ok p \<Longrightarrow> (\<And>d. w \<noteq> Enqueue d) \<Longrightarrow> proxy_ok (pw.apply_event w p)"
  by (cases w; cases "p_pump p")
    (auto simp: pw.apply_event_def proxy_ok_def p_write_next_def p_write_done_def p_stop_def split: list.split)

lemma proxy_step_ok: "proxy_ok p \<Longrightarrow> proxy_ok (fst (p_step e (p, c)))"
proof (cases e)
  case (P_Input data)
  then show "proxy_ok p \<Longrightarrow> ?thesis"
    using proxies.input_good [of p data] by (simp add: p_step_def proxy_ops_def)
next
  case (P_Write w)
  then show "proxy_ok p \<Longrightarrow> ?thesis" by (cases w) (auto simp: p_step_def intro!: proxy_ok_pump)
qed (auto simp: p_step_def proxy_ok_def p_start_def p_stop_def p_read_done_def Let_def split: option.split prod.split)

lemma proxy_step_content:
  assumes "proxy_ok p"
  shows "subseq (pw.content (fst (p_step e (p, c)))) (pw.content p @ tunnelled e)"
proof (cases e)
  case (P_Write w)
  have "pw.pump_inv p" using assms by (simp add: pw.pump_inv_def proxy_ok_def)
  from pw.event_content(1) [OF this, of w] P_Write show ?thesis by (cases w) (auto simp: p_step_def)
qed (auto simp: p_step_def proxy_frame intro: proxy_input_content [OF assms])

section \<open>Properties\<close>

text \<open>Through any sequence of events, what the target receives, what is in flight and what waits is what
  the server sent into the tunnel, in order and without repetition.\<close>

theorem tunnel_in_order:
  assumes "proxy_create_session sid name prms = Some p0"
  shows "let p = fst (fold p_step es (p0, c)) in
    subseq (p_written p @ in_flight (p_pump p) @ p_queue p) (concat (map tunnelled es)) \<and> p_open p = p_running p"
proof -
  have s: "proxy_ok (fst (p_step e s)) \<and> subseq (pw.content (fst (p_step e s))) (pw.content (fst s) @ tunnelled e)"
    if "proxy_ok (fst s)" for e and s :: "proxy_session \<times> 'a client"
    using that proxy_step_ok proxy_step_content by (cases s) auto
  have "op_create proxy_ops sid name prms = Some p0" using assms by (simp add: proxy_ops_def)
  from proxies.create_good [OF this] have start: "proxy_ok (fst (p0, c))" by simp
  have "pw.content p0 = []"
    using assms by (auto simp: proxy_create_session_def new_proxy_session_def pw.content_def Let_def split: if_splits)
  with fold_subseq [where good = "\<lambda>s. proxy_ok (fst s)" and record_of = "\<lambda>s. pw.content (fst s)"
      and part = tunnelled and step = p_step and es = es, OF s start] show ?thesis
    by (simp add: pw.content_def proxy_ok_def Let_def)
qed

theorem tunnel_in_order_witness:
  "p_written (fst (fold p_step [P_Start None, P_Input (JBin [1]), P_Write Resume, P_Input (JBin [2]), P_Write (Written True)]
     (new_proxy_session 7 ''host'' 80 False, new_client ()))) = [[1]] \<and>
   subseq ([[1::byte]] @ [[2]]) (concat (map tunnelled [P_Start None, P_Input (JBin [1]), P_Write Resume, P_Input (JBin [2]),
     P_Write (Written True)]))"
proof -
  let ?es = "[P_Start None, P_Input (JBin [1]), P_Write Resume, P_Input (JBin [2]), P_Write (Written True)]"
  let ?prms = "j_obj [(''protocol'', JStr ''tcp''), (''address'', JStr ''host''), (''port'', JUInt 80)]"
  have c: "proxy_create_session 7 [] ?prms = Some (new_proxy_session 7 ''host'' 80 False)" by code_simp
  have r: "p_written (fst (fold p_step ?es (new_proxy_session 7 ''host'' 80 False, new_client ()))) = [[1]]"
    "p_pump (fst (fold p_step ?es (new_proxy_session 7 ''host'' 80 False, new_client ()))) = Writing [2]"
    "p_queue (fst (fold p_step ?es (new_proxy_session 7 ''host'' 80 False, new_client ()))) = []"
    by (simp_all add: p_step_def p_start_def p_handle_input_def p_write_def pw.apply_event_def p_write_next_def
        p_write_done_def new_proxy_session_def Let_def)
  show ?thesis using tunnel_in_order [OF c, of ?es "new_client ()"] r by (simp add: Let_def)
qed

text \<open>Only parameters that ask for the protocol tcp give a session; a failed connection leaves it unable to
  take input; a stopped session drops what the server still sends and ends its loops.\<close>

theorem tunnel_guards:
  "(proxy_create_session sid name prms \<noteq> None) = (get_string prms ''protocol'' [] = ''tcp'') \<and>
   exec_ok (fst (p_start (Some message) p)) = False \<and> snd (p_start (Some message) p) = p \<and>
   p_handle_input data (p_stop p) = p_stop p \<and> p_stop (p_stop p) = p_stop p \<and>
   p_pump (p_write_next (p_stop p)) = Idle \<and> \<not> p_reading (fst (p_read_done None p c))"
  by (auto simp: proxy_create_session_def Let_def p_start_def exec_ok_def exec_error_def new_message_def
      p_handle_input_def p_stop_def p_write_next_def p_read_done_def set_field_def split: list.split)

end
