(* ===== verification/Terminal.thy ===== *)
theory Terminal
  imports Client_State Shell_Env Stream_Manager_Correct
begin

text \<open>
  Interactive shells: \<^verbatim>\<open>extensions/terminal/terminal_session.cpp\<close> and
  \<^verbatim>\<open>terminal.cpp\<close>. A session owns a child process and the master side of its pseudo terminal; one
  coroutine copies what the shell prints to the client, another writes what the server sends. What the
  system calls return is an argument of the operations.
\<close>

section \<open>State\<close>

definition TERMINAL_BUFFER_SIZE :: nat where "TERMINAL_BUFFER_SIZE = 1024"

text \<open>The reading coroutine: none, spawned or suspended in a read.\<close>

datatype reader = No_Reader | Spawned | Reading

text \<open>
  \<open>t_size\<close> is the window size of the terminal device, \<open>t_hups\<close> the processes that were sent
  \<open>SIGHUP\<close>, \<open>t_written\<close> what was written to the device.
\<close>

record terminal =
  t_stream_id :: stream_id
  t_pid :: int
  t_cols :: u32
  t_rows :: u32
  t_running :: bool
  t_terminal :: string
  t_open :: bool
  t_size :: "u16 \<times> u16"
  t_reader :: reader
  t_queue :: "byte list list"
  t_progress :: bool
  t_pump :: "byte list pump"
  t_written :: "byte list list"
  t_hups :: "int list"
  t_sent :: u64
  t_received :: u64

definition terminal_session :: "(string \<Rightarrow> bool) \<Rightarrow> stream_id \<Rightarrow> json \<Rightarrow> terminal" where
  "terminal_session exists sid parameters =
     \<lparr>t_stream_id = sid, t_pid = 0, t_cols = get_num parameters ''cols'' 80, t_rows = get_num parameters ''rows'' 24,
      t_running = False, t_terminal = preferred_shell_name exists, t_open = False, t_size = (0, 0),
      t_reader = No_Reader, t_queue = [], t_progress = False, t_pump = Idle, t_written = [], t_hups = [],
      t_sent = 0, t_received = 0\<rparr>"

section \<open>Operations\<close>

text \<open>\<open>pid\<close> is what \<open>forkpty\<close> returns in the parent. The size is narrowed to 16 bits.\<close>

definition t_start :: "int \<Rightarrow> terminal \<Rightarrow> exec_result \<times> terminal" where
  "t_start pid t =
     (if t_pid t \<noteq> 0 \<or> t_open t \<or> t_terminal t = [] then
        (exec_error False ''Terminal already running or not available'', t)
      else if pid > 0 then
        (exec_bool True,
         t\<lparr>t_pid := pid, t_size := (ucast (t_cols t), ucast (t_rows t)), t_open := True, t_running := True,
           t_reader := Spawned\<rparr>)
      else (exec_error False ''Failed to fork terminal process'', t\<lparr>t_pid := pid\<rparr>))"

definition t_stop :: "bool \<Rightarrow> bool \<Rightarrow> terminal \<Rightarrow> bool \<times> terminal" where
  "t_stop kill_ok close_ok t =
     (let t1 = t\<lparr>t_running := False\<rparr>;
          s1 = (t_pid t = 0 \<or> kill_ok);
          t2 = (if t_pid t \<noteq> 0 then t1\<lparr>t_hups := t_hups t @ [t_pid t], t_pid := 0\<rparr> else t1);
          s2 = (\<not> t_open t \<or> close_ok)
      in (s1 \<and> s2, t2\<lparr>t_open := False\<rparr>))"

text \<open>\<open>stop()\<close> where its result is not looked at.\<close>

definition t_halt :: "terminal \<Rightarrow> terminal" where
  "t_halt t = snd (t_stop True True t)"

definition t_write :: "byte list \<Rightarrow> terminal \<Rightarrow> terminal" where
  "t_write data t =
     (let t1 = t\<lparr>t_queue := t_queue t @ [data]\<rparr> in
      if t_progress t then t1 else t1\<lparr>t_progress := True, t_pump := Ready\<rparr>)"

definition t_handle_input :: "json \<Rightarrow> terminal \<Rightarrow> terminal" where
  "t_handle_input data t =
     (if \<not> t_running t then t
      else case data of
        JBin bytes \<Rightarrow>
          (if bytes = [] then t
           else t_write bytes (t\<lparr>t_received := t_received t + of_nat (length bytes)\<rparr>))
      | _ \<Rightarrow> t)"

text \<open>The read loop up to its next suspension, and the end of a read.\<close>

definition t_read_next :: "terminal \<Rightarrow> terminal" where
  "t_read_next t = t\<lparr>t_reader := (if t_running t \<and> t_open t then Reading else No_Reader)\<rparr>"

definition t_read_done :: "byte list option \<Rightarrow> terminal \<Rightarrow> 'w client \<Rightarrow> terminal \<times> 'w client" where
  "t_read_done outcome t c =
     (case outcome of
        None \<Rightarrow> ((t_halt t)\<lparr>t_reader := No_Reader\<rparr>, c)
      | Some bytes \<Rightarrow>
          (if bytes = [] then (t_read_next t, c)
           else
             let t1 = t\<lparr>t_sent := t_sent t + of_nat (length bytes)\<rparr>;
                 (sent, c1) = stream_bytes (t_stream_id t) bytes c
             in if sent then (t_read_next t1, c1)
                else ((t_halt t1)\<lparr>t_reader := No_Reader\<rparr>, c1)))"

definition t_write_next :: "terminal \<Rightarrow> terminal" where
  "t_write_next t =
     (case t_queue t of
        data # queue \<Rightarrow>
          (if t_running t \<and> t_open t then t\<lparr>t_queue := queue, t_pump := Writing data\<rparr>
           else t\<lparr>t_progress := False, t_pump := Idle\<rparr>)
      | [] \<Rightarrow> t\<lparr>t_progress := False, t_pump := Idle\<rparr>)"

definition t_write_done :: "bool \<Rightarrow> terminal \<Rightarrow> terminal" where
  "t_write_done ok t =
     (if ok then t_write_next (t\<lparr>t_written := t_written t @ in_flight (t_pump t)\<rparr>)
      else (t_halt t)\<lparr>t_progress := False, t_pump := Idle\<rparr>)"

text \<open>\<open>ioctl\<close> is \<open>None\<close> when the call succeeds and otherwise the text of the error.\<close>

definition update_params :: "string option \<Rightarrow> json \<Rightarrow> 'v res_output \<Rightarrow> terminal \<Rightarrow> 'v res_output option \<times> terminal" where
  "update_params ioctl body out t =
     (let cols = get_num body ''size.cols'' 0;
          rows = get_num body ''size.rows'' 0
      in if cols = 0 \<or> rows = 0 then
        (map_option (set_return_code 400) (output_put ''error'' (JStr ''rows and cols must be greater than 0'') out), t)
      else if t_open t then
        (case ioctl of
           Some message \<Rightarrow> (map_option (set_return_code 400) (output_put ''error'' (JStr message) out), t)
         | None \<Rightarrow> (Some out, t\<lparr>t_size := (ucast cols, ucast rows), t_cols := cols, t_rows := rows\<rparr>))
      else
        (map_option (set_return_code 404) (output_put ''error'' (JStr ''terminal is not active'') out), t))"

text \<open>The resource \<^verbatim>\<open>$terminal/:session/params\<close> finds the session by name.\<close>

definition terminal_params :: "string \<Rightarrow> string option \<Rightarrow> string \<Rightarrow> json \<Rightarrow> 'v res_output \<Rightarrow> terminal manager
    \<Rightarrow> 'v res_output option \<times> terminal manager" where
  "terminal_params errno ioctl name body out m =
     (case sm_find name m of
        None \<Rightarrow> (map_option (set_return_code 404) (output_put ''error'' (JStr errno) out), m)
      | Some (i, ob) \<Rightarrow>
          (fst (update_params ioctl body out (so_state ob)),
           update_object i (\<lambda>t. snd (update_params ioctl body out t)) m))"

definition terminal_ops :: "(string \<Rightarrow> bool) \<Rightarrow> terminal session_ops" where
  "terminal_ops exists =
     \<lparr>op_create = (\<lambda>sid name parameters. Some (terminal_session exists sid parameters)),
      op_stop = t_halt, op_input = t_handle_input\<rparr>"

lemmas terminal_defs [session_simps] = t_start_def t_stop_def t_halt_def t_write_def t_read_next_def t_read_done_def
  t_write_next_def t_write_done_def t_handle_input_def Let_def

section \<open>What a session does\<close>

text \<open>
  A session that runs has its process and its descriptor; one that does not has neither (a failed
  fork leaves a negative number behind); the flag of the write loop is right.
\<close>

definition terminal_ok :: "terminal \<Rightarrow> bool" where
  "terminal_ok t \<longleftrightarrow> t_open t = t_running t \<and> (t_running t \<longleftrightarrow> t_pid t > 0) \<and> t_progress t = (t_pump t \<noteq> Idle)"

lemma halt_frame [simp]:
  "t_queue (t_halt t) = t_queue t" "t_pump (t_halt t) = t_pump t" "t_progress (t_halt t) = t_progress t"
  "t_written (t_halt t) = t_written t" "t_running (t_halt t) = False" "t_open (t_halt t) = False"
  "t_pid (t_halt t) = 0"
  by (simp_all add: t_halt_def t_stop_def Let_def)

interpretation tw: write_pump t_queue t_pump t_written t_progress "\<lambda>t. t_running t \<and> t_open t"
  t_write t_write_next t_write_done
proof unfold_locales
  fix t :: terminal and d
  assume "t_pump t = Writing d" and "t_progress t"
  then show "\<exists>t1. t_write_done True t = t_write_next t1 \<and> t_queue t1 = t_queue t \<and>
      t_written t1 = t_written t @ [d] \<and> t_progress t1 \<and> (t_running t1 \<and> t_open t1) = (t_running t \<and> t_open t)"
    by (intro exI [of _ "t\<lparr>t_written := t_written t @ [d]\<rparr>"]) (simp add: t_write_done_def)
qed (auto simp: t_write_def t_write_next_def t_write_done_def Let_def split: list.split)

lemma terminal_ok_new: "terminal_ok (terminal_session exists sid prms)"
  by (simp add: terminal_ok_def terminal_session_def)

lemma terminal_ok_halt: "terminal_ok t \<Longrightarrow> terminal_ok (t_halt t)"
  by (simp add: terminal_ok_def)

lemma terminal_ok_start: "terminal_ok t \<Longrightarrow> terminal_ok (snd (t_start pid t))"
  by (auto simp: terminal_ok_def t_start_def)

lemma terminal_ok_input: "terminal_ok t \<Longrightarrow> terminal_ok (t_handle_input data t)"
  by (auto simp: terminal_ok_def t_handle_input_def t_write_def Let_def split: json.split)

lemma terminal_ok_read_next: "terminal_ok t \<Longrightarrow> terminal_ok (t_read_next t)"
  by (simp add: terminal_ok_def t_read_next_def)

lemma terminal_ok_read: "terminal_ok t \<Longrightarrow> terminal_ok (fst (t_read_done outcome t c))"
  by (auto simp: terminal_ok_def t_read_done_def t_read_next_def Let_def split: option.split prod.split)

lemma terminal_ok_write_next: "terminal_ok t \<Longrightarrow> t_pump t \<noteq> Idle \<Longrightarrow> terminal_ok (t_write_next t)"
  by (auto simp: terminal_ok_def t_write_next_def split: list.split)

lemma terminal_ok_write: "terminal_ok t \<Longrightarrow> t_pump t \<noteq> Idle \<Longrightarrow> terminal_ok (t_write_done ok t)"
  by (auto simp: terminal_ok_def t_write_done_def t_write_next_def split: list.split)

lemma terminal_ok_params: "terminal_ok t \<Longrightarrow> terminal_ok (snd (update_params ioctl body out t))"
  by (auto simp: terminal_ok_def update_params_def Let_def split: option.split)

interpretation terminals: session_class "terminal_ops exists" terminal_ok for exists
  by unfold_locales (auto simp: terminal_ops_def terminal_ok_new terminal_ok_halt terminal_ok_input)

section \<open>Runs\<close>

text \<open>What can happen to a session, in any order; what its state does not allow leaves it as it is.\<close>

datatype terminal_event =
    T_Start int
  | T_Stop bool bool
  | T_Input json
  | T_Read_Resume
  | T_Read "byte list option"
  | T_Write "byte list pump_event"
  | T_Params "string option" json

definition t_step :: "terminal_event \<Rightarrow> terminal \<times> 'w client \<Rightarrow> terminal \<times> 'w client" where
  "t_step e tc =
     (case tc of (t, c) \<Rightarrow>
      (case e of
         T_Start pid \<Rightarrow> (snd (t_start pid t), c)
       | T_Stop kill_ok close_ok \<Rightarrow> (snd (t_stop kill_ok close_ok t), c)
       | T_Input data \<Rightarrow> (t_handle_input data t, c)
       | T_Read_Resume \<Rightarrow> (if t_reader t = Spawned then t_read_next t else t, c)
       | T_Read outcome \<Rightarrow> (if t_reader t = Reading then t_read_done outcome t c else (t, c))
       | T_Write (Enqueue _) \<Rightarrow> (t, c)
       | T_Write w \<Rightarrow> (tw.apply_event w t, c)
       | T_Params ioctl body \<Rightarrow> (snd (update_params ioctl body (new_output JNull False :: unit res_output) t), c)))"

definition t_run :: "terminal_event list \<Rightarrow> terminal \<Rightarrow> 'w client \<Rightarrow> terminal \<times> 'w client" where
  "t_run es t c = fold t_step es (t, c)"

text \<open>The keys the server sends, what the forks of the starts return, and the processes they make.\<close>

fun typed :: "terminal_event \<Rightarrow> byte list list" where
  "typed (T_Input (JBin bytes)) = (if bytes = [] then [] else [bytes])"
| "typed _ = []"

fun attempted :: "terminal_event \<Rightarrow> int list" where
  "attempted (T_Start pid) = [pid]"
| "attempted _ = []"

fun forked :: "terminal_event \<Rightarrow> int list" where
  "forked (T_Start pid) = (if pid > 0 then [pid] else [])"
| "forked _ = []"

fun forks :: "terminal_event \<Rightarrow> bool" where
  "forks (T_Start pid) = (pid > 0)"
| "forks _ = True"

lemma attempted_forked: "list_all forks es \<Longrightarrow> concat (map attempted es) = concat (map forked es)"
proof (induction es)
  case (Cons e es)
  then show ?case by (cases e) simp_all
qed simp

lemma forked_positive: "p \<in> set (concat (map forked es)) \<Longrightarrow> p > 0"
proof -
  have "p \<in> set (forked e) \<Longrightarrow> p > 0" for e by (cases e) (auto split: if_splits)
  then show "p \<in> set (concat (map forked es)) \<Longrightarrow> p > 0" by auto
qed

lemma stop_halt: "snd (t_stop kill_ok close_ok t) = t_halt t"
  by (simp add: t_halt_def t_stop_def Let_def)

text \<open>What the events that are not about writing leave to the write loop.\<close>

lemma content_frame:
  "tw.content (snd (t_start pid t)) = tw.content t" "tw.content (t_halt t) = tw.content t"
  "tw.content (t_read_next t) = tw.content t" "tw.content (fst (t_read_done outcome t c)) = tw.content t"
  "tw.content (snd (update_params ioctl body out t)) = tw.content t"
  by (auto simp: tw.content_def t_start_def t_read_next_def t_read_done_def update_params_def Let_def
      split: option.split prod.split)

lemma input_content:
  assumes "terminal_ok t"
  shows "tw.content (t_handle_input data t) = tw.content t \<or>
    tw.content (t_handle_input data t) = tw.content t @ typed (T_Input data)"
proof (cases "t_running t \<and> (\<exists>bytes. data = JBin bytes \<and> bytes \<noteq> [])")
  case True
  then obtain bytes where b: "data = JBin bytes" "bytes \<noteq> []" "t_running t" by blast
  let ?t = "t\<lparr>t_received := t_received t + of_nat (length bytes)\<rparr>"
  have "tw.pump_inv ?t" using assms by (simp add: tw.pump_inv_def terminal_ok_def)
  from tw.event_content(2) [OF this, of "Enqueue bytes"]
  have "tw.content (t_write bytes ?t) = tw.content ?t @ [bytes]" by (simp add: tw.apply_event_def)
  moreover have "tw.content ?t = tw.content t" by (simp add: tw.content_def)
  ultimately show ?thesis using b by (simp add: t_handle_input_def)
next
  case False
  then have "t_handle_input data t = t" by (auto simp: t_handle_input_def split: json.split)
  then show ?thesis by simp
qed

lemma terminal_ok_pump: "terminal_ok t \<Longrightarrow> (\<And>d. w \<noteq> Enqueue d) \<Longrightarrow> terminal_ok (tw.apply_event w t)"
  by (cases w; cases "t_pump t") (auto simp: tw.apply_event_def terminal_ok_write_next terminal_ok_write)

lemma step_ok: "terminal_ok t \<Longrightarrow> terminal_ok (fst (t_step e (t, c)))"
  by (cases e rule: terminal_event.exhaust)
    (auto simp: t_step_def terminal_ok_start stop_halt terminal_ok_halt terminal_ok_input terminal_ok_read_next
      terminal_ok_read terminal_ok_params intro!: terminal_ok_pump split: pump_event.split)

lemma step_content:
  assumes "terminal_ok t"
  shows "subseq (tw.content (fst (t_step e (t, c)))) (tw.content t @ typed e)"
proof (cases e)
  case (T_Input data)
  with input_content [OF assms, of data] show ?thesis by (auto simp: t_step_def)
next
  case (T_Write w)
  have "tw.pump_inv t" using assms by (simp add: tw.pump_inv_def terminal_ok_def)
  from tw.event_content(1) [OF this, of w] T_Write show ?thesis
    by (cases w) (auto simp: t_step_def)
qed (auto simp: t_step_def stop_halt content_frame)

text \<open>The processes signalled or alive.\<close>

definition t_processes :: "terminal \<Rightarrow> int list" where
  "t_processes t = t_hups t @ (if t_pid t \<noteq> 0 then [t_pid t] else [])"

lemma halt_processes [simp]: "t_processes (t_halt t) = t_processes t"
  by (simp add: t_processes_def t_halt_def t_stop_def Let_def)

lemma processes_cong:
  "t_hups t' = t_hups t \<Longrightarrow> t_pid t' = t_pid t \<Longrightarrow> t_processes t' = t_processes t"
  by (simp add: t_processes_def)

lemma write_processes: "t_processes (tw.apply_event w t) = t_processes t"
proof -
  have n: "t_processes (t_write_next u) = t_processes u" for u
    by (rule processes_cong) (simp_all add: t_write_next_def split: list.split)
  have f: "t_processes (u\<lparr>t_progress := False, t_pump := Idle\<rparr>) = t_processes u"
    "t_processes (u\<lparr>t_written := x\<rparr>) = t_processes u" "t_processes (t_write d u) = t_processes u" for u x d
    by (rule processes_cong; simp add: t_write_def Let_def)+
  show ?thesis
    by (simp add: tw.apply_event_def t_write_done_def n f split: pump_event.split)
qed

lemma step_processes: "subseq (t_processes (fst (t_step e (t, c)))) (t_processes t @ attempted e)"
proof -
  have r: "t_processes (t_read_next u) = t_processes u" "t_processes (u\<lparr>t_reader := x\<rparr>) = t_processes u"
    "t_processes (u\<lparr>t_sent := y\<rparr>) = t_processes u" for u x y
    by (rule processes_cong; simp add: t_read_next_def)+
  have i: "t_processes (t_handle_input data t) = t_processes t" for data
    by (rule processes_cong; simp add: t_handle_input_def t_write_def Let_def split: json.split)
  have p: "t_processes (snd (update_params ioctl body (new_output JNull False :: unit res_output) t)) = t_processes t" for ioctl body
    by (rule processes_cong; simp add: update_params_def Let_def split: option.split)
  show ?thesis
  proof (cases e)
    case (T_Start pid)
    then show ?thesis by (auto simp: t_step_def t_start_def t_processes_def)
  qed (auto simp: t_step_def stop_halt r i p t_read_done_def Let_def write_processes
      split: option.split prod.split pump_event.split)
qed

lemma run_facts:
  assumes ok: "terminal_ok t"
  shows "terminal_ok (fst (t_run es t c))"
    and "subseq (tw.content (fst (t_run es t c))) (tw.content t @ concat (map typed es))"
    and "subseq (t_processes (fst (t_run es t c))) (t_processes t @ concat (map attempted es))"
proof -
  have s: "terminal_ok (fst (t_step e s)) \<and> subseq (tw.content (fst (t_step e s))) (tw.content (fst s) @ typed e)"
    "terminal_ok (fst (t_step e s)) \<and> subseq (t_processes (fst (t_step e s))) (t_processes (fst s) @ attempted e)"
    if "terminal_ok (fst s)" for e and s :: "terminal \<times> 'a client"
  proof -
    obtain u d where "s = (u, d)" by (rule prod.exhaust)
    with that step_ok [of u e d] step_content [of u e d] step_processes [of e u d]
    show "terminal_ok (fst (t_step e s)) \<and> subseq (tw.content (fst (t_step e s))) (tw.content (fst s) @ typed e)"
      "terminal_ok (fst (t_step e s)) \<and> subseq (t_processes (fst (t_step e s))) (t_processes (fst s) @ attempted e)"
      by simp_all
  qed
  have start: "terminal_ok (fst (t, c))" using ok by simp
  show "terminal_ok (fst (t_run es t c))"
    and "subseq (tw.content (fst (t_run es t c))) (tw.content t @ concat (map typed es))"
    and "subseq (t_processes (fst (t_run es t c))) (t_processes t @ concat (map attempted es))"
    using fold_subseq [where good = "\<lambda>s. terminal_ok (fst s)" and record_of = "\<lambda>s. tw.content (fst s)"
        and part = typed and step = t_step and es = es, OF s(1) start]
      fold_subseq [where good = "\<lambda>s. terminal_ok (fst s)" and record_of = "\<lambda>s. t_processes (fst s)"
        and part = attempted and step = t_step and es = es, OF s(2) start]
    by (simp_all add: t_run_def)
qed

section \<open>Properties\<close>

text \<open>C38: Whatever happens to a terminal session whose forks do not fail, what is written to the device, in flight and queued is
  what the server typed, in order and without repetition, and what was signalled are processes of its own starts,
  each at most once and never a group of processes.\<close>

theorem terminal_in_order:
  assumes "list_all forks es"
  shows "let t = fst (t_run es (terminal_session exists sid prms) c) in
     subseq (t_written t @ in_flight (t_pump t) @ t_queue t) (concat (map typed es)) \<and>
     subseq (t_hups t) (concat (map forked es)) \<and> list_all (\<lambda>p. p > 0) (t_hups t)"
proof -
  let ?new = "terminal_session exists sid prms" and ?t = "fst (t_run es (terminal_session exists sid prms) c)"
  have "tw.content ?new = []" "t_processes ?new = []"
    by (simp_all add: tw.content_def t_processes_def terminal_session_def)
  with run_facts(2,3) [OF terminal_ok_new [of exists sid prms], of es c]
  have "subseq (tw.content ?t) (concat (map typed es))" "subseq (t_processes ?t) (concat (map forked es))"
    by (simp_all add: attempted_forked [OF assms])
  moreover have "subseq (t_hups ?t) (t_processes ?t)" by (auto simp: t_processes_def intro: prefix_imp_subseq)
  ultimately have typed: "subseq (tw.content ?t) (concat (map typed es))"
    and own: "subseq (t_hups ?t) (concat (map forked es))"
    by (blast intro: subseq_order.trans)+
  have "p > 0" if "p \<in> set (t_hups ?t)" for p
    using list_emb_set [OF own that] forked_positive [of p es] by metis
  then have "list_all (\<lambda>p. p > 0) (t_hups ?t)" by (simp add: list_all_iff)
  with typed own show ?thesis unfolding Let_def tw.content_def by blast
qed

theorem terminal_in_order_witness:
  "let t = fst (t_run [T_Start 4711, T_Input (JBin [108, 115]), T_Stop True True] (terminal_session (\<lambda>_. False) 7 JNull) (new_client ())) in
     subseq (t_hups t) [4711] \<and> list_all (\<lambda>p. p > 0) (t_hups t)"
  using terminal_in_order [of "[T_Start 4711, T_Input (JBin [108, 115]), T_Stop True True]" "\<lambda>_. False" 7 JNull "new_client ()"]
  by (simp add: Let_def)

text \<open>Stopping a running session signals its process, closes its descriptor and reports whether both worked;
  a second stop does nothing, and what the server types afterwards is dropped.\<close>

theorem terminal_stop:
  assumes "terminal_ok t" and "t_running t"
  shows "let (success, t') = t_stop kill_ok close_ok t in
     success = (kill_ok \<and> close_ok) \<and> t_hups t' = t_hups t @ [t_pid t] \<and> \<not> t_open t' \<and> t_pid t' = 0 \<and>
     t_stop k c t' = (True, t') \<and> t_handle_input data t' = t'"
  using assms by (auto simp: terminal_ok_def t_stop_def t_handle_input_def Let_def)

definition demo_terminal :: terminal where
  "demo_terminal = snd (t_start 4711 (terminal_session (\<lambda>_. False) 7 JNull))"

lemma demo_terminal_ok: "terminal_ok demo_terminal \<and> t_running demo_terminal \<and> t_pid demo_terminal = 4711"
proof -
  have "preferred_shell_name (\<lambda>_. False) \<noteq> []" by (rule shell_name_not_empty)
  then show ?thesis by (simp add: demo_terminal_def terminal_session_def t_start_def terminal_ok_def)
qed

theorem terminal_stop_witness: "t_hups (snd (t_stop True True demo_terminal)) = t_hups demo_terminal @ [4711]"
  using terminal_stop [of demo_terminal True True True True JNull] demo_terminal_ok by (auto simp: Let_def split: prod.splits)

text \<open>What the shell prints while the client is connected is queued for the server as one message of the
  session's stream with exactly those octets; a failed read or a lost connection ends the session.\<close>

theorem terminal_prints:
  assumes "t_running t" and "t_open t" and "t_reader t = Reading" and "bytes \<noteq> []"
  shows "(c_connected c \<longrightarrow> t_read_done (Some bytes) t c =
      (t\<lparr>t_sent := t_sent t + of_nat (length bytes)\<rparr>,
       send_message (set_field PAYLOAD (JBin bytes) (new_stream_message (t_stream_id t) STREAM_DATA)) c)) \<and>
    (\<not> c_connected c \<longrightarrow> \<not> t_running (fst (t_read_done (Some bytes) t c)) \<and> snd (t_read_done (Some bytes) t c) = c) \<and>
    \<not> t_running (fst (t_read_done None t c)) \<and> t_reader (fst (t_read_done None t c)) = No_Reader"
  using assms by (simp add: t_read_done_def stream_bytes_def t_read_next_def new_stream_message_def Let_def)

theorem terminal_prints_witness:
  "snd (t_read_done (Some [104]) (t_read_next demo_terminal) (new_client ()\<lparr>c_connected := True\<rparr>)) =
   send_message (set_field PAYLOAD (JBin [104]) (new_stream_message 7 STREAM_DATA)) (new_client ()\<lparr>c_connected := True\<rparr>)"
proof -
  have "t_stream_id (t_read_next demo_terminal) = 7" "t_open demo_terminal"
    using demo_terminal_ok by (simp_all add: t_read_next_def demo_terminal_def t_start_def terminal_session_def terminal_ok_def)
  with terminal_prints [of "t_read_next demo_terminal" "[104]" "new_client ()\<lparr>c_connected := True\<rparr>"] demo_terminal_ok
  show ?thesis by (simp add: t_read_next_def)
qed

text \<open>A stop request for the stream of a terminal hangs up its shell and is answered OK, and the stream
  leads to no session afterwards.\<close>

theorem terminal_stop_request:
  assumes "manager_run (terminal_ops exists) es m" and "sm_get_session sid m = Some ob"
  shows "\<exists>i. lock i m = Some ob \<and>
     lock i (sm_stream_handler (terminal_ops exists) sid path prms False h m) = Some (ob\<lparr>so_state := t_halt (so_state ob)\<rparr>) \<and>
     sm_get_session sid (sm_stream_handler (terminal_ops exists) sid path prms False h m) = None \<and>
     sm_replies (sm_stream_handler (terminal_ops exists) sid path prms False h m) = sm_replies m @ [(h, exec_bool True)]"
proof -
  from assms(2) obtain i where i: "map_of (sm_sessions m) sid = Some i" "lock i m = Some ob"
    by (auto simp: sm_get_session_def split: option.splits)
  then show ?thesis
    by (intro exI [of _ i])
      (simp add: sm_stream_handler_def sm_stop_def Let_def sm_get_session_def map_of_filter_fst terminal_ops_def
        sm_reply_def update_object_def, simp add: lock_def map_of_map_snd)
qed

lemma terminal_run:
  "manager_run (terminal_ops exists) [Stream_Request 7 JNull JNull True 1, Session_Started 0 (exec_bool True)]
     (sm_started 0 (exec_bool True) (sm_start (terminal_ops exists) 7 JNull JNull 1 new_manager))"
proof -
  have r: "manager_run (terminal_ops exists) ([] @ [Stream_Request 7 JNull JNull True 1])
      (sm_stream_handler (terminal_ops exists) 7 JNull JNull True 1 new_manager)"
    by (rule run_step [OF run_start request])
  have "0 \<in> fst ` set (sm_starting (sm_stream_handler (terminal_ops exists) 7 JNull JNull True 1 new_manager))"
    by (simp add: sm_stream_handler_def sm_start_def terminal_ops_def new_session_def new_manager_def)
  from run_step [OF r started [OF this]] show ?thesis by (simp add: sm_stream_handler_def)
qed

theorem terminal_stop_request_witness:
  "\<exists>m. sm_replies (sm_stream_handler (terminal_ops (\<lambda>_. True)) 7 JNull JNull False 2 m) =
     sm_replies m @ [(2, exec_bool True)]"
proof -
  let ?m = "sm_started 0 (exec_bool True) (sm_start (terminal_ops (\<lambda>_. True)) 7 JNull JNull 1 new_manager)"
  have "7 \<in> fst ` set (sm_sessions ?m)"
    by (simp add: sm_start_def terminal_ops_def new_session_def new_manager_def sm_started_def lock_def emplace_def
        set_on_end_listener_def sm_reply_def exec_ok_def exec_bool_def new_message_def)
  then have "sm_get_session 7 ?m \<noteq> None"
    using facts_lock [OF table_entry [OF table_ok_run [OF terminal_run]], of "\<lambda>_. True" 7]
    by (force simp: sm_get_session_def map_of_eq_None_iff split: option.split)
  with terminal_stop_request [OF terminal_run, of 7 "\<lambda>_. True"] show ?thesis by blast
qed

text \<open>
  Two corners. The size of the window is checked at 32 bits and used at 16, so a request for 65536
  columns passes the check for zero and sets zero. And a failed fork leaves -1 as the process, which a
  later stop would pass to \<open>kill\<close>; the manager forgets such a session, so that no stop reaches it.
\<close>

theorem window_size_truncated:
  "t_open t \<Longrightarrow> t_size (snd (update_params None (j_obj [(''size'', j_obj [(''cols'', JUInt 65536), (''rows'', JUInt 24)])]) out t)) =
     (0, 24)"
proof -
  have "get_num (j_obj [(''size'', j_obj [(''cols'', JUInt 65536), (''rows'', JUInt 24)])]) ''size.cols'' (0::u32) = 65536"
    "get_num (j_obj [(''size'', j_obj [(''cols'', JUInt 65536), (''rows'', JUInt 24)])]) ''size.rows'' (0::u32) = 24"
    by code_simp+
  then show "t_open t \<Longrightarrow> ?thesis" by (simp add: update_params_def)
qed

theorem failed_fork_then_stop:
  "t_terminal t \<noteq> [] \<Longrightarrow> t_pid t = 0 \<Longrightarrow> \<not> t_open t \<Longrightarrow> t_hups (t_halt (snd (t_start (- 1) t))) = t_hups t @ [- 1]"
  by (simp add: t_start_def t_halt_def t_stop_def)

end
