(* ===== verification/Target_Wire.thy ===== *)
theory Target_Wire
  imports Session_Wire Proxy Terminal Cmd_Stream
begin

text \<open>
  From the server to the target: the octets a server sends into a tunnel, to a terminal or to the standard input of a command, from
  the connection through the client, the stream manager and the session to what is written. The three sessions are
  instances of \<open>fed_session\<close>.
\<close>

section \<open>Instances\<close>

interpretation tunnel_feed: fed_session p_queue p_pump p_written p_progress "\<lambda>p. p_running p \<and> p_open p"
  p_write p_write_next p_write_done p_handle_input "\<lambda>p. p_running p \<and> p_open p"
proof unfold_locales
  fix p :: proxy_session and b :: "byte list"
  assume "p_running p \<and> p_open p" "pw.pump_inv p"
  moreover from this pw.event_inv [of p "Enqueue b"] pw.event_content(2) [of p "Enqueue b"]
  have "pw.pump_inv (p_write b p)" "pw.content (p_write b p) = pw.content p @ [b]" by (simp_all add: pw.apply_event_def)
  ultimately show "pw.pump_inv (p_handle_input (JBin b) p) \<and>
      pw.content (p_handle_input (JBin b) p) = pw.content p @ (if b = [] then [] else [b]) \<and>
      p_running (p_handle_input (JBin b) p) \<and> p_open (p_handle_input (JBin b) p)"
    by (simp add: p_handle_input_def p_write_def Let_def)
next
  fix p :: proxy_session and w :: "byte list pump_event"
  assume "p_running p \<and> p_open p" "enqueued [w] = []" "no_failure [w]"
  then show "p_running (pw.apply_event w p) \<and> p_open (pw.apply_event w p)"
    by (cases w) (auto simp: pw.apply_event_def p_write_next_def p_write_done_def split: list.split elim: no_failure.elims)
qed

interpretation terminal_feed: fed_session t_queue t_pump t_written t_progress "\<lambda>t. t_running t \<and> t_open t"
  t_write t_write_next t_write_done t_handle_input "\<lambda>t. t_running t \<and> t_open t"
proof unfold_locales
  fix t :: terminal and b :: "byte list"
  let ?t = "t\<lparr>t_received := t_received t + of_nat (length b)\<rparr>"
  assume t: "t_running t \<and> t_open t" "tw.pump_inv t"
  then have "tw.pump_inv ?t" "tw.content ?t = tw.content t" by (simp_all add: tw.pump_inv_def tw.content_def)
  with tw.event_inv [of ?t "Enqueue b"] tw.event_content(2) [of ?t "Enqueue b"]
  have "tw.pump_inv (t_write b ?t)" "tw.content (t_write b ?t) = tw.content t @ [b]" by (simp_all add: tw.apply_event_def)
  with t show "tw.pump_inv (t_handle_input (JBin b) t) \<and>
      tw.content (t_handle_input (JBin b) t) = tw.content t @ (if b = [] then [] else [b]) \<and>
      t_running (t_handle_input (JBin b) t) \<and> t_open (t_handle_input (JBin b) t)"
    by (simp add: t_handle_input_def) (simp add: t_write_def Let_def)
next
  fix t :: terminal and w :: "byte list pump_event"
  assume "t_running t \<and> t_open t" "enqueued [w] = []" "no_failure [w]"
  then show "t_running (tw.apply_event w t) \<and> t_open (tw.apply_event w t)"
    by (cases w) (auto simp: tw.apply_event_def t_write_next_def t_write_done_def split: list.split elim: no_failure.elims)
qed

interpretation command_feed: fed_session k_queue k_pump k_written k_writing k_stdin_open
  k_write k_write_next k_write_done k_handle_input "\<lambda>k. k_stdin_open k \<and> \<not> k_finished k"
proof unfold_locales
  fix k :: cmd_session and b :: "byte list"
  let ?k = "k\<lparr>k_received := k_received k + of_nat (length b)\<rparr>"
  assume k: "k_stdin_open k \<and> \<not> k_finished k" "kw.pump_inv k"
  then have "kw.pump_inv ?k" "kw.content ?k = kw.content k" by (simp_all add: kw.pump_inv_def kw.content_def)
  with kw.event_inv [of ?k "Enqueue b"] kw.event_content(2) [of ?k "Enqueue b"]
  have "kw.pump_inv (k_write b ?k)" "kw.content (k_write b ?k) = kw.content k @ [b]" by (simp_all add: kw.apply_event_def)
  with k show "kw.pump_inv (k_handle_input (JBin b) k) \<and>
      kw.content (k_handle_input (JBin b) k) = kw.content k @ (if b = [] then [] else [b]) \<and>
      k_stdin_open (k_handle_input (JBin b) k) \<and> \<not> k_finished (k_handle_input (JBin b) k)"
    by (simp add: k_handle_input_def) (simp add: k_write_def Let_def)
next
  fix k :: cmd_session and w :: "byte list pump_event"
  assume "k_stdin_open k \<and> \<not> k_finished k" "enqueued [w] = []" "no_failure [w]"
  then show "k_stdin_open (kw.apply_event w k) \<and> \<not> k_finished (kw.apply_event w k)"
    by (cases w) (auto simp: kw.apply_event_def k_write_next_def k_write_done_def split: list.split elim: no_failure.elims)
qed

section \<open>From the server to the target\<close>

text \<open>C15: From the server to the target. A stream leads to the session of a tunnel that was created for it and connected. The server
  frames octets for the stream in chunks, one after the other; the client reads that many messages, stops right
  behind them, and handles them among the writes of the tunnel, none of which fails. What the target gets is a beginning of
  these octets, and all of them once every message was handled and the writes have ended.\<close>

theorem tunnel_reaches_target:
  assumes "byte_reader rd unread invar" and "invar s" and "unread s = concat (map (\<lambda>b. encode_message (chunk_message sid b)) bs) @ rest"
    and "list_all (\<lambda>b. length b \<le> 262000) bs"
    and "leads_to sid i proxy_ops c" and "lock i (c_world c) = Some ob"
    and "proxy_create_session sid session prms = Some p0" and "so_state ob = snd (p_start None p0)"
    and "list_all loop_event_ok es"
  shows "case read_messages rd (replicate (length bs) True) s of (ms, s') \<Rightarrow>
      unread s' = rest \<and>
      (case lock i (c_world (interleaved pw.apply_event i ms es c)) of
         None \<Rightarrow> False
       | Some ob' \<Rightarrow>
           prefix (concat (p_written (so_state ob'))) (concat bs) \<and>
           (length bs \<le> count_list es None \<and> p_pump (so_state ob') = Idle \<and> p_queue (so_state ob') = [] \<longrightarrow>
             concat (p_written (so_state ob')) = concat bs))"
proof -
  have ops: "op_input proxy_ops = p_handle_input" by (simp add: proxy_ops_def)
  have start: "p_running (so_state ob) \<and> p_open (so_state ob)" "pw.pump_inv (so_state ob)" "pw.content (so_state ob) = []"
    using assms(7) by (auto simp: assms(8) p_start_def proxy_create_session_def new_proxy_session_def pw.pump_inv_def pw.content_def
        Let_def split: if_splits)
  show ?thesis by (rule tunnel_feed.octets_arrive [OF assms(1-5) ops assms(6) start assms(9)])
qed

definition tunnel_prms :: json where
  "tunnel_prms = j_obj [(''protocol'', JStr ''tcp''), (''address'', JStr ''host''), (''port'', JUInt 80)]"

definition tunnel_object :: "proxy_session session_object" where
  "tunnel_object = \<lparr>so_stream_id = 7, so_session = ''p'', so_on_end = True,
     so_state = snd (p_start None (new_proxy_session 7 ''host'' 80 False))\<rparr>"

definition tunnel_client :: "proxy_session manager client" where
  "tunnel_client =
     (new_client (new_manager\<lparr>sm_sessions := [(7, 0)], sm_objects := [(0, tunnel_object)], sm_next := 1, sm_active := 1\<rparr>))
       \<lparr>c_connected := True, c_streams := [(7, new_stream_config\<lparr>sc_resource := Some (Resource_At ''$proxy/:session'')\<rparr>)],
        c_resources := [(''$proxy/:session'', set_resource_stream_id 7 (manager_resource proxy_ops new_resource))]\<rparr>"

definition tunnel_octets :: "byte list" where
  "tunnel_octets = [10, 6, 8, 7, 0x1A, 0xA2, 1, 2, 10, 5, 8, 7, 0x1A, 0xA1, 3]"

definition tunnel_schedule :: "byte list pump_event option list" where
  "tunnel_schedule = [None, Some Resume, None, Some (Written True), Some (Written True)]"

lemma tunnel_client_stream:
  "leads_to 7 0 proxy_ops tunnel_client" "lock 0 (c_world tunnel_client) = Some tunnel_object"
  by (auto simp: leads_to_def tunnel_client_def new_client_def new_manager_def lock_def)

theorem tunnel_reaches_target_witness:
  "case read_messages mr_read [True, True] (mr_new tunnel_octets 15) of (ms, s') \<Rightarrow>
     mr_unread s' = [] \<and>
     (case lock 0 (c_world (interleaved pw.apply_event 0 ms tunnel_schedule tunnel_client)) of
        None \<Rightarrow> False
      | Some ob' \<Rightarrow> concat (p_written (so_state ob')) = [1, 2, 3])"
proof -
  let ?bs = "[[1, 2], [3]] :: byte list list"
  have enc: "concat (map (\<lambda>b. encode_message (chunk_message 7 b)) ?bs) = tunnel_octets" by code_simp
  have reader: "mr_ok (mr_new tunnel_octets 15)"
    "mr_unread (mr_new tunnel_octets 15) = concat (map (\<lambda>b. encode_message (chunk_message 7 b)) ?bs) @ []"
    unfolding enc by (simp_all add: mr_ok_def mr_unread_def mr_new_def tunnel_octets_def)
  have create: "proxy_create_session 7 [] tunnel_prms = Some (new_proxy_session 7 ''host'' 80 False)" by code_simp
  obtain s' where read: "read_messages mr_read (replicate (length ?bs) True) (mr_new tunnel_octets 15) = (map (chunk_message 7) ?bs, s')"
    by (rule chunks_read [OF mr.byte_reader_axioms reader]) simp_all
  have run: "lock 0 (c_world (interleaved pw.apply_event 0 (map (chunk_message 7) ?bs) tunnel_schedule tunnel_client)) =
      Some (tunnel_object\<lparr>so_state := fold (feed_step p_handle_input pw.apply_event) (feeds ?bs tunnel_schedule) (so_state tunnel_object)\<rparr>)"
    unfolding interleaved_feeds [where ops = proxy_ops] feed_client_run [OF tunnel_client_stream] by (simp add: proxy_ops_def)
  let ?p = "fold (feed_step p_handle_input pw.apply_event) (feeds ?bs tunnel_schedule) (so_state tunnel_object)"
  have idle: "p_pump ?p = Idle" "p_queue ?p = []" and count: "count_list tunnel_schedule None = 2"
    by (simp_all add: tunnel_schedule_def tunnel_object_def p_start_def new_proxy_session_def pw.apply_event_def p_handle_input_def
        p_write_def p_write_next_def p_write_done_def)
  have small: "list_all (\<lambda>b. length b \<le> 262000) ?bs" and schedule: "list_all loop_event_ok tunnel_schedule"
    and start: "so_state tunnel_object = snd (p_start None (new_proxy_session 7 ''host'' 80 False))"
    by (simp_all add: tunnel_schedule_def tunnel_object_def)
  note arrives = tunnel_reaches_target [OF mr.byte_reader_axioms reader small tunnel_client_stream create start schedule]
  have finish: "mr_unread s' = []" "concat (p_written ?p) = concat ?bs"
    using arrives idle count unfolding read prod.case run option.case by simp_all
  have flags: "[True, True] = replicate (length ?bs) True" by simp
  show ?thesis unfolding flags read prod.case run option.case using finish by simp
qed

text \<open>The same for the keys of a terminal that runs, and for the standard input of a command that was launched.\<close>

theorem keys_reach_terminal:
  assumes "byte_reader rd unread invar" and "invar s" and "unread s = concat (map (\<lambda>b. encode_message (chunk_message sid b)) bs) @ rest"
    and "list_all (\<lambda>b. length b \<le> 262000) bs"
    and "leads_to sid i (terminal_ops exists) c" and "lock i (c_world c) = Some ob"
    and "so_state ob = snd (t_start pid (terminal_session exists sid prms))" and "pid > 0"
    and "list_all loop_event_ok es"
  shows "case read_messages rd (replicate (length bs) True) s of (ms, s') \<Rightarrow>
      unread s' = rest \<and>
      (case lock i (c_world (interleaved tw.apply_event i ms es c)) of
         None \<Rightarrow> False
       | Some ob' \<Rightarrow>
           prefix (concat (t_written (so_state ob'))) (concat bs) \<and>
           (length bs \<le> count_list es None \<and> t_pump (so_state ob') = Idle \<and> t_queue (so_state ob') = [] \<longrightarrow>
             concat (t_written (so_state ob')) = concat bs))"
proof -
  have ops: "op_input (terminal_ops exists) = t_handle_input" by (simp add: terminal_ops_def)
  have start: "t_running (so_state ob) \<and> t_open (so_state ob)" "tw.pump_inv (so_state ob)" "tw.content (so_state ob) = []"
    using assms(8) shell_name_not_empty [of exists]
    by (simp_all add: assms(7) t_start_def terminal_session_def tw.pump_inv_def tw.content_def)
  show ?thesis by (rule terminal_feed.octets_arrive [OF assms(1-5) ops assms(6) start assms(9)])
qed

theorem input_reaches_command:
  assumes "byte_reader rd unread invar" and "invar s" and "unread s = concat (map (\<lambda>b. encode_message (chunk_message sid b)) bs) @ rest"
    and "list_all (\<lambda>b. length b \<le> 262000) bs"
    and "leads_to sid i cmd_stream_ops c" and "lock i (c_world c) = Some ob"
    and "so_state ob = launched sid session prms" and "get_string prms ''cmd'' [] \<noteq> []"
    and "list_all loop_event_ok es"
  shows "case read_messages rd (replicate (length bs) True) s of (ms, s') \<Rightarrow>
      unread s' = rest \<and>
      (case lock i (c_world (interleaved kw.apply_event i ms es c)) of
         None \<Rightarrow> False
       | Some ob' \<Rightarrow>
           prefix (concat (k_written (so_state ob'))) (concat bs) \<and>
           (length bs \<le> count_list es None \<and> k_pump (so_state ob') = Idle \<and> k_queue (so_state ob') = [] \<longrightarrow>
             concat (k_written (so_state ob')) = concat bs))"
proof -
  have ops: "op_input cmd_stream_ops = k_handle_input" by (simp add: cmd_stream_ops_def)
  have start: "k_stdin_open (so_state ob) \<and> \<not> k_finished (so_state ob)" "kw.pump_inv (so_state ob)" "kw.content (so_state ob) = []"
    using assms(8) launched_facts [OF assms(8), of sid session]
    by (simp_all add: assms(7) launched_def cmd_stream_session_def k_start_def kw.pump_inv_def kw.content_def)
  show ?thesis by (rule command_feed.octets_arrive [OF assms(1-5) ops assms(6) start assms(9)])
qed

end
