(* ===== verification/Byte_Wire.thy ===== *)
theory Byte_Wire
  imports Stream_Wire
begin

text \<open>
  Sessions that hand octets to \<open>stream_resource\<close> as they read them and look at what it returns: tunnels and terminals. Their
  steps act on the session and the client together. The locale reduces them to \<open>frame_source\<close>.
\<close>

section \<open>Steps on the session and the client\<close>

fun direct_step :: "('e \<Rightarrow> 's \<times> 'w client \<Rightarrow> 's \<times> 'w client) \<Rightarrow> 'e relay_event \<Rightarrow> 's \<times> 'w client \<Rightarrow> 's \<times> 'w client" where
  "direct_step step (Source e) sc = step e sc"
| "direct_step step Loop (s, c) = (s, pump_step Resume c)"
| "direct_step step (Wrote ok) (s, c) = (s, pump_step (Written ok) c)"
| "direct_step step (Send m) (s, c) = (s, send_message m c)"

definition direct_run ::
    "('e \<Rightarrow> 's \<times> 'w client \<Rightarrow> 's \<times> 'w client) \<Rightarrow> 'e relay_event list \<Rightarrow> 's \<times> 'w client \<Rightarrow> 's \<times> 'w client" where
  "direct_run step es sc = fold (direct_step step) es sc"

section \<open>With a record of what was sent\<close>

fun recorded_step :: "('e \<Rightarrow> 's \<Rightarrow> 's) \<Rightarrow> ('e \<Rightarrow> 's \<Rightarrow> byte list list) \<Rightarrow> 'e \<Rightarrow> 's \<times> json list \<Rightarrow> 's \<times> json list" where
  "recorded_step move sent e (s, vs) = (move e s, vs @ map JBin (sent e s))"

definition recorded_good :: "('s \<Rightarrow> bool) \<Rightarrow> stream_id \<Rightarrow> ('s \<Rightarrow> stream_id) \<Rightarrow> 's \<times> json list \<Rightarrow> bool" where
  "recorded_good good sid sid_of p \<longleftrightarrow> good (fst p) \<and> sid_of (fst p) = sid \<and> list_all frame_fits (snd p)"

text \<open>
  A session reads until it stops reading for good; while it reads, and the client is connected, it sends on its stream what it
  reads.
\<close>

locale byte_source =
  fixes step :: "'e \<Rightarrow> 's \<times> 'w client \<Rightarrow> 's \<times> 'w client"
    and move :: "'e \<Rightarrow> 's \<Rightarrow> 's"
    and sent :: "'e \<Rightarrow> 's \<Rightarrow> byte list list"
    and sid_of :: "'s \<Rightarrow> stream_id"
    and reading :: "'s \<Rightarrow> bool"
    and input_octets :: "'e \<Rightarrow> byte list"
    and good :: "'s \<Rightarrow> bool"
    and event_ok :: "'e \<Rightarrow> bool"
  assumes step_connected: "c_connected c \<Longrightarrow> step e (s, c) = (move e s, send_frames (sid_of s) (map JBin (sent e s)) c)"
    and move_sid: "sid_of (move e s) = sid_of s"
    and move_good: "good s \<Longrightarrow> event_ok e \<Longrightarrow> good (move e s)"
    and move_reading: "good s \<Longrightarrow> event_ok e \<Longrightarrow> reading (move e s) \<Longrightarrow> reading s"
    and sent_input: "good s \<Longrightarrow> event_ok e \<Longrightarrow> concat (sent e s) = (if reading s then input_octets e else [])"
    and sent_small: "event_ok e \<Longrightarrow> b \<in> set (sent e s) \<Longrightarrow> length b \<le> 262000"

sublocale byte_source < recorded: frame_source "recorded_step move sent" snd "recorded_good good sid sid_of" event_ok for sid
proof unfold_locales
  fix p :: "'s \<times> json list" and e
  obtain s vs where p: "p = (s, vs)" by (cases p)
  assume g: "recorded_good good sid sid_of p" and e: "event_ok e"
  have "list_all frame_fits (map JBin (sent e s))"
    using sent_small [OF e] by (auto simp: list_all_iff intro: octets_fit)
  with g move_good [OF _ e, of s] show "recorded_good good sid sid_of (recorded_step move sent e p)"
    by (simp add: recorded_good_def p move_sid)
  show "prefix (snd p) (snd (recorded_step move sent e p))" by (simp add: p)
next
  fix p :: "'s \<times> json list" and v
  assume "recorded_good good sid sid_of p" "v \<in> set (snd p)"
  then show "frame_fits v" by (auto simp: recorded_good_def list_all_iff)
qed

context byte_source
begin

lemma recorded_same:
  assumes "recorded.relay_ok sid sid ((s, vs), c)" and "relay_event_ok event_ok sid e"
    and "relay_step (recorded_step move sent) snd sid e ((s, vs), c) = ((s', vs'), c')"
  shows "direct_step step e (s, c) = (s', c')"
proof -
  have c: "c_connected c" "sid_of s = sid" using assms(1) by (simp_all add: recorded.relay_ok_def recorded_good_def)
  show ?thesis
  proof (cases e)
    case (Source t)
    have "step t (s, c) = (move t s, send_frames sid (map JBin (sent t s)) c)" using step_connected [OF c(1), of t s] by (simp add: c(2))
    with assms(3) Source show ?thesis by (simp add: Let_def)
  qed (use assms(3) in simp_all)
qed

lemma recorded_run:
  "recorded.relay_ok sid sid ((s, vs), c) \<Longrightarrow> list_all (relay_event_ok event_ok sid) es \<Longrightarrow>
    relay_run (recorded_step move sent) snd sid es ((s, vs), c) = ((s', vs'), c') \<Longrightarrow> direct_run step es (s, c) = (s', c')"
proof (induction es arbitrary: s vs c)
  case Nil
  then show ?case by (simp add: relay_run_def direct_run_def)
next
  case (Cons e es)
  obtain s1 vs1 c1 where one: "relay_step (recorded_step move sent) snd sid e ((s, vs), c) = ((s1, vs1), c1)"
    by (metis prod.exhaust)
  have ok: "relay_event_ok event_ok sid e" "list_all (relay_event_ok event_ok sid) es" using Cons.prems(2) by simp_all
  have "recorded.relay_ok sid sid ((s1, vs1), c1)" using recorded.relay_ok_step [OF Cons.prems(1) ok(1)] by (simp add: one)
  moreover have "relay_run (recorded_step move sent) snd sid es ((s1, vs1), c1) = ((s', vs'), c')"
    using Cons.prems(3) by (simp add: relay_run_def one)
  ultimately have "direct_run step es (s1, c1) = (s', c')" using Cons.IH ok(2) by blast
  then show ?case using recorded_same [OF Cons.prems(1) ok(1) one] by (simp add: direct_run_def)
qed

lemma recorded_octets:
  "recorded_good good sid sid_of (s, vs) \<Longrightarrow> list_all (relay_event_ok event_ok sid) es \<Longrightarrow>
    fold (recorded_step move sent) (source_events es) (s, vs) = (s', vs') \<Longrightarrow>
    \<exists>bs. vs' = vs @ map JBin bs \<and> prefix (concat bs) (concat (map input_octets (source_events es))) \<and>
      (reading s' \<longrightarrow> reading s \<and> concat bs = concat (map input_octets (source_events es)))\<and> (\<not> reading s \<longrightarrow> concat bs = [])"
proof (induction es arbitrary: s vs)
  case Nil
  then show ?case by (auto intro!: exI [of _ "[]"])
next
  case (Cons e es)
  have ok: "relay_event_ok event_ok sid e" "list_all (relay_event_ok event_ok sid) es" using Cons.prems(2) by simp_all
  show ?case
  proof (cases e)
    case (Source t)
    let ?s = "move t s"
    have t: "event_ok t" "good s" using ok(1) Cons.prems(1) by (simp_all add: Source recorded_good_def)
    have "recorded_good good sid sid_of (recorded_step move sent t (s, vs))" by (rule recorded.step_good [OF Cons.prems(1) t(1)])
    then obtain bs where bs: "vs' = (vs @ map JBin (sent t s)) @ map JBin bs"
      "prefix (concat bs) (concat (map input_octets (source_events es)))"
      "reading s' \<longrightarrow> reading ?s \<and> concat bs = concat (map input_octets (source_events es))" "\<not> reading ?s \<longrightarrow> concat bs = []"
      using Cons.IH [of ?s "vs @ map JBin (sent t s)"] ok(2) Cons.prems(3) by (auto simp: Source)
    with sent_input [OF t(2,1)] move_reading [OF t(2,1)] show ?thesis
      by (intro exI [of _ "sent t s @ bs"]) (auto simp: Source simp del: concat_eq_Nil_conv)
  qed (use Cons.IH [OF Cons.prems(1) ok(2)] Cons.prems(3) in simp_all)
qed

text \<open>What the server reads is a beginning of what the session was given to read, and all of it while the session reads.\<close>

theorem bytes_arrive:
  assumes "good s" and "fresh_connection c" and "list_all (relay_event_ok event_ok (sid_of s)) es"
    and "direct_run step es (s, c) = (s', c')"
  shows "let received = concat (map octets (server_frames (sid_of s) (server_reads (c_wire c'))));
      given = concat (map input_octets (source_events es))
    in prefix received given \<and> (reading s' \<and> drained c' \<longrightarrow> received = given)"
proof -
  let ?sid = "sid_of s" and ?p = "(s, [] :: json list)"
  have good: "recorded_good good ?sid sid_of ?p" using assms(1) by (simp add: recorded_good_def)
  obtain s1 vs c1 where run: "relay_run (recorded_step move sent) snd ?sid es (?p, c) = ((s1, vs), c1)" by (metis prod.exhaust)
  have "recorded.relay_ok ?sid ?sid (?p, c)"
    using good assms(2) by (simp add: recorded.relay_ok_def cw.pump_inv_def cw.content_def fresh_connection_def)
  from recorded_run [OF this assms(3) run] assms(4) have eq: "s1 = s'" "c1 = c'" by simp_all
  let ?read = "server_frames ?sid (server_reads (c_wire c'))"
  have arrive: "prefix ?read (map field_norm vs)" "drained c' \<longrightarrow> ?read = map field_norm vs"
    using recorded.frames_arrive [OF good _ assms(2,3) run] by (simp_all add: eq)
  have "fold (recorded_step move sent) (source_events es) ?p = (s', vs)"
    using relay_source [of "recorded_step move sent" snd ?sid es "(?p, c)"] by (simp add: run eq)
  from recorded_octets [OF good assms(3) this] obtain bs where bs: "vs = map JBin bs"
    "prefix (concat bs) (concat (map input_octets (source_events es)))"
    "reading s' \<longrightarrow> concat bs = concat (map input_octets (source_events es))" by auto
  have all: "concat (map octets (map field_norm vs)) = concat bs" by (simp add: bs(1) comp_def)
  from arrive(1) obtain zs where "map field_norm vs = ?read @ zs" by (auto elim: prefixE)
  then have "prefix (concat (map octets ?read)) (concat bs)"
    unfolding all [symmetric] by (simp only: map_append concat_append prefix_def) blast
  then have "prefix (concat (map octets ?read)) (concat (map input_octets (source_events es)))"
    using bs(2) by (rule prefix_order.trans)
  moreover have "concat (map octets ?read) = concat (map input_octets (source_events es))" if "reading s'" "drained c'"
    using that arrive(2) bs(3) all by simp
  ultimately show ?thesis by (simp add: Let_def)
qed

end

end
