(* ===== verification/Tunnel_Wire.thy ===== *)
theory Tunnel_Wire
  imports Target_Wire Byte_Wire
begin

text \<open>
  Tunnels and terminals on the wire: what the target, or the shell, sends and what the server reads of it. Both are instances of
  \<open>byte_source\<close>.
\<close>

section \<open>Tunnels\<close>

fun tunnel_sent :: "proxy_event \<Rightarrow> proxy_session \<Rightarrow> byte list list" where
  "tunnel_sent (P_Read (Some b)) p = (if p_reading p then [b] else [])"
| "tunnel_sent _ p = []"

text \<open>What the target sends.\<close>

fun from_target :: "proxy_event \<Rightarrow> byte list" where
  "from_target (P_Read (Some b)) = b"
| "from_target _ = []"

text \<open>A session is started once, and a read returns at most what the buffer holds.\<close>

fun tunnel_event_ok :: "proxy_event \<Rightarrow> bool" where
  "tunnel_event_ok (P_Start _) = False"
| "tunnel_event_ok (P_Read (Some b)) = (length b \<le> PROXY_BUFFER_SIZE)"
| "tunnel_event_ok _ = True"

definition tunnel_move :: "proxy_event \<Rightarrow> proxy_session \<Rightarrow> proxy_session" where
  "tunnel_move e p = fst (p_step e (p, connected_client))"

lemma send_one: "send_frames sid [JBin b] c = snd (stream_bytes sid b c)" "send_frames sid [] c = c"
  by (simp_all add: send_frames_def stream_json_def stream_bytes_def)

lemma connected_bytes [simp]: "c_connected c \<Longrightarrow> fst (stream_bytes sid b c)" "c_connected connected_client"
  by (simp_all add: stream_bytes_def connected_client_def)

lemma tunnel_write: "p_stream_id (pw.apply_event w p) = p_stream_id p" "p_reading (pw.apply_event w p) = p_reading p"
  by (cases w; auto simp: pw.apply_event_def p_write_def p_write_next_def p_write_done_def p_stop_def Let_def split: list.split pump.split)+

interpretation tunnels: byte_source p_step tunnel_move tunnel_sent p_stream_id p_reading from_target "\<lambda>_. True" tunnel_event_ok
proof unfold_locales
  fix p e and c :: "'w client"
  show "c_connected c \<Longrightarrow> p_step e (p, c) = (tunnel_move e p, send_frames (p_stream_id p) (map JBin (tunnel_sent e p)) c)"
    by (cases "(e, p)" rule: tunnel_sent.cases)
      (auto simp: tunnel_move_def p_step_def send_one p_read_done_def Let_def split: prod.split pump_event.split dest: arg_cong [of _ _ fst])
  show "p_stream_id (tunnel_move e p) = p_stream_id p"
    by (cases e) (auto simp: tunnel_move_def p_step_def p_start_def p_stop_def p_handle_input_def p_write_def p_read_done_def Let_def
        tunnel_write split: option.split prod.split json.split pump_event.split)
  show "tunnel_event_ok e \<Longrightarrow> p_reading (tunnel_move e p) \<Longrightarrow> p_reading p"
    by (cases e) (auto simp: tunnel_move_def p_step_def p_stop_def p_handle_input_def p_write_def Let_def
        tunnel_write split: json.splits pump_event.splits if_splits)
  show "concat (tunnel_sent e p) = (if p_reading p then from_target e else [])"
    by (cases "(e, p)" rule: tunnel_sent.cases) simp_all
  show "tunnel_event_ok e \<Longrightarrow> b \<in> set (tunnel_sent e p) \<Longrightarrow> length b \<le> 262000" for b
    by (cases "(e, p)" rule: tunnel_sent.cases) (auto simp: PROXY_BUFFER_SIZE_def split: if_splits)
qed simp_all

text \<open>C14: From the target to the server. The session of a tunnel is started by a connected client whose write loop is idle and
  has written nothing, and runs among any other messages the client sends that are no data of the stream. As long as no write
  fails, what the server reads on the stream is a beginning of what the target sends; and while the session still reads, it
  is all of it once the write loop has drained.\<close>

theorem tunnel_reaches_server:
  assumes "proxy_create_session sid session prms = Some p0" and "fresh_connection c"
    and "list_all (relay_event_ok tunnel_event_ok sid) es"
  shows "let (p, c') = direct_run p_step es (snd (p_start None p0), c);
      received = concat (map octets (server_frames sid (server_reads (c_wire c'))));
      target_sent = concat (map from_target (source_events es))
    in prefix received target_sent \<and> (p_reading p \<and> drained c' \<longrightarrow> received = target_sent)"
proof -
  obtain p c' where run: "direct_run p_step es (snd (p_start None p0), c) = (p, c')" by (rule prod.exhaust)
  have "p_stream_id (snd (p_start None p0)) = sid"
    using assms(1) by (auto simp: proxy_create_session_def new_proxy_session_def p_start_def Let_def split: if_splits)
  from tunnels.bytes_arrive [OF TrueI assms(2) _ run, unfolded this, OF assms(3)] show ?thesis by (simp add: run Let_def)
qed

definition small_tunnel :: "proxy_event relay_event list" where
  "small_tunnel =
     [Source (P_Read (Some [1, 2])), Loop, Source (P_Input (JBin [9])), Send (new_message KEEP_ALIVE), Wrote True,
      Source (P_Read (Some [3])), Wrote True, Wrote True]"

theorem tunnel_reaches_server_witness:
  "case direct_run p_step small_tunnel (snd (p_start None (new_proxy_session 7 ''host'' 80 False)), connected_client) of (p, c') \<Rightarrow>
     length (c_wire c') = 3 \<and> concat (map octets (server_frames 7 (server_reads (c_wire c')))) = [1, 2, 3]"
proof -
  let ?s = "direct_run p_step small_tunnel (snd (p_start None (new_proxy_session 7 ''host'' 80 False)), connected_client)"
  have create: "proxy_create_session 7 [] tunnel_prms = Some (new_proxy_session 7 ''host'' 80 False)" by code_simp
  have run: "case ?s of (p, c') \<Rightarrow> length (c_wire c') = 3 \<and> p_reading p \<and> drained c'" by code_simp
  have "list_all (relay_event_ok tunnel_event_ok 7) small_tunnel"
    using keep_alive_sendable [where 'a = proxy_event] by (simp add: small_tunnel_def PROXY_BUFFER_SIZE_def)
  moreover have "concat (map from_target (source_events small_tunnel)) = [1, 2, 3]" by (simp add: small_tunnel_def)
  ultimately show ?thesis
    using tunnel_reaches_server [OF create connected_fresh, of small_tunnel] run by (auto simp: Let_def split: prod.splits)
qed

section \<open>Terminals\<close>

fun terminal_sent :: "terminal_event \<Rightarrow> terminal \<Rightarrow> byte list list" where
  "terminal_sent (T_Read (Some b)) t = (if t_reader t = Reading \<and> b \<noteq> [] then [b] else [])"
| "terminal_sent _ t = []"

text \<open>What the shell prints.\<close>

fun printed :: "terminal_event \<Rightarrow> byte list" where
  "printed (T_Read (Some b)) = b"
| "printed _ = []"

fun terminal_event_ok :: "terminal_event \<Rightarrow> bool" where
  "terminal_event_ok (T_Start _) = False"
| "terminal_event_ok (T_Read (Some b)) = (length b \<le> TERMINAL_BUFFER_SIZE)"
| "terminal_event_ok _ = True"

definition terminal_move :: "terminal_event \<Rightarrow> terminal \<Rightarrow> terminal" where
  "terminal_move e t = fst (t_step e (t, connected_client))"

lemma terminal_write: "t_stream_id (tw.apply_event w t) = t_stream_id t" "t_reader (tw.apply_event w t) = t_reader t"
  by (cases w; auto simp: tw.apply_event_def t_write_def t_write_next_def t_write_done_def t_halt_def t_stop_def Let_def
      split: list.split pump.split)+

lemma update_params_frame: "t_stream_id (snd (update_params i b out t)) = t_stream_id t" "t_reader (snd (update_params i b out t)) = t_reader t"
  by (auto simp: update_params_def Let_def split: option.split)

interpretation terminal_outputs: byte_source t_step terminal_move terminal_sent t_stream_id "\<lambda>t. t_reader t = Reading"
  printed "\<lambda>t. t_reader t \<noteq> Spawned" terminal_event_ok
proof unfold_locales
  fix t e and c :: "'w client"
  show "c_connected c \<Longrightarrow> t_step e (t, c) = (terminal_move e t, send_frames (t_stream_id t) (map JBin (terminal_sent e t)) c)"
    by (cases "(e, t)" rule: terminal_sent.cases)
      (auto simp: terminal_move_def t_step_def send_one t_read_done_def Let_def split: prod.split pump_event.split dest: arg_cong [of _ _ fst])
  show "t_stream_id (terminal_move e t) = t_stream_id t"
    by (cases e) (auto simp: terminal_move_def t_step_def t_start_def t_stop_def t_handle_input_def t_write_def t_read_done_def
        t_read_next_def t_halt_def Let_def terminal_write update_params_frame split: option.split prod.split json.split pump_event.split)
  show "t_reader t \<noteq> Spawned \<Longrightarrow> terminal_event_ok e \<Longrightarrow> t_reader (terminal_move e t) \<noteq> Spawned"
    by (cases e) (auto simp: terminal_move_def t_step_def t_stop_def t_handle_input_def t_write_def t_read_done_def
        t_read_next_def t_halt_def Let_def terminal_write update_params_frame split: option.split prod.split json.split pump_event.split)
  show "t_reader t \<noteq> Spawned \<Longrightarrow> terminal_event_ok e \<Longrightarrow> t_reader (terminal_move e t) = Reading \<Longrightarrow> t_reader t = Reading"
    by (cases e) (auto simp: terminal_move_def t_step_def t_stop_def t_handle_input_def t_write_def Let_def
        terminal_write update_params_frame split: json.splits pump_event.splits if_splits)
  show "concat (terminal_sent e t) = (if t_reader t = Reading then printed e else [])"
    by (cases "(e, t)" rule: terminal_sent.cases) simp_all
  show "terminal_event_ok e \<Longrightarrow> b \<in> set (terminal_sent e t) \<Longrightarrow> length b \<le> 262000" for b
    by (cases "(e, t)" rule: terminal_sent.cases) (auto simp: TERMINAL_BUFFER_SIZE_def split: if_splits)
qed

text \<open>What the server reads is a beginning of what the shell printed, and all of it while the terminal reads on.\<close>

theorem terminal_reaches_server:
  assumes "t_reader t = Reading" and "fresh_connection c" and "list_all (relay_event_ok terminal_event_ok (t_stream_id t)) es"
  shows "let (t', c') = direct_run t_step es (t, c);
      received = concat (map octets (server_frames (t_stream_id t) (server_reads (c_wire c'))));
      shown = concat (map printed (source_events es))
    in prefix received shown \<and> (t_reader t' = Reading \<and> drained c' \<longrightarrow> received = shown)"
proof -
  obtain t' c' where run: "direct_run t_step es (t, c) = (t', c')" by (rule prod.exhaust)
  from terminal_outputs.bytes_arrive [OF _ assms(2,3) run] assms(1) show ?thesis by (simp add: run Let_def)
qed

end
