(* ===== verification/Resource_Guard.thy ===== *)
theory Resource_Guard
  imports Client_Frame
begin

text \<open>
  What the application of a client does when messages are handled: if each callback changes its state only as a
  relation allows, so does the handling of any sequence of messages. The relation is the parameter of the locale.
\<close>

text \<open>What the server sends, and continuations of handlers that the resource pool runs.\<close>

datatype client_event = Received iotmp_message | Deferred

definition client_event_step :: "client_event \<Rightarrow> 'w client \<Rightarrow> 'w client" where
  "client_event_step e c = (case e of Received m \<Rightarrow> snd (handle_message m c) | Deferred \<Rightarrow> run_deferred c)"

definition handle_events :: "client_event list \<Rightarrow> 'w client \<Rightarrow> 'w client" where
  "handle_events es c = fold client_event_step es c"

lemma send_message_parts [simp]:
  "c_world (send_message m c) = c_world c" "c_resources (send_message m c) = c_resources c"
  "c_events (send_message m c) = c_events c" "c_deferred (send_message m c) = c_deferred c"
  by (simp_all add: send_message_def queue_write_def Let_def)

locale resource_guard =
  fixes keeps :: "'w \<Rightarrow> 'w \<Rightarrow> bool"
  assumes keeps_refl: "keeps w w"
    and keeps_trans: "keeps w w' \<Longrightarrow> keeps w' w'' \<Longrightarrow> keeps w w''"
begin

definition quiet_output :: "'w res_output \<Rightarrow> bool" where
  "quiet_output out \<longleftrightarrow> (\<forall>cb. out_after out = Some cb \<longrightarrow> (\<forall>w. keeps w (cb w)))"

definition guarded :: "'w resource \<Rightarrow> bool" where
  "guarded r \<longleftrightarrow>
     (\<forall>f w. r_run r = Some f \<longrightarrow> keeps w (snd (f w))) \<and>
     (\<forall>f i w. r_input r = Some f \<longrightarrow> keeps w (snd (f i w))) \<and>
     (\<forall>f out w. r_output r = Some f \<longrightarrow> quiet_output out \<longrightarrow>
        keeps w (snd (f out w)) \<and> (\<forall>out'. fst (f out w) = Some out' \<longrightarrow> quiet_output out')) \<and>
     (\<forall>f i out w. r_input_output r = Some f \<longrightarrow> quiet_output out \<longrightarrow>
        keeps w (snd (f i out w)) \<and> (\<forall>i' out'. fst (f i out w) = Some (i', out') \<longrightarrow> quiet_output out')) \<and>
     (\<forall>f sid p q b w. r_listener r = Some f \<longrightarrow> keeps w (snd (f sid p q b w)))"

definition guarded_client :: "'w client \<Rightarrow> bool" where
  "guarded_client c \<longleftrightarrow>
     (\<forall>ref r. deref c ref = Some r \<longrightarrow> guarded r) \<and> (\<forall>cb \<in> set (c_deferred c). \<forall>w. keeps w (cb w))"

lemma guarded_id [simp]: "guarded (set_resource_stream_id i r) = guarded r"
  by (simp add: guarded_def set_resource_stream_id_def)

lemma quiet_new [simp]: "quiet_output (new_output v d)"
  by (simp add: quiet_output_def new_output_def)

lemma guarded_cong: "guarded_client c \<Longrightarrow> c_resources c' = c_resources c \<Longrightarrow> c_events c' = c_events c \<Longrightarrow>
    set (c_deferred c') \<subseteq> set (c_deferred c) \<Longrightarrow> guarded_client c'"
proof -
  assume c: "guarded_client c" "c_resources c' = c_resources c" "c_events c' = c_events c"
    "set (c_deferred c') \<subseteq> set (c_deferred c)"
  have "deref c' ref = deref c ref" for ref using c(2,3) by (cases ref) simp_all
  with c(1,4) show ?thesis by (auto simp: guarded_client_def)
qed

lemma guarded_set_deref: "guarded_client c \<Longrightarrow> guarded r \<Longrightarrow> guarded_client (set_deref ref r c)"
proof -
  assume c: "guarded_client c" "guarded r"
  have d: "deref (set_deref ref r c) ref' = deref c ref' \<or> deref (set_deref ref r c) ref' = Some r" for ref'
    by (cases ref; cases ref') (auto split: option.split)
  have "c_deferred (set_deref ref r c) = c_deferred c" by (cases ref) (simp_all split: option.split)
  with c(1) have later: "\<forall>cb \<in> set (c_deferred (set_deref ref r c)). \<forall>w. keeps w (cb w)" by (simp add: guarded_client_def)
  have "guarded s" if "deref (set_deref ref r c) ref' = Some s" for ref' s
    using d [of ref'] c that by (auto simp: guarded_client_def)
  with later show ?thesis by (simp add: guarded_client_def)
qed

lemma set_deref_world [simp]: "c_world (set_deref ref r c) = c_world c"
  by (cases ref) (simp_all split: option.split)

lemma run_resource_keeps:
  assumes "guarded r"
  shows "keeps w (snd (run_resource r m m' w))"
    and "run_resource r m m' w = (Some res, w') \<Longrightarrow> rr_after res = Some cb \<Longrightarrow> keeps v (cb v)"
proof -
  have out: "keeps w (snd (call_output r (new_output v d) w))"
    "call_output r (new_output v d) w = (Some out, w') \<Longrightarrow> quiet_output out" for v d out w w'
    using assms unfolding guarded_def call_output_def
    by (auto simp: keeps_refl split: option.splits) (metis fst_conv quiet_new)+
  have io: "keeps w (snd (call_input_output r i (new_output v d) w))"
    "call_input_output r i (new_output v d) w = (Some (i', out), w') \<Longrightarrow> quiet_output out" for i v d i' out w w'
    using assms unfolding guarded_def call_input_output_def
    by (auto simp: keeps_refl split: option.splits) (metis fst_conv quiet_new)+
  have i: "keeps w (snd (call_input r i w))" for i w
    using assms by (simp add: guarded_def call_input_def keeps_refl split: option.split)
  have u: "keeps w (snd (call_run r w))" for w
    using assms by (simp add: guarded_def call_run_def keeps_refl split: option.split)
  show "keeps w (snd (run_resource r m m' w))"
    using out(1) io(1) i u
    by (auto simp: run_resource_def keeps_refl split: io_type.split option.split prod.split) (metis snd_conv)+
  assume "run_resource r m m' w = (Some res, w')" "rr_after res = Some cb"
  then show "keeps v (cb v)"
    using out(2) io(2)
    by (auto simp: run_resource_def quiet_output_def split: io_type.splits option.splits prod.splits)
qed

lemma describe_guarded:
  assumes "guarded r"
  shows "keeps w (snd (describe r m w))"
proof -
  have "keeps w (snd (call_output r (new_output v d) w))" "keeps w (snd (call_input_output r i (new_output v d) w))"
    "keeps w (snd (call_input r i w))" for v d i
    using assms by (simp_all add: guarded_def call_output_def call_input_output_def call_input_def keeps_refl split: option.split)
  then show ?thesis
    by (auto simp: describe_def keeps_refl split: io_type.split option.split prod.split) (metis snd_conv)+
qed

text \<open>How the client changes: it stays guarded, and its application moves as allowed.\<close>

definition moves :: "'w client \<Rightarrow> 'w client \<Rightarrow> bool" where
  "moves c c' \<longleftrightarrow> guarded_client c' \<and> keeps (c_world c) (c_world c')"

lemma moves_refl: "guarded_client c \<Longrightarrow> moves c c"
  by (simp add: moves_def keeps_refl)

lemma moves_trans: "moves c c' \<Longrightarrow> moves c' c'' \<Longrightarrow> moves c c''"
  by (auto simp: moves_def intro: keeps_trans)

lemma moves_send: "moves c c' \<Longrightarrow> moves c (send_message m c')"
  by (auto simp: moves_def elim: guarded_cong)

lemma moves_world: "moves c c' \<Longrightarrow> keeps (c_world c') w \<Longrightarrow> moves c (c'\<lparr>c_world := w\<rparr>)"
  by (auto simp: moves_def elim: guarded_cong intro: keeps_trans)

lemma moves_streams: "moves c c' \<Longrightarrow> moves c (c'\<lparr>c_streams := x\<rparr>)"
  by (auto simp: moves_def elim: guarded_cong)

lemma moves_deref: "moves c c' \<Longrightarrow> guarded r \<Longrightarrow> moves c (set_deref ref r c')"
  by (simp add: moves_def guarded_set_deref)

lemma moves_deref_if: "moves c c' \<Longrightarrow> guarded r \<Longrightarrow> moves c (if b then set_deref ref r c' else c')"
  by (simp add: moves_deref)

lemma moves_defer:
  assumes "moves c c'" and "\<And>w. keeps w (cb w)"
  shows "moves c (c'\<lparr>c_deferred := c_deferred c' @ [cb]\<rparr>)"
proof -
  have "deref (c'\<lparr>c_deferred := d\<rparr>) ref = deref c' ref" for d ref by (cases ref) simp_all
  with assms show ?thesis by (auto simp: moves_def guarded_client_def)
qed

lemma stream_resource_moves:
  assumes "guarded_client c" and "guarded r"
  shows "moves c (snd (stream_resource r sid c))"
proof -
  have k: "keeps (c_world c) (snd (run_resource r (new_message STREAM_DATA) (new_message STREAM_DATA) (c_world c)))"
    by (rule run_resource_keeps(1) [OF assms(2)])
  show ?thesis
    by (cases "run_resource r (new_message STREAM_DATA) (new_message STREAM_DATA) (c_world c)")
      (use k in \<open>auto simp: stream_resource_def Let_def split: option.split intro!: moves_send moves_world moves_refl [OF assms(1)]\<close>)
qed

lemma stream_resource_moves': "moves c c' \<Longrightarrow> guarded r \<Longrightarrow> stream_resource r sid c' = (b, c'') \<Longrightarrow> moves c c''"
  using stream_resource_moves [of c' r sid] by (auto simp: moves_def intro: keeps_trans)

lemma deliver_started_moves:
  "moves c0 c \<Longrightarrow> guarded r \<Longrightarrow> moves c0 (snd (deliver_started r sid results c))"
proof (induction r sid results c rule: deliver_started.induct)
  case (2 r sid result results c)
  let ?c1 = "send_message (set_stream_id sid result) c"
  have 1: "moves c0 ?c1" by (rule moves_send [OF 2(3)])
  show ?case
  proof (cases "exec_ok result \<and> r_stream_echo r")
    case True
    obtain b c2 where s: "stream_resource r sid ?c1 = (b, c2)" by (rule prod.exhaust)
    have "moves c0 c2" by (rule stream_resource_moves' [OF 1 2(4) s])
    with 2(1) [OF refl True s [symmetric] _ _ 2(4)] True s show ?thesis by (cases b) (auto simp: Let_def)
  next
    case False
    with 2(2) [OF refl False 1 2(4)] show ?thesis by (auto simp: Let_def)
  qed
qed simp

lemma fold_send_moves: "moves c0 c \<Longrightarrow> moves c0 (fold (\<lambda>result. send_message (set_stream_id sid result)) results c)"
  by (induction results arbitrary: c) (auto intro: moves_send)

lemma listener_keeps: "guarded r \<Longrightarrow> keeps w (snd (handle_stream r sid p q b w))"
  by (auto simp: handle_stream_def guarded_def keeps_refl split: option.split)

lemma handle_run_moves:
  assumes "guarded_client c" and "guarded r"
  shows "moves c (snd (handle_run r m c))"
proof -
  let ?m = "new_stream_message (get_stream_id m) OK"
  obtain res w where run: "run_resource r m ?m (c_world c) = (res, w)" by (rule prod.exhaust)
  with run_resource_keeps(1) [OF assms(2), of "c_world c" m ?m] have k: "keeps (c_world c) w" by simp
  note world = moves_world [OF moves_refl [OF assms(1)] k]
  show ?thesis
  proof (cases res)
    case None
    with run world show ?thesis by (simp add: handle_run_def)
  next
    case (Some x)
    have sent: "moves c (send_message m' (c\<lparr>c_world := w\<rparr>))" for m' by (rule moves_send [OF world])
    have "keeps v (cb v)" if "rr_after x = Some cb" for cb v
      using run_resource_keeps(2) [OF assms(2) _ that] run Some by blast
    with sent run Some show ?thesis
      by (auto simp: handle_run_def Let_def split: option.split intro!: moves_defer simp del: send_message_parts)
  qed
qed

lemma handle_describe_moves:
  assumes "guarded_client c" and "guarded r"
  shows "moves c (snd (handle_describe r m c))"
proof -
  let ?m = "new_stream_message (get_stream_id m) OK"
  obtain res w where d: "describe r ?m (c_world c) = (res, w)" by (rule prod.exhaust)
  with describe_guarded [OF assms(2), of "c_world c" ?m] have "keeps (c_world c) w" by simp
  note world = moves_world [OF moves_refl [OF assms(1)] this]
  from d world moves_send [OF world] show ?thesis by (cases res) (simp_all add: handle_describe_def)
qed

lemma handle_stream_data_moves:
  assumes "guarded_client c" and "guarded r"
  shows "moves c (snd (handle_stream_data r m c))"
proof -
  let ?m = "new_stream_message (get_stream_id m) STREAM_DATA"
  obtain res w where run: "run_resource r m ?m (c_world c) = (res, w)" by (rule prod.exhaust)
  with run_resource_keeps(1) [OF assms(2), of "c_world c" m ?m] have "keeps (c_world c) w" by simp
  note world = moves_world [OF moves_refl [OF assms(1)] this]
  obtain b c1 where s: "stream_resource r (get_stream_id m) (c\<lparr>c_world := w\<rparr>) = (b, c1)" by (rule prod.exhaust)
  have "moves c c1" by (rule stream_resource_moves' [OF world assms(2) s])
  with run s world show ?thesis by (cases res; cases b) (auto simp: handle_stream_data_def)
qed

lemma handle_stop_stream_moves:
  assumes "guarded_client c" and "guarded r"
  shows "moves c (snd (handle_stop_stream ref r m c))"
proof -
  let ?r1 = "if r_stream_id r = get_stream_id m then set_resource_stream_id 0 r else r"
  let ?c1 = "if r_stream_id r = get_stream_id m then set_deref ref ?r1 c else c"
  have r1: "guarded ?r1" using assms(2) by simp
  have c1: "moves c ?c1" by (rule moves_deref_if [OF moves_refl [OF assms(1)] r1])
  let ?c2 = "?c1\<lparr>c_streams := sm_del (get_stream_id m) (c_streams ?c1)\<rparr>"
  have c2: "moves c ?c2" by (rule moves_streams [OF c1])
  obtain rs w where h: "handle_stream ?r1 (get_stream_id m) (const_field PARAMETERS m) JNull False (c_world ?c2) = (rs, w)"
    by (rule prod.exhaust)
  with listener_keeps [OF r1, of "c_world ?c2" "get_stream_id m" "const_field PARAMETERS m" JNull False]
  have "keeps (c_world ?c2) w" by simp
  note world = moves_world [OF c2 this]
  show ?thesis
    unfolding handle_stop_stream_def Let_def
    using h world fold_send_moves [OF world] moves_send [OF c2]
    by (cases "has_stream_handler ?r1"; cases rs) (simp_all only: if_True if_False option.case prod.case snd_conv)
qed

lemma handle_start_stream_moves:
  assumes "guarded_client c" and "guarded r"
  shows "moves c (snd (handle_start_stream ref r m c))"
proof -
  let ?sid = "get_stream_id m"
  let ?interval = "get_num (const_field PARAMETERS m) ''interval'' 0 :: u32"
  let ?cfg = "case map_of (c_streams c) ?sid of Some cfg \<Rightarrow> cfg | None \<Rightarrow> new_stream_config"
  let ?c1 = "c\<lparr>c_streams := sm_put ?sid (?cfg\<lparr>sc_resource := Some ref, sc_interval := ?interval\<rparr>) (c_streams c)\<rparr>"
  let ?r1 = "if ?interval = 0 then set_resource_stream_id ?sid r else r"
  let ?c2 = "if ?interval = 0 then set_deref ref ?r1 ?c1 else ?c1"
  have r1: "guarded ?r1" using assms(2) by simp
  have c1: "moves c ?c1" by (rule moves_streams [OF moves_refl [OF assms(1)]])
  have c2: "moves c ?c2" by (rule moves_deref_if [OF c1 r1])
  obtain rs w where h: "handle_stream ?r1 ?sid (const_field 0 m) (const_field PARAMETERS m) True (c_world ?c2) = (rs, w)"
    by (rule prod.exhaust)
  with listener_keeps [OF r1, of "c_world ?c2" ?sid "const_field 0 m" "const_field PARAMETERS m" True]
  have "keeps (c_world ?c2) w" by simp
  note world = moves_world [OF c2 this]
  let ?c3 = "send_message (new_stream_message ?sid OK) ?c2"
  have c3: "moves c ?c3" by (rule moves_send [OF c2])
  obtain b c4 where s: "stream_resource ?r1 ?sid ?c3 = (b, c4)" by (rule prod.exhaust)
  have c4: "moves c c4" by (rule stream_resource_moves' [OF c3 r1 s])
  show ?thesis
    unfolding handle_start_stream_def Let_def
    using h s world deliver_started_moves [OF world r1] c3 c4
    by (cases "has_stream_handler ?r1"; cases rs; cases b; cases "r_stream_echo ?r1")
      (simp_all only: if_True if_False option.case prod.case snd_conv)
qed

lemma handle_message_moves: "guarded_client c \<Longrightarrow> moves c (snd (handle_message m c))"
proof -
  assume c: "guarded_client c"
  have u: "moves c (snd (handle_unresolved m' c))" for m'
    by (auto simp: handle_unresolved_def split: option.split intro!: moves_send moves_refl [OF c])
  have "moves c (snd (handle_resource_request m c))"
  proof (cases "find_resource c m")
    case None
    with moves_refl [OF c] show ?thesis by (simp add: handle_resource_request_def)
  next
    case (Some found)
    obtain ref m' where f: "found = (ref, m')" by (rule prod.exhaust)
    show ?thesis
    proof (cases ref)
      case None
      with Some f u show ?thesis by (simp add: handle_resource_request_def)
    next
      case (Some r)
      show ?thesis
      proof (cases "deref c r")
        case None
        with Some \<open>find_resource c m = Some found\<close> f moves_refl [OF c] show ?thesis by (simp add: handle_resource_request_def)
      next
        case (Some res)
        with c have g: "guarded res" by (simp add: guarded_client_def)
        from Some \<open>ref = Some r\<close> \<open>find_resource c m = Some found\<close> f show ?thesis
          by (cases "msg_type m'") (simp_all add: handle_resource_request_def moves_refl c g handle_run_moves
              handle_describe_moves handle_start_stream_moves handle_stop_stream_moves handle_stream_data_moves)
      qed
    qed
  qed
  with moves_refl [OF c] show ?thesis by (simp add: handle_message_def)
qed

lemma run_deferred_moves:
  assumes "guarded_client c"
  shows "moves c (run_deferred c)"
proof (cases "c_deferred c")
  case Nil
  with moves_refl [OF assms] show ?thesis by (simp add: run_deferred_def)
next
  case (Cons cb cbs)
  have d: "deref (c\<lparr>c_deferred := cbs, c_world := w\<rparr>) ref = deref c ref" for w ref by (cases ref) simp_all
  with Cons assms show ?thesis by (auto simp: run_deferred_def moves_def guarded_client_def)
qed

lemma handle_events_moves: "guarded_client c \<Longrightarrow> moves c (handle_events es c)"
  unfolding handle_events_def
proof (induction es arbitrary: c)
  case (Cons e es)
  have "moves c (client_event_step e c)"
    by (cases e) (simp_all add: client_event_step_def handle_message_moves run_deferred_moves Cons.prems)
  with Cons.IH [of "client_event_step e c"] moves_trans show ?case by (auto simp: moves_def intro: keeps_trans)
qed (simp add: moves_refl)

end

end
