(* ===== verification/Agent.thy ===== *)
theory Agent
  imports Resource_Guard Filesystem_Correct Shell_Env
begin

text \<open>
  The agent of \<^verbatim>\<open>main.cpp\<close>: its options, the client it configures, and the resources its extensions register. The
  requests of the file system extension are those of its theory, over the disk; the callbacks of the other extensions
  are parameters here, a record.
\<close>

section \<open>Options\<close>

record options =
  opt_help :: bool
  opt_username :: string
  opt_device :: string
  opt_password :: string
  opt_host :: string
  opt_transport :: string
  opt_fs_path :: string

definition default_options :: options where
  "default_options = \<lparr>opt_help = False, opt_username = [], opt_device = [], opt_password = [],
     opt_host = ''iot.thinger.io'', opt_transport = ''ssl'', opt_fs_path = []\<rparr>"

definition transport_of :: "string \<Rightarrow> transport_type option" where
  "transport_of name =
     (if name = ''ws'' \<or> name = ''websocket'' then Some WEBSOCKET
      else if name = ''tcp'' then Some TCP
      else if name \<noteq> ''ssl'' then None
      else Some SSL)"

section \<open>Resources\<close>

record 'w extensions =
  x_input :: "string \<Rightarrow> 'w in_cb"
  x_stream :: "string \<Rightarrow> 'w stream_cb"
  x_params :: "'w in_out_cb"
  x_cmd :: "'w in_out_cb"

definition register :: "string \<Rightarrow> ('w resource \<Rightarrow> 'w resource) \<Rightarrow> 'w client \<Rightarrow> 'w client" where
  "register path f c = (let (r, c1) = client_index path c in put_resource path (f r) c1)"

text \<open>The constructor of a stream manager.\<close>

definition manager_setup :: "'w extensions \<Rightarrow> string \<Rightarrow> 'w client \<Rightarrow> 'w client" where
  "manager_setup x path =
     register path (\<lambda>r. set_stream_handler (x_stream x path) (set_stream_echo False (set_input (x_input x path) r)))"

definition terminal_setup :: "'w extensions \<Rightarrow> 'w client \<Rightarrow> 'w client" where
  "terminal_setup x c =
     register ''$terminal/:session/params'' (set_input_output (x_params x)) (manager_setup x ''$terminal/:session'' c)"

definition fs_requests :: "'f fs_ops \<Rightarrow> string \<Rightarrow> (string \<times> 'f in_out_cb) list" where
  "fs_requests ops base =
     [(''$fs/get/*path'', handle_get ops base), (''$fs/info/*path'', handle_info ops base),
      (''$fs/put/*path'', handle_put ops base), (''$fs/delete/*path'', handle_delete ops base),
      (''$fs/move/*source'', handle_move ops base), (''$fs/hash/*path'', handle_hash ops base)]"

definition register_requests :: "(string \<times> 'w in_out_cb) list \<Rightarrow> 'w client \<Rightarrow> 'w client" where
  "register_requests rs c = fold (\<lambda>(path, h). register path (set_input_output h)) rs c"

definition filesystem_setup :: "'f fs_ops \<Rightarrow> string \<Rightarrow> 'f extensions \<Rightarrow> 'f client \<Rightarrow> 'f client" where
  "filesystem_setup ops base x c =
     manager_setup x ''$fs/upload/:session'' (manager_setup x ''$fs/download/:session''
       (register_requests (fs_requests ops base) c))"

definition version_output :: "nat \<Rightarrow> nat \<Rightarrow> nat \<Rightarrow> 'w out_cb" where
  "version_output major minor patch out w =
     (put_out [(''major'', JInt (of_nat major)), (''minor'', JInt (of_nat minor)), (''patch'', JInt (of_nat patch)),
        (''version'', JStr (decimal major @ ''.'' @ decimal minor @ ''.'' @ decimal patch))] out, w)"

text \<open>The extensions are constructed in this order.\<close>

definition install_extensions :: "'f fs_ops \<Rightarrow> nat \<times> nat \<times> nat \<Rightarrow> string \<Rightarrow> 'f extensions \<Rightarrow> 'f client \<Rightarrow> 'f client" where
  "install_extensions ops ver base x c =
     (let (major, minor, patch) = ver in
      manager_setup x ''$cmd/:session'' (register ''cmd'' (set_input_output (x_cmd x))
        (register ''version'' (set_output (version_output major minor patch))
          (manager_setup x ''$proxy/:session'' (filesystem_setup ops base x (terminal_setup x c))))))"

definition fs_base :: "'f fs_ops \<Rightarrow> options \<Rightarrow> 'f \<Rightarrow> string" where
  "fs_base ops opts f = (if opt_fs_path opts = [] then f_current_path ops f else opt_fs_path opts)"

definition configured :: "options \<Rightarrow> transport_type \<Rightarrow> 'f \<Rightarrow> 'f client" where
  "configured opts t f =
     set_transport t (set_host (opt_host opts)
       (set_credentials (opt_username opts) (opt_device opts) (opt_password opts) (new_client f)))"

text \<open>
  \<open>main\<close> up to the start of the client: an exit code, or the client. The version is that of the build.
\<close>

definition agent_main :: "'f fs_ops \<Rightarrow> nat \<times> nat \<times> nat \<Rightarrow> 'f extensions \<Rightarrow> options \<Rightarrow> 'f \<Rightarrow> int + 'f client" where
  "agent_main ops ver x opts f =
     (if opt_help opts then Inl 0
      else if opt_username opts = [] \<or> opt_device opts = [] \<or> opt_password opts = [] then Inl 1
      else case transport_of (opt_transport opts) of
        None \<Rightarrow> Inl 1
      | Some t \<Rightarrow> Inr (install_extensions ops ver (fs_base ops opts f) x (configured opts t f)))"

section \<open>What registering changes\<close>

lemma register_fields [simp]:
  "c_username (register p f c) = c_username c" "c_device_id (register p f c) = c_device_id c"
  "c_device_password (register p f c) = c_device_password c" "c_host (register p f c) = c_host c"
  "c_transport (register p f c) = c_transport c" "c_port (register p f c) = c_port c"
  "c_world (register p f c) = c_world c" "c_events (register p f c) = c_events c" "c_deferred (register p f c) = c_deferred c"
  "c_running (register p f c) = c_running c" "c_wire (register p f c) = c_wire c"
  by (simp_all add: register_def client_index_def put_resource_def split: option.split)

lemma register_resources:
  "c_resources (register p f c) = sm_put p (f (case map_of (c_resources c) p of Some r \<Rightarrow> r | None \<Rightarrow> new_resource)) (c_resources c)"
proof -
  have "sm_put p r (sm_put p r' xs) = sm_put p r xs" for r r' :: "'a resource" and xs
    by (induction xs) auto
  then show ?thesis by (simp add: register_def client_index_def put_resource_def split: option.split)
qed

text \<open>The paths, whatever the callbacks.\<close>

definition paths :: "'w client \<Rightarrow> (string \<times> unit) list" where
  "paths c = map (\<lambda>(p, _). (p, ())) (c_resources c)"

lemma paths_register: "paths (register p f c) = sm_put p () (paths c)"
proof -
  have "map (\<lambda>(p, _). (p, ())) (sm_put p r xs) = sm_put p () (map (\<lambda>(p, _). (p, ())) xs)" for r :: "'a resource" and xs
    by (induction xs) auto
  then show ?thesis by (simp add: paths_def register_resources)
qed

lemma get_resource_paths: "get_resource (c_resources c) req pm = get_resource (paths c) req pm"
proof -
  have "get_resource rs req pm = get_resource (map (\<lambda>(p, _). (p, ())) rs) req pm" for rs :: "(string \<times> 'a resource) list"
    by (induction rs req pm rule: get_resource.induct) (auto split: option.split bool.split)
  then show ?thesis by (simp add: paths_def)
qed

definition agent_paths :: "string list" where
  "agent_paths =
    [''$cmd/:session'', ''$fs/delete/*path'', ''$fs/download/:session'', ''$fs/get/*path'', ''$fs/hash/*path'',
     ''$fs/info/*path'', ''$fs/move/*source'', ''$fs/put/*path'', ''$fs/upload/:session'', ''$proxy/:session'',
     ''$terminal/:session'', ''$terminal/:session/params'', ''cmd'', ''version'']"

lemma agent_paths_order:
  "fold (\<lambda>p. sm_put p ())
     [''$terminal/:session'', ''$terminal/:session/params'', ''$fs/get/*path'', ''$fs/info/*path'', ''$fs/put/*path'',
      ''$fs/delete/*path'', ''$fs/move/*source'', ''$fs/hash/*path'', ''$fs/download/:session'', ''$fs/upload/:session'',
      ''$proxy/:session'', ''version'', ''cmd'', ''$cmd/:session''] [] = map (\<lambda>p. (p, ())) agent_paths"
  by code_simp

lemma agent_main_client:
  assumes "agent_main ops ver x opts f = Inr c"
  obtains t where "transport_of (opt_transport opts) = Some t"
    and "c = install_extensions ops ver (fs_base ops opts f) x (configured opts t f)"
  using assms by (auto simp: agent_main_def split: if_splits option.splits)

lemma configured_resources [simp]: "c_resources (configured opts t f) = []"
  by (simp add: configured_def set_transport_def set_host_def set_credentials_def new_client_def)

lemmas setup_defs = manager_setup_def filesystem_setup_def terminal_setup_def register_requests_def fs_requests_def

lemma agent_client:
  assumes "agent_main ops ver x opts f = Inr c"
  shows "paths c = map (\<lambda>p. (p, ())) agent_paths"
proof -
  from assms obtain t where c: "c = install_extensions ops ver (fs_base ops opts f) x (configured opts t f)"
    by (rule agent_main_client)
  have "paths (configured opts t f) = []" by (simp add: paths_def)
  then show ?thesis
    unfolding agent_paths_order [symmetric]
    by (simp add: c install_extensions_def setup_defs paths_register split: prod.split del: sm_put.simps)
qed

section \<open>Continuations of the handlers\<close>

text \<open>The file handlers leave the continuation of their result as it was.\<close>

definition after_kept :: "'v res_output \<Rightarrow> ('v, 'f) handled \<Rightarrow> bool" where
  "after_kept out r \<longleftrightarrow> (\<forall>i' out'. fst r = Some (i', out') \<longrightarrow> out_after out' = out_after out)"

lemma put_out_after:
  fixes out :: "'v res_output"
  shows "put_out kvs out = Some out' \<Longrightarrow> out_after out' = out_after out"
proof -
  have none: "fold (\<lambda>(k, v) acc. Option.bind acc (output_put k v)) kvs (None :: 'v res_output option) = None" for kvs
    by (induction kvs) auto
  show "put_out kvs out = Some out' \<Longrightarrow> out_after out' = out_after out"
  proof (induction kvs arbitrary: out)
    case (Cons kv kvs)
    obtain k v where kv: "kv = (k, v)" by (cases kv)
    show ?case
    proof (cases "output_put k v out")
      case None
      with Cons.prems kv none show ?thesis by (simp add: put_out_def)
    next
      case (Some o1)
      with Cons.prems kv have "put_out kvs o1 = Some out'" by (simp add: put_out_def)
      moreover from Some have "out_after o1 = out_after out" by (auto simp: output_put_def)
      ultimately show ?thesis using Cons.IH by simp
    qed
  qed (simp add: put_out_def)
qed

lemma after_finish: "(\<And>out'. x = Some out' \<Longrightarrow> out_after out' = out_after out) \<Longrightarrow> after_kept out (finish i x f)"
  by (auto simp: after_kept_def finish_def)

lemma set_error_after:
  "set_error m out = Some out' \<Longrightarrow> out_after out' = out_after out"
  "set_error_code n m out = Some out' \<Longrightarrow> out_after out' = out_after out"
  by (auto simp: set_error_def set_error_code_def)

lemma after_simps [simp]:
  "after_kept out (finish i (put_out kvs out) f)" "after_kept out (finish i (set_error m out) f)"
  "after_kept out (finish i (set_error_code n m out) f)"
  "after_kept out (finish i (set_error m (out\<lparr>out_data := v\<rparr>)) f)" "after_kept out (finish i (Some (out\<lparr>out_data := v\<rparr>)) f)"
  "after_kept out (finish i (Option.bind (set_error_code n m out) (put_out kvs)) f)" "after_kept out (None, f)"
  by (auto intro!: after_finish dest!: put_out_after set_error_after simp: Option.bind_eq_Some_conv) (simp add: after_kept_def)

lemma after_with_path: "(\<And>i p. after_kept out (k i p)) \<Longrightarrow> after_kept out (with_path ops base name check i out f k)"
proof -
  assume k: "\<And>i p. after_kept out (k i p)"
  have "out_after o1 = out_after out" if "resolve_and_validate_path ops base f name check i out = Some (i1, Inl o1)" for i1 o1
    using that by (auto simp: resolve_and_validate_path_def Let_def Option.bind_eq_Some_conv dest!: set_error_after split: if_splits)
  with k show ?thesis by (auto simp: with_path_def split: option.split sum.split intro!: after_finish)
qed

lemma after_describe: "after_kept out (describe_with ins outs i out f)"
  by (simp add: describe_with_def split: option.split)

lemma list_after: "after_kept out (handle_list ops base i out f)"
  by (auto simp: handle_list_def Let_def intro!: after_with_path split: sum.split)

lemma download_after: "after_kept out (handle_download ops base i out f)"
  by (auto simp: handle_download_def intro!: after_with_path split: sum.split open_result.split)

lemma info_after: "after_kept out (handle_info ops base i out f)"
  unfolding handle_info_def
  by (simp only: after_describe if_split) (auto intro!: after_with_path split: sum.split)

lemma hash_after: "after_kept out (handle_hash ops base i out f)"
proof (cases "in_describe i")
  case False
  show ?thesis
    unfolding handle_hash_def if_not_P [OF False] Let_def
    by (rule after_with_path, rename_tac i p, case_tac "f_status ops f p"; case_tac "f_open ops f p")
      (simp_all split: prod.split digest_result.split)
qed (simp add: handle_hash_def after_describe)

lemma get_after: "after_kept out (handle_get ops base i out f)"
  by (auto simp: handle_get_def list_after download_after intro!: after_with_path split: option.split sum.split)

lemma put_parts_after: "after_kept out (put_file ops p data i out f)" "after_kept out (put_directory ops p i out f)"
  by (auto simp: put_file_def put_directory_def split: prod.split option.split write_result.split)

lemma put_after: "after_kept out (handle_put ops base i out f)"
  by (auto simp: handle_put_def Let_def after_describe put_parts_after intro!: after_with_path split: option.split)

lemma delete_after: "after_kept out (handle_delete ops base i out f)"
  by (auto simp: handle_delete_def Let_def after_describe intro!: after_with_path split: option.split prod.split)

lemma move_after: "after_kept out (handle_move ops base i out f)"
  by (auto simp: handle_move_def Let_def after_describe intro!: after_with_path split: option.split prod.split bool.split)

section \<open>What requests do to the disk\<close>

inductive disk_change :: "'f fs_ops \<Rightarrow> string \<Rightarrow> 'f \<Rightarrow> 'f \<Rightarrow> bool" for ops base where
  removed: "validated ops base f p \<Longrightarrow> \<not> path_eq p base \<Longrightarrow> disk_change ops base f (snd (f_remove ops p f))"
| removed_all: "validated ops base f p \<Longrightarrow> \<not> path_eq p base \<Longrightarrow> disk_change ops base f (snd (f_remove_all ops p f))"
| renamed: "validated ops base f p \<Longrightarrow> validated ops base f q \<Longrightarrow> disk_change ops base f (snd (f_rename ops p q f))"
| put: "validated ops base f p \<Longrightarrow> put_result ops f p f' \<Longrightarrow> disk_change ops base f f'"

interpretation disk: resource_guard "(disk_change ops base)\<^sup>*\<^sup>*" for ops base
  by unfold_locales auto

lemma one_change: "disk_change ops base f f' \<Longrightarrow> (disk_change ops base)\<^sup>*\<^sup>* f f'"
  by (rule r_into_rtranclp)

lemma handlers_confined:
  assumes "(path, h) \<in> set (fs_requests ops base)"
  shows "(disk_change ops base)\<^sup>*\<^sup>* f (snd (h i out f))"
proof -
  have d: "(disk_change ops base)\<^sup>*\<^sup>* f (snd (handle_delete ops base i out f))"
    using delete_changes [of ops base i out f] by (auto intro: one_change [OF removed] one_change [OF removed_all])
  have m: "(disk_change ops base)\<^sup>*\<^sup>* f (snd (handle_move ops base i out f))"
    using move_changes [of ops base i out f] by (auto intro: one_change [OF renamed])
  have p: "(disk_change ops base)\<^sup>*\<^sup>* f (snd (handle_put ops base i out f))"
    using put_changes [of ops base i out f] by (auto intro: one_change [OF put])
  from assms d m p show ?thesis by (auto simp: fs_requests_def get_keeps info_keeps hash_keeps)
qed

lemma handlers_quiet:
  assumes "(path, h) \<in> set (fs_requests ops base)" and "disk.quiet_output ops base out" and "fst (h i out f) = Some (i', out')"
  shows "disk.quiet_output ops base out'"
proof -
  have "after_kept out (h i out f)"
    using assms(1) get_after info_after put_after delete_after move_after hash_after unfolding fs_requests_def by auto
  with assms(2,3) show ?thesis by (simp add: after_kept_def disk.quiet_output_def)
qed

lemma request_guarded:
  assumes "(path, h) \<in> set (fs_requests ops base)"
  shows "disk.guarded ops base (set_input_output h new_resource)"
  using handlers_confined [OF assms] handlers_quiet [OF assms]
  by (auto simp: disk.guarded_def set_input_output_def new_resource_def)

lemma deref_register: "deref (register p g c) ref =
    (if ref = Resource_At p then Some (g (case map_of (c_resources c) p of Some r \<Rightarrow> r | None \<Rightarrow> new_resource)) else deref c ref)"
  by (cases ref) (auto simp: register_resources)

lemma requests_guarded:
  assumes "set rs \<subseteq> set (fs_requests ops base)" and "disk.guarded_client ops base c" and "distinct (map fst rs)"
    and "\<forall>(p, h) \<in> set rs. map_of (c_resources c) p = None"
  shows "disk.guarded_client ops base (register_requests rs c)"
  using assms
proof (induction rs arbitrary: c)
  case (Cons r rs)
  obtain p h where r: "r = (p, h)" by (cases r)
  let ?c = "register p (set_input_output h) c"
  have "disk.guarded ops base (set_input_output h new_resource)" using Cons.prems(1) r by (auto intro: request_guarded)
  with Cons.prems(2,4) r have "disk.guarded_client ops base ?c"
    by (auto simp: disk.guarded_client_def deref_register)
  moreover have "\<forall>(q, h) \<in> set rs. map_of (c_resources ?c) q = None"
    using Cons.prems(3,4) r by (force simp: register_resources)
  ultimately show ?case using Cons r by (simp add: register_requests_def)
qed (simp add: register_requests_def)

section \<open>Routes\<close>

lemma session_name: "slash \<notin> set s \<Longrightarrow> takeWhile (\<lambda>d. d \<noteq> slash) s = s \<and> dropWhile (\<lambda>d. d \<noteq> slash) s = []"
  by (induction s) auto

lemmas route_simps = get_resource_paths agent_paths_def matches.simps(2) session_name j_obj_def

lemma file_routes:
  assumes "agent_main ops ver x opts f = Inr c"
  shows "get_resource (c_resources c) (''$fs/get/'' @ p) JNull = Some (Some ''$fs/get/*path'', j_obj [(''path'', JStr p)])"
    "get_resource (c_resources c) (''$fs/info/'' @ p) JNull = Some (Some ''$fs/info/*path'', j_obj [(''path'', JStr p)])"
    "get_resource (c_resources c) (''$fs/hash/'' @ p) JNull = Some (Some ''$fs/hash/*path'', j_obj [(''path'', JStr p)])"
    "get_resource (c_resources c) (''$fs/put/'' @ p) JNull = Some (Some ''$fs/put/*path'', j_obj [(''path'', JStr p)])"
    "get_resource (c_resources c) (''$fs/delete/'' @ p) JNull = Some (Some ''$fs/delete/*path'', j_obj [(''path'', JStr p)])"
    "get_resource (c_resources c) (''$fs/move/'' @ p) JNull = Some (Some ''$fs/move/*source'', j_obj [(''source'', JStr p)])"
  by (simp_all add: route_simps agent_client [OF assms])

lemma session_routes:
  assumes "agent_main ops ver x opts f = Inr c" and "slash \<notin> set s"
  shows "get_resource (c_resources c) (''$cmd/'' @ s) JNull = Some (Some ''$cmd/:session'', j_obj [(''session'', JStr s)])"
    "get_resource (c_resources c) (''$fs/download/'' @ s) JNull = Some (Some ''$fs/download/:session'', j_obj [(''session'', JStr s)])"
    "get_resource (c_resources c) (''$fs/upload/'' @ s) JNull = Some (Some ''$fs/upload/:session'', j_obj [(''session'', JStr s)])"
    "get_resource (c_resources c) (''$proxy/'' @ s) JNull = Some (Some ''$proxy/:session'', j_obj [(''session'', JStr s)])"
    "get_resource (c_resources c) (''$terminal/'' @ s) JNull = Some (Some ''$terminal/:session'', j_obj [(''session'', JStr s)])"
  by (simp_all add: route_simps agent_client [OF assms(1)] assms(2))

lemma params_route:
  assumes "agent_main ops ver x opts f = Inr c" and "slash \<notin> set s"
  shows "get_resource (c_resources c) (''$terminal/'' @ s @ ''/params'') JNull =
    Some (Some ''$terminal/:session/params'', j_obj [(''session'', JStr s)])"
proof -
  have s: "takeWhile (\<lambda>d. d \<noteq> slash) (s @ ''/params'') = s" "dropWhile (\<lambda>d. d \<noteq> slash) (s @ ''/params'') = ''/params''"
    using takeWhile_slash [OF assms(2), of "''/params''"] by simp_all
  show ?thesis by (simp add: route_simps agent_client [OF assms(1)] s)
qed

text \<open>The resource at a path of the file system, and that of the version.\<close>

lemma register_lookup: "map_of (c_resources (register p g c)) q =
    (if q = p then Some (g (case map_of (c_resources c) p of Some r \<Rightarrow> r | None \<Rightarrow> new_resource)) else map_of (c_resources c) q)"
  by (simp add: register_resources)

lemma agent_handlers:
  assumes "agent_main ops ver x opts f = Inr c" and "(p, h) \<in> set (fs_requests ops (fs_base ops opts f))"
  shows "map_of (c_resources c) p = Some (set_input_output h new_resource)"
proof -
  from assms(1) obtain t where c: "c = install_extensions ops ver (fs_base ops opts f) x (configured opts t f)"
    by (rule agent_main_client)
  from assms(2) show ?thesis
    by (cases ver) (auto simp: c install_extensions_def setup_defs register_lookup)
qed

section \<open>Properties\<close>

text \<open>C5: The client of the file system requests changes the disk, whatever messages it handles and in which order
  continuations run, only by a sequence of removals, renames and puts on paths that passed the validation at that moment.\<close>

theorem requests_confined:
  "(disk_change ops base)\<^sup>*\<^sup>* f (c_world (handle_events es (register_requests (fs_requests ops base) (new_client f))))"
proof -
  let ?c = "register_requests (fs_requests ops base) (new_client f)"
  have "deref (new_client f) ref = None" for ref by (cases ref) (simp_all add: new_client_def)
  then have "disk.guarded_client ops base (new_client f)" by (simp add: disk.guarded_client_def) (simp add: new_client_def)
  then have "disk.guarded_client ops base ?c"
    by (rule requests_guarded [OF subset_refl]) (simp_all add: fs_requests_def new_client_def)
  then have "disk.moves ops base ?c (handle_events es ?c)" by (rule disk.handle_events_moves)
  moreover have "c_world ?c = f"
    by (simp add: register_requests_def fs_requests_def) (simp add: new_client_def)
  ultimately show ?thesis by (simp add: disk.moves_def)
qed

text \<open>C35: In the agent, a request for a path under one of the prefixes of the file system reaches the handler of that prefix,
  which works under the configured directory, with the rest of the path as its argument.\<close>

theorem agent_serves_files:
  assumes "agent_main ops ver x opts f = Inr c"
    and "(root, key, h) \<in> set [(''$fs/get/'', ''path'', handle_get), (''$fs/info/'', ''path'', handle_info),
      (''$fs/put/'', ''path'', handle_put), (''$fs/delete/'', ''path'', handle_delete), (''$fs/move/'', ''source'', handle_move),
      (''$fs/hash/'', ''path'', handle_hash)]"
  shows "get_resource (c_resources c) (root @ p) JNull = Some (Some (root @ CHR ''*'' # key), j_obj [(key, JStr p)]) \<and>
    map_of (c_resources c) (root @ CHR ''*'' # key) =
      Some (set_input_output (h ops (fs_base ops opts f)) new_resource)"
proof -
  have "(root @ CHR ''*'' # key, h ops (fs_base ops opts f)) \<in> set (fs_requests ops (fs_base ops opts f))"
    using assms(2) by (auto simp: fs_requests_def)
  note handler = agent_handlers [OF assms(1) this]
  from assms(2) file_routes [OF assms(1), of p] handler show ?thesis by auto
qed

definition demo_options :: options where
  "demo_options = default_options\<lparr>opt_username := ''me'', opt_device := ''box'', opt_password := ''secret'', opt_fs_path := ''/srv''\<rparr>"

lemma demo_agent: "\<exists>c. agent_main ops ver x demo_options f = Inr c"
  by (simp add: agent_main_def demo_options_def default_options_def transport_of_def)

definition no_extensions :: "'w extensions" where
  "no_extensions =
     \<lparr>x_input = (\<lambda>_ _ w. (None, w)), x_stream = (\<lambda>_ _ _ _ _ w. (Some [], w)),
      x_params = (\<lambda>_ _ w. (None, w)), x_cmd = (\<lambda>_ _ w. (None, w))\<rparr>"

theorem agent_serves_files_witness:
  "\<exists>c. agent_main mem_ops (1, 3, 0) no_extensions demo_options [] = Inr c \<and>
     get_resource (c_resources c) ''$fs/delete/a/b.txt'' JNull = Some (Some ''$fs/delete/*path'', j_obj [(''path'', JStr ''a/b.txt'')])"
proof -
  from demo_agent [of mem_ops "(1, 3, 0)" no_extensions "[]"] obtain c where c: "agent_main mem_ops (1, 3, 0) no_extensions demo_options [] = Inr c" ..
  from agent_serves_files [OF c, of "''$fs/delete/''" "''path''" handle_delete "''a/b.txt''"]
  have "get_resource (c_resources c) ''$fs/delete/a/b.txt'' JNull = Some (Some ''$fs/delete/*path'', j_obj [(''path'', JStr ''a/b.txt'')])"
    by simp
  with c show ?thesis by blast
qed

text \<open>The agent exits with 0 for help and with 1 for missing credentials or an unknown transport; otherwise it has a client
  with these credentials, the host, the transport and its port.\<close>

theorem agent_main_checks:
  "case agent_main ops ver x opts f of
     Inl code \<Rightarrow>
       (if opt_help opts then code = 0
        else code = 1 \<and> (opt_username opts = [] \<or> opt_device opts = [] \<or> opt_password opts = [] \<or>
          transport_of (opt_transport opts) = None))
   | Inr c \<Rightarrow>
       \<not> opt_help opts \<and> c_username c = opt_username opts \<and> opt_username opts \<noteq> [] \<and>
       c_device_id c = opt_device opts \<and> opt_device opts \<noteq> [] \<and>
       c_device_password c = opt_password opts \<and> opt_password opts \<noteq> [] \<and> c_host c = opt_host opts \<and>
       transport_of (opt_transport opts) = Some (c_transport c) \<and> c_port c = default_port (c_transport c) \<and>
       \<not> c_running c \<and> c_wire c = [] \<and> c_world c = f"
proof (cases "agent_main ops ver x opts f")
  case (Inl code)
  then show ?thesis by (auto simp: agent_main_def split: if_splits option.splits)
next
  case (Inr c)
  from Inr have given: "\<not> opt_help opts" "opt_username opts \<noteq> []" "opt_device opts \<noteq> []" "opt_password opts \<noteq> []"
    by (auto simp: agent_main_def split: if_splits)
  from Inr obtain t where t: "transport_of (opt_transport opts) = Some t"
    and c: "c = install_extensions ops ver (fs_base ops opts f) x (configured opts t f)"
    by (rule agent_main_client)
  show ?thesis
    by (simp add: Inr given t) (simp add: c install_extensions_def setup_defs configured_def set_transport_def set_host_def
        set_credentials_def new_client_def split: prod.split)
qed

text \<open>The version resource.\<close>

lemma version_of_build:
  "map_option out_data (fst (version_output 1 3 0 (new_output JNull False) ())) =
     Some (j_obj [(''major'', JInt 1), (''minor'', JInt 3), (''patch'', JInt 0), (''version'', JStr ''1.3.0'')])"
  by code_simp

end
