(* ===== verification/Agent_Run.thy ===== *)
theory Agent_Run
  imports Agent Client_Session_Correct
begin

text \<open>
  The whole run of the agent, \<^verbatim>\<open>main.cpp\<close>: the checks, the start of the client, the connections it makes until
  \<open>wait\<close> returns, and its stop. The rounds of the connection loop are those of \<open>Client_Session\<close>.
\<close>

section \<open>The run\<close>

text \<open>The exit code, and the client at the end of the process when there was one. The result of \<open>start\<close> is not looked at.\<close>

definition agent_run ::
    "'f fs_ops \<Rightarrow> nat \<times> nat \<times> nat \<Rightarrow> 'f extensions \<Rightarrow> options \<Rightarrow> bool \<Rightarrow> round_env list \<Rightarrow> 'f \<Rightarrow> int \<times> 'f client option" where
  "agent_run ops ver x opts workers_ok rounds f =
     (case agent_main ops ver x opts f of
        Inl code \<Rightarrow> (code, None)
      | Inr c \<Rightarrow>
          (let (started, c1) = start_client workers_ok c;
               c2 = (if started then run_loop rounds c1 else c1);
               (stopped, c3) = stop_client c2
           in (0, Some c3)))"

section \<open>Facts\<close>

lemma register_streams [simp]: "c_streams (register p f c) = c_streams c"
  by (simp add: register_def client_index_def put_resource_def split: option.split)

lemma agent_no_streams: "agent_main ops ver x opts f = Inr c \<Longrightarrow> c_streams c = []"
  by (elim agent_main_client)
    (simp add: install_extensions_def setup_defs configured_def set_transport_def set_host_def set_credentials_def
      new_client_def split: prod.split)

lemma streams_ok_running [simp]: "streams_ok (c\<lparr>c_running := b\<rparr>) = streams_ok c"
  by (rule streams_ok_frame) (simp add: same_maps_def)

lemma stop_client_ok: "streams_ok c \<Longrightarrow> streams_ok (snd (stop_client c)) \<and> \<not> c_running (snd (stop_client c))"
  by (simp add: stop_client_def) (simp add: notify_state_def)

text \<open>Whatever the servers it connects to send during the whole run, the process ends with a stopped client whose streams
  all refer to resources and events that exist; it exits with 1 only when the options are refused.\<close>

theorem agent_run_safe:
  "case agent_run ops ver x opts workers_ok rounds f of
     (code, None) \<Rightarrow> if opt_help opts then code = 0 else code = 1
   | (code, Some c) \<Rightarrow> code = 0 \<and> \<not> opt_help opts \<and> \<not> c_running c \<and> streams_ok c"
proof (cases "agent_main ops ver x opts f")
  case (Inl code)
  then show ?thesis by (auto simp: agent_run_def agent_main_def split: if_splits option.splits)
next
  case (Inr c)
  obtain started c1 where start: "start_client workers_ok c = (started, c1)" by fastforce
  have "streams_ok c1"
    using agent_no_streams [OF Inr] start by (auto simp: start_client_def streams_ok_def split: if_splits)
  moreover have "streams_ok (run_loop rounds c)" if "streams_ok c" for c :: "'a client"
    using that by (induction rounds c rule: run_loop.induct) (simp_all add: streams_ok_round)
  ultimately have ok: "streams_ok (if started then run_loop rounds c1 else c1)" by simp
  obtain stopped c3 where stop: "stop_client (if started then run_loop rounds c1 else c1) = (stopped, c3)" by fastforce
  from stop_client_ok [OF ok] have "streams_ok c3 \<and> \<not> c_running c3" by (simp add: stop)
  moreover have "agent_run ops ver x opts workers_ok rounds f = (0, Some c3)"
    unfolding agent_run_def Inr start Let_def sum.case prod.case stop ..
  moreover have "\<not> opt_help opts" using Inr by (auto simp: agent_main_def)
  ultimately show ?thesis by simp
qed

text \<open>A client that could not start its workers makes no connection, and when the wait ends the process reports success.\<close>

theorem failed_start_exits_well:
  assumes "agent_main ops ver x opts f = Inr c"
  shows "agent_run ops ver x opts False rounds f = (0, Some c)"
proof -
  from assms obtain t where c: "c = install_extensions ops ver (fs_base ops opts f) x (configured opts t f)"
    by (rule agent_main_client)
  have "\<not> c_running c"
    by (simp add: c install_extensions_def setup_defs configured_def set_transport_def set_host_def set_credentials_def
        new_client_def split: prod.split)
  then show ?thesis by (simp add: agent_run_def assms start_client_def stop_client_def)
qed

end
