(* ===== verification/Spec2Isabelle.thy ===== *)
theory Spec2Isabelle
  imports Client_Session_Correct Client_Transport Message_Types Message_Logger Local_Http Json_Proxy Cmd File_Receiver
    Session_Traffic Download_Wire Upload_Wire Command_Wire Target_Wire Tunnel_Wire Agent_Run
begin

text \<open>
  Verification of IOTMP-Linux, the client that connects a Linux device to a Thinger.io server. Paths below are
  relative to \<^verbatim>\<open>src/src/thinger/iotmp\<close> unless they start with \<^verbatim>\<open>src/\<close>.

  \<^bold>\<open>The program.\<close> The client keeps one connection to the server. Messages of the IOTMP protocol go over it: a type,
  a size, and numbered fields whose values are PSON, a binary JSON. The application registers resources, callbacks under
  a path; the server runs them, asks for their description, and opens streams on them. A stream is either the periodic sampling of a
  resource or a session of a stream manager: a terminal, a tunnel, a command, a file transfer. The client and its sessions are
  coroutines, and the models are sequences of steps between suspensions. A session runs on one event loop. The handlers of
  RUN and DESCRIBE run on a pool of up to four threads (\<^verbatim>\<open>client.hpp\<close>, \<open>handle_run\<close> and \<open>handle_describe\<close>), so two of them may
  overlap in the code; the model takes each handler as one step, in the order of the messages: callbacks that overlap and responses
  that overtake each other are not part of it.

  \<^bold>\<open>Theories, in the order of the program.\<close>
  \<^item> \<open>Prelude\<close>: machine integers and octets, sorted association lists for \<open>std::map\<close>, facts on words.
  \<^item> \<open>Float_Bits\<close>, \<open>Json_Value\<close>: the values of \<open>nlohmann::json\<close> the code uses, with numbers as bit patterns,
    and \<open>get_value\<close> (\<^verbatim>\<open>core/iotmp_resource.hpp\<close>).
  \<^item> \<open>Io_Adapters\<close>: the readers and writers of \<^verbatim>\<open>core/iotmp_adapters.hpp\<close>, and the locales \<open>byte_reader\<close> and
    \<open>byte_writer\<close> with what the codecs rely on, interpreted on them.
  \<^item> \<open>Pson\<close>, \<open>Pson_Roundtrip\<close>, \<open>Pson_Correct\<close>: \<^verbatim>\<open>core/pson_encoder.hpp\<close>, \<^verbatim>\<open>core/pson_decoder.hpp\<close>; round trip, safety
    of the decoder on any input, the sizing pass.
  \<^item> \<open>Iotmp_Message\<close>, \<open>Iotmp_Codec\<close>, \<open>Iotmp_Roundtrip\<close>, \<open>Framing\<close>: messages, their codec, and the frames that
    \<open>read_message\<close> of \<^verbatim>\<open>client.hpp\<close> reads; frames written one after the other are read back. \<open>Message_Types\<close>: the fields of
    what is read are maps, whatever octets arrive. \<open>Message_Logger\<close>: the lines of \<^verbatim>\<open>core/iotmp_logger.hpp\<close>.
  \<^item> \<open>Path_Match\<close>, \<open>Resource\<close>: patterns of resource paths, the wrappers \<open>input\<close> and \<open>output\<close>, \<open>run_resource\<close> and \<open>describe\<close>.
    \<open>Json_Proxy\<close>: the references through which callbacks fill in data. \<open>Local_Http\<close>: the endpoints of a local HTTP server.
  \<^item> \<open>Write_Pump\<close>: the queue that a single coroutine writes out, a shape that the client, terminals, tunnels and
    commands share, as a locale; each of them interprets it.
  \<^item> \<open>Client_State\<close>, \<open>Client_Requests\<close>, \<open>Client_Frame\<close>, \<open>Client_Correct\<close>: the state of the client, its API, and the handling
    of a message in one step; what every handler keeps is proved in locales of frames.
  \<^item> \<open>Client_Session\<close>, \<open>Client_Session_Correct\<close>: authentication, subscriptions, sampling, and the loop that connects again.
    \<open>Client_Transport\<close>: which socket is asked for, and whether it verifies the server.
  \<^item> \<open>Stream_Manager\<close>, \<open>Stream_Manager_Correct\<close>: \<^verbatim>\<open>core/iotmp_stream_manager.cpp\<close> with the life of session objects; the
    locale \<open>session_class\<close> is what it asks of a kind of session.
  \<^item> \<open>Shell_Env\<close>, \<open>Terminal\<close>, \<open>Proxy\<close>, \<open>Cmd_Stream\<close>, \<open>Cmd\<close>: \<^verbatim>\<open>util\<close> and the extensions; sessions are state machines over events.
  \<^item> \<open>Fs_Path\<close>, \<open>Filesystem\<close>, \<open>Filesystem_Correct\<close>: the paths and the request handlers of \<^verbatim>\<open>extensions/fs/filesystem.cpp\<close>.
  \<^item> \<open>File_Download\<close>, \<open>File_Upload\<close>: the streamed transfers, with reads of the file that fail, a last write that is lost at the close, and
    a removal that throws. \<open>Refinement\<close>: sessions against contracts, as a locale, for runs of allowed events; \<open>File_Window\<close>
    and \<open>File_Receiver\<close>: the sliding window and the receiver of a file, the contracts that downloads and uploads refine as long as the
    disk works. \<open>Session_Traffic\<close>: the traffic counters of a session.
  \<^item> \<open>Stream_Wire\<close>: a session, the client's write loop and the server that reads the connection, run together. The locale
    \<open>frame_source\<close> says what a session has to promise for its values to arrive; \<open>Byte_Wire\<close> reduces sessions that act on the
    client directly to it, by the locale \<open>byte_source\<close>. Their instances: \<open>Download_Wire\<close>, from the file to what the server
    reads; \<open>Command_Wire\<close>, from the outputs of a command; \<open>Tunnel_Wire\<close>, from the target of a tunnel and from the shell of a
    terminal; \<open>Upload_Wire\<close>, the acknowledgements, and the way back: from the octets of the server, the request that starts an
    upload and its chunks, through the client and the stream manager to the file.
  \<^item> \<open>Session_Wire\<close>: the way from a message to the session its stream leads to, and the locale \<open>fed_session\<close>, an extension of
    \<open>write_pump\<close>, of sessions that queue what they are fed; \<open>Target_Wire\<close> interprets it for tunnels, terminals and commands: from
    the octets of the server to what the target, the shell or the command gets.
  \<^item> \<open>Resource_Guard\<close>, \<open>Agent\<close>: what callbacks may do carries over to the client; \<^verbatim>\<open>src/main.cpp\<close>, the resources of
    the agent, and properties that go from a message to the disk. \<open>Agent_Run\<close>: the process from its start to its exit code.

  \<^bold>\<open>Conventions.\<close> An exception is \<open>None\<close>, or the outcome \<open>Threw\<close> of a handler; following a dangling pointer is the outcome
  \<open>Undefined\<close>, which the safety properties exclude. An \<open>int\<close> or \<open>size_t\<close> of the code is a word of its width.
  Objects that are reached through \<open>weak_ptr\<close> are entries of a table under a number that is not used again.
  What the code gets from outside is an argument: bytes of the socket, outcomes of system calls, the disk (a record of
  operations over a state), whether the clock asks for a delay. An event that a state does not allow leaves it as it is.

  \<^bold>\<open>Bounds and fuel.\<close> The decoder recurses with the octets left as its measure, and messages are limited to 262144 octets as in
  the code. Loops over the network are functions of the finite list of what arrives; \<open>read_messages\<close> of
  \<open>Framing\<close> takes the values the flags \<open>running_ && connected_\<close> have at the successive tests of \<open>read_loop\<close>. \<open>exec_loop\<close> of \<open>Cmd\<close> takes the list of
  completions; \<open>exec_result\<close> says when it returns. \<open>serve\<close> of \<open>File_Download\<close> takes the rounds in a list that says which of them the clock
  delays; one more round than the file has octets is enough, since each round but the last sends one.

  \<^bold>\<open>What is shown.\<close> Round trips of the codecs and of put and get; safety of the decoder and the limit of a frame; no dangling
  stream reference over whole runs of the connection loop, and the states a round reports, exceptions included; one response for each
  request whose handler returns; the order and
  completeness of everything queued for writing; the life of sessions, the end of their streams and the fate of each handler; the exit frame of
  a command that the server did not stop; the result of a command that is waited for; confinement of file requests to validated paths, for a handler and for
  any sequence of messages; content, window and completion of transfers, that they complete with a server that takes part, and that what the server reads from the connection is
  the file, the output of the command, or what the target of the tunnel sent, and that what the server sends ends up in the file it asked for, or at the target of the tunnel; verification of the server in every history of configurations.
  Faults are events: a property that needs the disk or a fork to work says so in its hypotheses, and what happens otherwise is proved
  beside it. Behaviour that departs from what the code or its documents intend is stated as lemmas under the headings of corners.

  \<^bold>\<open>Not modelled.\<close> Boost.Asio, TLS, the WebSocket client, OpenSSL and \<open>nlohmann::json\<close> itself, which are not part of the
  repository; progress lines and the calls of the message log within other operations; conversions of callbacks with other argument types in \<^verbatim>\<open>core/iotmp_resource.hpp\<close>,
  which all reduce to the four kinds modelled; the parsing of the command line; \<^verbatim>\<open>extensions/ota\<close>, a
  declaration without code. Within the downloads, the counter of sent octets; in uploads the timeout, a double in the code,
  is computed exactly. Two calls of the file system in one handler see the same disk: races with other processes are
  not part of the model.
\<close>

end
